(* ===== verification/Prelude.thy ===== *)
theory Prelude
  imports Complex_Main "HOL-Library.Word" "HOL-Library.Log_Nat"
begin

text \<open>
  The ground of the development: the named collections that the components add their
  simplification rules to, the type synonyms for Go's bytes and strings, and the generic
  lemmas on lists, options and integers that several components share. Nothing here
  models a function of the repository.
\<close>

named_theorems go_string \<open>characterisations of the string functions of the Go library\<close>

named_theorems prop_simps \<open>how each property operation changes each part of a property\<close>

named_theorems conn_simps \<open>how each connection operation changes each part of a connection\<close>

section \<open>Bytes and integers\<close>

type_synonym byte = "8 word"

text \<open>Go's \<open>int\<close> is 64 bits wide on the platforms the repository targets: the value of
  an integer expression is its mathematical value wrapped into the signed range.\<close>

definition wrap64 :: "int \<Rightarrow> int" where
  "wrap64 n = (n + 2 ^ 63) mod 2 ^ 64 - 2 ^ 63"

lemma wrap64_id: "- (2 ^ 63) \<le> n \<Longrightarrow> n < 2 ^ 63 \<Longrightarrow> wrap64 n = n"
  by (simp add: wrap64_def)

lemma wrap64_small [simp]: "0 \<le> n \<Longrightarrow> n < 2 ^ 63 \<Longrightarrow> wrap64 n = n"
  by (rule wrap64_id) auto

text \<open>Go's integer division truncates toward zero.\<close>

definition go_div :: "int \<Rightarrow> int \<Rightarrow> int" where
  "go_div a b = sgn a * sgn b * (\<bar>a\<bar> div \<bar>b\<bar>)"

lemma go_div_nonneg [simp]: "0 \<le> a \<Longrightarrow> 0 < b \<Longrightarrow> go_div a b = a div b"
  by (cases "a = 0") (auto simp: go_div_def sgn_if)

text \<open>Go's \<open>make\<close> panics on a negative length and on more than 2 ^ 48 bytes.\<close>

definition make_limit :: int where
  "make_limit = 2 ^ 48"

definition can_make :: "int \<Rightarrow> int \<Rightarrow> bool" where
  "can_make n elem \<longleftrightarrow> 0 \<le> n \<and> n * elem \<le> make_limit"

end
