(* ===== verification/GoFloat.thy ===== *)
theory GoFloat
  imports Prelude
begin

text \<open>
  Go's \<open>float64\<close>: IEEE 754 binary64 values and the operations the repository performs on
  them. A finite value is the rational it stands for (the two zeros are told apart), and
  every operation computes its exact result and rounds it to the nearest representable
  value, ties to even, overflowing to an infinity. All definitions evaluate.
\<close>

section \<open>Values\<close>

datatype float64 = NaN | PosInf | NegInf | NegZero | Fin rat

text \<open>The rational a finite value stands for; 0 on the others.\<close>

fun fval :: "float64 \<Rightarrow> rat" where
  "fval (Fin x) = x"
| "fval _ = 0"

fun is_fin :: "float64 \<Rightarrow> bool" where
  "is_fin (Fin x) = True"
| "is_fin NegZero = True"
| "is_fin _ = False"

fun sign_bit :: "float64 \<Rightarrow> bool" where
  "sign_bit (Fin x) = (x < 0)"
| "sign_bit NegZero = True"
| "sign_bit NegInf = True"
| "sign_bit _ = False"

section \<open>Rounding\<close>

text \<open>The exponent of the leading bit of a positive rational.\<close>

definition ilog2 :: "rat \<Rightarrow> int" where
  "ilog2 x =
     (let p = fst (quotient_of x); q = snd (quotient_of x);
          k = bitlen p - bitlen q
      in if 2 powi k \<le> x then k else k - 1)"

text \<open>Nearest integer, ties to even.\<close>

definition round_even :: "rat \<Rightarrow> int" where
  "round_even x =
     (let f = \<lfloor>x\<rfloor>; d = x - of_int f
      in if d < 1 / 2 then f
         else if 1 / 2 < d then f + 1
         else if even f then f else f + 1)"

text \<open>The weight of the last bit of the 53-bit significand, subnormals included.\<close>

definition ulp_exp :: "rat \<Rightarrow> int" where
  "ulp_exp x = max (ilog2 \<bar>x\<bar> - 52) (- 1074)"

definition round_rat :: "rat \<Rightarrow> rat" where
  "round_rat x =
     (if x = 0 then 0
      else let u = 2 powi ulp_exp x in of_int (round_even (x / u)) * u)"

definition f64_of_rat :: "rat \<Rightarrow> float64" where
  "f64_of_rat x =
     (let r = round_rat x
      in if 2 ^ 1024 \<le> r then PosInf
         else if r \<le> - (2 ^ 1024) then NegInf
         else if r = 0 \<and> x < 0 then NegZero
         else Fin r)"

definition f64_of_int :: "int \<Rightarrow> float64" where
  "f64_of_int n = f64_of_rat (of_int n)"

section \<open>Arithmetic and comparison\<close>

instantiation float64 :: "{uminus, plus, times, ord}"
begin

fun uminus_float64 :: "float64 \<Rightarrow> float64" where
  "uminus_float64 NaN = NaN"
| "uminus_float64 PosInf = NegInf"
| "uminus_float64 NegInf = PosInf"
| "uminus_float64 NegZero = Fin 0"
| "uminus_float64 (Fin x) = (if x = 0 then NegZero else Fin (- x))"

definition plus_float64 :: "float64 \<Rightarrow> float64 \<Rightarrow> float64" where
  "plus_float64 a b =
     (if a = NaN \<or> b = NaN then NaN
      else if is_fin a \<and> is_fin b
        then (if a = NegZero \<and> b = NegZero then NegZero else f64_of_rat (fval a + fval b))
      else if is_fin a then b
      else if is_fin b then a
      else if a = b then a else NaN)"

definition times_float64 :: "float64 \<Rightarrow> float64 \<Rightarrow> float64" where
  "times_float64 a b =
     (if a = NaN \<or> b = NaN then NaN
      else if is_fin a \<and> is_fin b
        then (if fval a * fval b = 0
              then (if sign_bit a \<noteq> sign_bit b then NegZero else Fin 0)
              else f64_of_rat (fval a * fval b))
      else if (is_fin a \<and> fval a = 0) \<or> (is_fin b \<and> fval b = 0) then NaN
      else if sign_bit a \<noteq> sign_bit b then NegInf else PosInf)"

text \<open>Every comparison with a NaN is false.\<close>

definition less_float64 :: "float64 \<Rightarrow> float64 \<Rightarrow> bool" where
  "less_float64 a b =
     (if a = NaN \<or> b = NaN then False
      else if is_fin a \<and> is_fin b then fval a < fval b
      else a \<noteq> b \<and> (a = NegInf \<or> b = PosInf))"

definition less_eq_float64 :: "float64 \<Rightarrow> float64 \<Rightarrow> bool" where
  "less_eq_float64 a b =
     (if a = NaN \<or> b = NaN then False
      else if is_fin a \<and> is_fin b then fval a \<le> fval b
      else a = b \<or> a = NegInf \<or> b = PosInf)"

instance ..

end

text \<open>Go's \<open>==\<close> on floats: the zeros are equal, a NaN equals nothing.\<close>

definition f64_eq :: "float64 \<Rightarrow> float64 \<Rightarrow> bool" where
  "f64_eq a b =
     (if a = NaN \<or> b = NaN then False
      else if is_fin a \<and> is_fin b then fval a = fval b
      else a = b)"

text \<open>Conversion to an integer truncates toward zero. What it gives on a NaN, an infinity
  or a value out of the target's range is implementation defined, so those are None here
  and a definition that converts says what it takes for it.\<close>

definition f64_trunc :: "float64 \<Rightarrow> int option" where
  "f64_trunc v =
     (if is_fin v then Some (if 0 \<le> fval v then \<lfloor>fval v\<rfloor> else \<lceil>fval v\<rceil>) else None)"

section \<open>Values that need no rounding\<close>

text \<open>A rational that is a 53-bit integer times a power of two in range is its own
  rounding: the fact that makes integer arithmetic on floats exact.\<close>

lemma round_even_of_int [simp]: "round_even (of_int n) = n"
  by (simp add: round_even_def)

lemma round_even_bounds: "\<bar>of_int (round_even x) - x\<bar> \<le> 1 / 2"
proof -
  have "of_int \<lfloor>x\<rfloor> \<le> x" "x < of_int \<lfloor>x\<rfloor> + 1" by linarith+
  then show ?thesis by (auto simp: round_even_def Let_def)
qed

lemma int_powi_bounds:
  assumes "0 < (p :: int)"
  shows "(2 :: rat) powi (bitlen p - 1) \<le> of_int p" and "of_int p < (2 :: rat) powi bitlen p"
proof -
  have b: "2 ^ nat (bitlen p - 1) \<le> p" "p < 2 ^ nat (bitlen p)"
    using bitlen_bounds [OF assms] by auto
  have one: "1 \<le> bitlen p" using assms bitlen_nonneg [of p] bitlen_eq_zero_iff [of p] by linarith
  have "(of_int (2 ^ nat (bitlen p - 1)) :: rat) \<le> of_int p" using b(1) by (simp only: of_int_le_iff)
  then show "(2 :: rat) powi (bitlen p - 1) \<le> of_int p" using one by (simp add: power_int_def)
  have "(of_int p :: rat) < of_int (2 ^ nat (bitlen p))" using b(2) by (simp only: of_int_less_iff)
  then show "of_int p < (2 :: rat) powi bitlen p" using one by (simp add: power_int_def)
qed

lemma ilog2_bounds:
  assumes "0 < x"
  shows "2 powi ilog2 x \<le> x" and "x < 2 powi (ilog2 x + 1)"
proof -
  obtain p q where pq: "quotient_of x = (p, q)" by (cases "quotient_of x")
  have q: "0 < q" using pq by (rule quotient_of_denom_pos)
  have x: "x = of_int p / of_int q" using pq by (rule quotient_of_div)
  have p: "0 < p" using assms q by (simp add: x zero_less_divide_iff)
  define k where "k = bitlen p - bitlen q"
  note pb = int_powi_bounds [OF p] and qb = int_powi_bounds [OF q]
  have "x < 2 powi bitlen p / of_int q"
    unfolding x using pb(2) q by (simp add: divide_strict_right_mono)
  also have "\<dots> \<le> 2 powi bitlen p / 2 powi (bitlen q - 1)"
    using qb(1) q by (intro divide_left_mono) auto
  also have "\<dots> = 2 powi (k + 1)"
    by (simp add: power_int_diff power_int_add k_def)
  finally have up: "x < 2 powi (k + 1)" .
  have "2 powi (k - 1) = 2 powi (bitlen p - 1) / (2 :: rat) powi bitlen q"
    by (simp add: power_int_diff k_def)
  also have "\<dots> \<le> of_int p / 2 powi bitlen q"
    using pb(1) by (simp add: divide_right_mono)
  also have "\<dots> \<le> x"
    unfolding x using qb(2) p q by (intro divide_left_mono) auto
  finally have low: "2 powi (k - 1) \<le> x" .
  have ilog: "ilog2 x = (if 2 powi k \<le> x then k else k - 1)"
    by (simp add: ilog2_def pq k_def Let_def)
  show "2 powi ilog2 x \<le> x" using low ilog by simp
  show "x < 2 powi (ilog2 x + 1)" using up ilog by simp
qed

lemma powi_less_cancel: "(2 :: rat) powi a < 2 powi b \<Longrightarrow> a < b"
  by (rule ccontr) (use power_int_increasing [of b a "2 :: rat"] in auto)

lemma ilog2_less: "0 < x \<Longrightarrow> x < 2 powi k \<Longrightarrow> ilog2 x < k"
  by (rule powi_less_cancel) (use ilog2_bounds(1) [of x] in simp)

lemma round_rat_dyadic:
  assumes x: "x = of_int m * 2 powi j" and m: "\<bar>m\<bar> < 2 ^ 53" and j: "- 1074 \<le> j"
  shows "round_rat x = x"
proof (cases "x = 0")
  case False
  have "\<bar>x\<bar> = of_int \<bar>m\<bar> * 2 powi j" by (simp add: x abs_mult)
  also have "\<dots> < of_int (2 ^ 53) * 2 powi j"
    using m by (intro mult_strict_right_mono) (simp_all only: of_int_less_iff, simp)
  also have "\<dots> = 2 powi (53 + j)" by (simp add: power_int_add)
  finally have "ilog2 \<bar>x\<bar> < 53 + j" using False by (intro ilog2_less) auto
  then have le: "ulp_exp x \<le> j" using j by (simp add: ulp_exp_def)
  have "x / 2 powi ulp_exp x = of_int m * 2 powi (j - ulp_exp x)"
    by (simp add: x power_int_diff)
  also have "\<dots> = of_int (m * 2 ^ nat (j - ulp_exp x))"
    using le by (simp add: power_int_def)
  finally have "round_even (x / 2 powi ulp_exp x) = m * 2 ^ nat (j - ulp_exp x)"
    and "of_int (m * 2 ^ nat (j - ulp_exp x)) * 2 powi ulp_exp x = x"
    by (simp_all only: round_even_of_int) (simp add: field_simps)
  with False show ?thesis by (simp add: round_rat_def Let_def)
qed (simp add: round_rat_def)

lemma f64_of_rat_dyadic:
  assumes "x = of_int m * 2 powi j" "\<bar>m\<bar> < 2 ^ 53" "- 1074 \<le> j" "j \<le> 900"
  shows "f64_of_rat x = Fin x"
proof -
  have "\<bar>x\<bar> = of_int \<bar>m\<bar> * 2 powi j" by (simp add: assms(1) abs_mult)
  also have "\<dots> < of_int (2 ^ 53) * 2 powi j"
    using assms(2) by (intro mult_strict_right_mono) (simp_all only: of_int_less_iff, simp)
  also have "\<dots> = 2 powi (53 + j)" by (simp add: power_int_add)
  also have "\<dots> \<le> 2 powi 1024" using assms(4) by (intro power_int_increasing) auto
  finally have "\<bar>x\<bar> < 2 ^ 1024" by (simp add: power_int_def)
  with round_rat_dyadic [OF assms(1-3)] show ?thesis
    by (auto simp: f64_of_rat_def)
qed

lemma f64_of_int_exact: "\<bar>n\<bar> < 2 ^ 53 \<Longrightarrow> f64_of_int n = Fin (of_int n)"
  unfolding f64_of_int_def by (rule f64_of_rat_dyadic [where j = 0]) auto

lemma f64_of_rat_int: "\<bar>n\<bar> < 2 ^ 53 \<Longrightarrow> f64_of_rat (of_int n) = Fin (of_int n)"
  using f64_of_int_exact by (simp add: f64_of_int_def)

lemma f64_of_rat_half:
  assumes "\<bar>n\<bar> < 2 ^ 52"
  shows "f64_of_rat (of_int n + 1 / 2) = Fin (of_int n + 1 / 2)"
  by (rule f64_of_rat_dyadic [where j = "- 1" and m = "2 * n + 1"])
     (use assms in \<open>auto simp: field_simps\<close>)

lemma f64_of_rat_0 [simp]: "f64_of_rat 0 = Fin 0"
  by (simp add: f64_of_rat_def round_rat_def)

section \<open>Laws of the operations\<close>

lemma f64_of_rat_not_NaN [simp]: "f64_of_rat x \<noteq> NaN"
  by (simp add: f64_of_rat_def Let_def)

lemma f64_plus_int:
  "\<bar>a + b\<bar> < 2 ^ 53 \<Longrightarrow> Fin (of_int a) + Fin (of_int b) = Fin (of_int (a + b))"
  by (simp add: plus_float64_def f64_of_rat_int flip: of_int_add)

lemma f64_times_one_int:
  "\<bar>a\<bar> < 2 ^ 53 \<Longrightarrow> Fin (of_int a) * Fin 1 = Fin (of_int a)"
  by (simp add: times_float64_def f64_of_rat_int)

lemma f64_uminus_fval [simp]: "fval (- v) = - fval v"
  by (cases v) auto

lemma f64_is_fin_uminus [simp]: "is_fin (- v) = is_fin v"
  by (cases v) auto

lemma f64_uminus_uminus [simp]: "- (- v) = (v :: float64)"
  by (cases v) auto

lemma f64_uminus_eq_iff: "- v = NaN \<longleftrightarrow> v = NaN"
  by (cases v) auto

lemma round_even_uminus: "round_even (- x) = - round_even x"
proof (cases "x = of_int \<lfloor>x\<rfloor>")
  case True
  then obtain n where x: "x = of_int n" by blast
  have "round_even (- of_int n) = - n" by (metis of_int_minus round_even_of_int)
  then show ?thesis by (simp add: x)
next
  case False
  define f where "f = \<lfloor>x\<rfloor>"
  have "of_int f \<le> x" "x < of_int f + 1" unfolding f_def by linarith+
  with False have f: "of_int f < x" "x < of_int f + 1" by (auto simp: f_def less_le)
  have g: "\<lfloor>- x\<rfloor> = - f - 1" by (rule floor_unique) (use f in auto)
  have h: "\<lfloor>x\<rfloor> = f" by (simp add: f_def)
  show ?thesis by (auto simp: round_even_def g h Let_def)
qed

lemma round_rat_uminus: "round_rat (- x) = - round_rat x"
  by (simp add: round_rat_def ulp_exp_def Let_def round_even_uminus)

lemma f64_of_rat_uminus: "x \<noteq> 0 \<Longrightarrow> f64_of_rat (- x) = - f64_of_rat x"
  by (auto simp: f64_of_rat_def round_rat_uminus Let_def linorder_not_less)

lemma f64_not_less_NaN [simp]: "\<not> v < NaN" "\<not> NaN < (v :: float64)"
  by (simp_all add: less_float64_def)

lemma f64_less_Fin [simp]: "Fin x < Fin y \<longleftrightarrow> x < y"
  by (simp add: less_float64_def)

lemma f64_le_Fin [simp]: "Fin x \<le> Fin y \<longleftrightarrow> x \<le> y"
  by (simp add: less_eq_float64_def)

section \<open>Evaluation\<close>

text \<open>The overflow test by the exponent of the leading bit, which the simplifier computes
  without building \<open>2 ^ 1024\<close>.\<close>

lemma ilog2_ge_iff:
  assumes "0 < x"
  shows "k \<le> ilog2 x \<longleftrightarrow> 2 powi k \<le> x"
proof
  assume "k \<le> ilog2 x"
  then have "(2 :: rat) powi k \<le> 2 powi ilog2 x" by (intro power_int_increasing) auto
  with ilog2_bounds(1) [OF assms] show "2 powi k \<le> x" by linarith
next
  assume "2 powi k \<le> x"
  then have "(2 :: rat) powi k < 2 powi (ilog2 x + 1)" using ilog2_bounds(2) [OF assms] by linarith
  then show "k \<le> ilog2 x" by (auto dest: powi_less_cancel)
qed

lemma f64_of_rat_code [code]:
  "f64_of_rat x =
     (let r = round_rat x
      in if 0 < r then (if 1024 \<le> ilog2 r then PosInf else Fin r)
         else if r < 0 then (if 1024 \<le> ilog2 (- r) then NegInf else Fin r)
         else if x < 0 then NegZero else Fin r)"
proof -
  have big: "(2 :: rat) powi 1024 = 2 ^ 1024" by (simp add: power_int_def)
  have pos: "0 < r \<Longrightarrow> 1024 \<le> ilog2 r \<longleftrightarrow> 2 ^ 1024 \<le> r" for r
    using ilog2_ge_iff [of r 1024] big by simp
  have neg: "r < 0 \<Longrightarrow> 1024 \<le> ilog2 (- r) \<longleftrightarrow> r \<le> - (2 ^ 1024)" for r
    using pos [of "- r"] by (simp add: le_minus_iff)
  have gap: "(2 :: rat) ^ 1024 > 0" by simp
  show ?thesis using gap
    by (auto simp: f64_of_rat_def Let_def pos neg simp del: zero_less_power)
qed

section \<open>Zeros\<close>

text \<open>Equal up to the sign of a zero.\<close>

definition zero_sim :: "float64 \<Rightarrow> float64 \<Rightarrow> bool" where
  "zero_sim a b \<longleftrightarrow> a = b \<or> is_fin a \<and> is_fin b \<and> fval a = 0 \<and> fval b = 0"

lemma zero_sim_refl [simp]: "zero_sim a a"
  by (simp add: zero_sim_def)

lemma is_fin_zero_cases: "is_fin v \<Longrightarrow> fval v = 0 \<Longrightarrow> v = Fin 0 \<or> v = NegZero"
  by (cases v) auto

lemma zero_sim_plus: "zero_sim a b \<Longrightarrow> zero_sim (a + c) (b + c)"
  by (cases "a = b") (cases c; auto simp: zero_sim_def plus_float64_def dest!: is_fin_zero_cases)+

lemma zero_sim_uminus: "zero_sim a b \<Longrightarrow> zero_sim (- a) (- b)"
  by (auto simp: zero_sim_def)

lemma round_rat_nonneg: "0 \<le> x \<Longrightarrow> 0 \<le> round_rat x"
  by (auto simp: round_rat_def Let_def round_even_def)

lemma f64_of_rat_nonneg:
  assumes "0 \<le> x"
  shows "f64_of_rat x = PosInf \<or> (\<exists>r. f64_of_rat x = Fin r \<and> 0 \<le> r)"
proof -
  have "(0 :: rat) \<le> 2 ^ 1024" by simp
  with round_rat_nonneg [OF assms] assms show ?thesis
    by (auto simp: f64_of_rat_def Let_def simp del: zero_le_power)
qed

end
