(* ===== verification/GoStrings.thy ===== *)
theory GoStrings
  imports GoFloat "HOL-Library.List_Lexorder" "HOL-Library.Char_ord"
begin

text \<open>
  The functions of Go's \<open>strings\<close> and \<open>unicode/utf8\<close> packages that the repository calls.
  A Go string is a sequence of bytes, so it is a \<open>char list\<close> here, one \<open>char\<close> per byte;
  functions that look at runes decode UTF-8.
\<close>

section \<open>White space\<close>

text \<open>The UTF-8 encodings of the runes of \<open>unicode.IsSpace\<close>: the six ASCII ones, U+0085,
  U+00A0, U+1680, U+2000 to U+200A, U+2028, U+2029, U+202F, U+205F and U+3000.\<close>

definition go_spaces :: "string list" where
  "go_spaces =
     [[CHR 0x09], [CHR 0x0A], [CHR 0x0B], [CHR 0x0C], [CHR 0x0D], [CHR 0x20],
      [CHR 0xC2, CHR 0x85], [CHR 0xC2, CHR 0xA0], [CHR 0xE1, CHR 0x9A, CHR 0x80],
      [CHR 0xE2, CHR 0x80, CHR 0x80], [CHR 0xE2, CHR 0x80, CHR 0x81],
      [CHR 0xE2, CHR 0x80, CHR 0x82], [CHR 0xE2, CHR 0x80, CHR 0x83],
      [CHR 0xE2, CHR 0x80, CHR 0x84], [CHR 0xE2, CHR 0x80, CHR 0x85],
      [CHR 0xE2, CHR 0x80, CHR 0x86], [CHR 0xE2, CHR 0x80, CHR 0x87],
      [CHR 0xE2, CHR 0x80, CHR 0x88], [CHR 0xE2, CHR 0x80, CHR 0x89],
      [CHR 0xE2, CHR 0x80, CHR 0x8A], [CHR 0xE2, CHR 0x80, CHR 0xA8],
      [CHR 0xE2, CHR 0x80, CHR 0xA9], [CHR 0xE2, CHR 0x80, CHR 0xAF],
      [CHR 0xE2, CHR 0x81, CHR 0x9F], [CHR 0xE3, CHR 0x80, CHR 0x80]]"

fun strip_prefix :: "string \<Rightarrow> string \<Rightarrow> string option" where
  "strip_prefix [] s = Some s"
| "strip_prefix (p # ps) [] = None"
| "strip_prefix (p # ps) (c # s) = (if p = c then strip_prefix ps s else None)"

lemma strip_prefix_Some: "strip_prefix p s = Some r \<longleftrightarrow> s = p @ r"
  by (induction p s rule: strip_prefix.induct) auto

text \<open>The string after one leading element of \<open>ps\<close>, if it has one.\<close>

fun drop_one_of :: "string list \<Rightarrow> string \<Rightarrow> string option" where
  "drop_one_of [] s = None"
| "drop_one_of (p # ps) s =
     (case strip_prefix p s of Some r \<Rightarrow> Some r | None \<Rightarrow> drop_one_of ps s)"

lemma drop_one_of_Some: "drop_one_of ps s = Some r \<Longrightarrow> \<exists>p \<in> set ps. s = p @ r"
  by (induction ps) (auto split: option.splits simp: strip_prefix_Some)

lemma drop_one_of_None: "drop_one_of ps s = None \<longleftrightarrow> (\<forall>p \<in> set ps. \<forall>r. s \<noteq> p @ r)"
proof (induction ps)
  case (Cons p ps)
  have "strip_prefix p s = None \<longleftrightarrow> (\<forall>r. s \<noteq> p @ r)"
    using strip_prefix_Some [of p s] by (metis not_Some_eq)
  with Cons show ?case by (auto split: option.splits)
qed simp

lemma drop_one_of_shorter:
  assumes "drop_one_of ps s = Some r" "[] \<notin> set ps"
  shows "length r < length s"
proof -
  obtain p where "p \<in> set ps" "s = p @ r" using drop_one_of_Some [OF assms(1)] by blast
  with assms(2) show ?thesis by (cases p) auto
qed

lemma Nil_not_go_space [simp]: "[] \<notin> set go_spaces" "[] \<notin> rev ` set go_spaces"
  by (simp_all add: go_spaces_def)

function strip_all :: "string list \<Rightarrow> string \<Rightarrow> string" where
  "strip_all ps s =
     (if [] \<in> set ps then s
      else case drop_one_of ps s of None \<Rightarrow> s | Some r \<Rightarrow> strip_all ps r)"
  by pat_completeness auto
termination
  by (relation "measure (\<lambda>(ps, s). length s)") (auto dest: drop_one_of_shorter)

declare strip_all.simps [simp del]

definition TrimLeftSpace :: "string \<Rightarrow> string" where
  "TrimLeftSpace s = strip_all go_spaces s"

definition TrimRightSpace :: "string \<Rightarrow> string" where
  "TrimRightSpace s = rev (strip_all (map rev go_spaces) (rev s))"

definition TrimSpace :: "string \<Rightarrow> string" where
  "TrimSpace s = TrimRightSpace (TrimLeftSpace s)"

section \<open>Trimming, laws\<close>

lemma strip_all_None: "drop_one_of ps s = None \<Longrightarrow> strip_all ps s = s"
  by (simp add: strip_all.simps)

lemma strip_all_step: "[] \<notin> set ps \<Longrightarrow> drop_one_of ps s = Some r \<Longrightarrow> strip_all ps s = strip_all ps r"
  by (simp add: strip_all.simps [of ps s])

lemma strip_all_stuck: "[] \<notin> set ps \<Longrightarrow> drop_one_of ps (strip_all ps s) = None"
proof (induction ps s rule: strip_all.induct)
  case (1 ps s)
  then show ?case by (cases "drop_one_of ps s") (simp_all add: strip_all.simps [of ps s])
qed

lemma strip_all_suffix: "\<exists>p. s = p @ strip_all ps s"
proof (induction ps s rule: strip_all.induct)
  case (1 ps s)
  show ?case
  proof (cases "[] \<in> set ps \<or> drop_one_of ps s = None")
    case False
    then obtain r where r: "[] \<notin> set ps" "drop_one_of ps s = Some r" by auto
    obtain p where "s = p @ r" using drop_one_of_Some [OF r(2)] by blast
    moreover obtain q where "r = q @ strip_all ps r" using 1 r by blast
    ultimately show ?thesis using strip_all_step [OF r] by (metis append.assoc)
  qed (auto simp: strip_all.simps [of ps s])
qed

lemma drop_one_of_prefix: "drop_one_of ps (s @ t) = None \<Longrightarrow> drop_one_of ps s = None"
  by (auto simp: drop_one_of_None)

lemma drop_TrimLeft: "drop_one_of go_spaces (TrimLeftSpace s) = None"
  by (simp add: TrimLeftSpace_def strip_all_stuck)

lemma TrimRight_prefix: "\<exists>t. s = TrimRightSpace s @ t"
  using strip_all_suffix [of "rev s" "map rev go_spaces"]
  by (metis TrimRightSpace_def rev_append rev_rev_ident)

lemma TrimSpace_idem [simp]: "TrimSpace (TrimSpace s) = TrimSpace s"
proof -
  have "drop_one_of go_spaces (TrimSpace s) = None"
    using TrimRight_prefix [of "TrimLeftSpace s"] drop_TrimLeft [of s]
    by (metis TrimSpace_def drop_one_of_prefix)
  then have "TrimLeftSpace (TrimSpace s) = TrimSpace s"
    by (simp add: TrimLeftSpace_def strip_all_None)
  moreover have "TrimRightSpace (TrimSpace s) = TrimSpace s"
    by (simp add: TrimSpace_def TrimRightSpace_def strip_all_None strip_all_stuck)
  ultimately show ?thesis by (simp add: TrimSpace_def)
qed

text \<open>The characters that neither begin nor end a space: the printable ASCII ones.\<close>

definition graph_char :: "char \<Rightarrow> bool" where
  "graph_char c \<longleftrightarrow> 0x21 \<le> (of_char c :: nat) \<and> (of_char c :: nat) \<le> 0x7E"

definition ascii_space :: "char \<Rightarrow> bool" where
  "ascii_space c \<longleftrightarrow> c \<in> {CHR 0x09, CHR 0x0A, CHR 0x0B, CHR 0x0C, CHR 0x0D, CHR 0x20}"

lemma drop_graph:
  assumes "graph_char c"
  shows "drop_one_of go_spaces (c # s) = None" "drop_one_of (map rev go_spaces) (c # s) = None"
proof -
  have "\<forall>x \<in> set (map hd go_spaces) \<union> set (map (hd \<circ> rev) go_spaces). x \<noteq> c"
    using assms by (auto simp: go_spaces_def graph_char_def)
  then have "\<forall>p \<in> set go_spaces. hd p \<noteq> c \<and> hd (rev p) \<noteq> c" by auto
  moreover have "\<forall>p \<in> set go_spaces. p \<noteq> []" using Nil_not_go_space(1) by metis
  ultimately show "drop_one_of go_spaces (c # s) = None" "drop_one_of (map rev go_spaces) (c # s) = None"
    by (auto simp: drop_one_of_None Cons_eq_append_conv) (metis list.sel(1))
qed

lemma drop_ascii_space:
  assumes "ascii_space c"
  shows "drop_one_of go_spaces (c # s) = Some s" "drop_one_of (map rev go_spaces) (c # s) = Some s"
  using assms unfolding ascii_space_def go_spaces_def by (elim insertE; simp)+

lemma drop_spaces_Nil [simp]:
  "drop_one_of go_spaces [] = None" "drop_one_of (map rev go_spaces) [] = None"
  by (simp_all add: go_spaces_def)

lemma strip_all_pad:
  assumes "\<forall>c \<in> set w. ascii_space c"
  shows "strip_all go_spaces (w @ s) = strip_all go_spaces s"
    and "strip_all (map rev go_spaces) (w @ s) = strip_all (map rev go_spaces) s"
  using assms by (induction w) (auto simp: drop_ascii_space strip_all_step)

lemma TrimSpace_pad [go_string]:
  assumes "\<forall>c \<in> set w. ascii_space c" "\<forall>c \<in> set v. ascii_space c"
    and "s \<noteq> [] \<Longrightarrow> graph_char (hd s) \<and> graph_char (last s)"
  shows "TrimSpace (w @ s @ v) = s"
proof (cases "s = []")
  case True
  have "strip_all go_spaces (w @ v) = []"
    using assms(1,2) strip_all_pad(1) [of "w @ v" "[]"] by (auto simp: strip_all_None)
  with True show ?thesis by (simp add: TrimSpace_def TrimLeftSpace_def TrimRightSpace_def strip_all_None)
next
  case False
  then obtain a t where a: "s = a # t" "graph_char a" using assms(3) by (cases s) auto
  obtain b u where b: "rev s = b # u" "graph_char b"
    using False assms(3) by (cases "rev s") (auto simp: last_rev hd_rev [symmetric])
  have "TrimLeftSpace (w @ s @ v) = s @ v"
    using assms(1) a by (simp add: TrimLeftSpace_def strip_all_pad strip_all_None drop_graph)
  moreover have "TrimRightSpace (s @ v) = s"
    using assms(2) b False
    by (simp add: TrimRightSpace_def strip_all_pad strip_all_None drop_graph)
  ultimately show ?thesis by (simp add: TrimSpace_def)
qed

lemma TrimSpace_graph [go_string]:
  "(s \<noteq> [] \<Longrightarrow> graph_char (hd s) \<and> graph_char (last s)) \<Longrightarrow> TrimSpace s = s"
  using TrimSpace_pad [of "[]" "[]" s] by simp

lemma TrimSpace_part: "\<exists>p q. s = p @ TrimSpace s @ q"
proof -
  obtain p where p: "s = p @ TrimLeftSpace s"
    using strip_all_suffix[of s go_spaces] by (auto simp: TrimLeftSpace_def)
  obtain q where "TrimLeftSpace s = TrimSpace s @ q"
    using TrimRight_prefix[of "TrimLeftSpace s"] by (auto simp: TrimSpace_def)
  then show ?thesis using p by metis
qed

lemma TrimSpace_full: "length s \<le> length (TrimSpace s) \<Longrightarrow> TrimSpace s = s"
proof -
  obtain p q where s: "s = p @ TrimSpace s @ q" using TrimSpace_part by blast
  assume "length s \<le> length (TrimSpace s)"
  moreover have "length s = length p + length (TrimSpace s) + length q" using s by (metis add.assoc length_append)
  ultimately have "p = []" "q = []" by auto
  then show ?thesis using s by simp
qed

section \<open>Prefixes, suffixes, searching and splitting\<close>

definition HasPrefix :: "string \<Rightarrow> string \<Rightarrow> bool" where
  "HasPrefix s p \<longleftrightarrow> take (length p) s = p"

definition HasSuffix :: "string \<Rightarrow> string \<Rightarrow> bool" where
  "HasSuffix s p \<longleftrightarrow> length p \<le> length s \<and> drop (length s - length p) s = p"

definition TrimSuffix :: "string \<Rightarrow> string \<Rightarrow> string" where
  "TrimSuffix s p = (if HasSuffix s p then take (length s - length p) s else s)"

fun Contains :: "string \<Rightarrow> string \<Rightarrow> bool" where
  "Contains [] p = (p = [])"
| "Contains (c # s) p = (HasPrefix (c # s) p \<or> Contains s p)"

text \<open>\<open>strings.TrimRight(s, " ")\<close> drops trailing blanks only.\<close>

definition TrimRightBlank :: "string \<Rightarrow> string" where
  "TrimRightBlank s = rev (dropWhile (\<lambda>c. c = CHR '' '') (rev s))"

text \<open>\<open>strings.FieldsFunc\<close> for a separator predicate on ASCII characters: the maximal runs of
  other characters.\<close>

function FieldsFunc :: "(char \<Rightarrow> bool) \<Rightarrow> string \<Rightarrow> string list" where
  "FieldsFunc p s =
     (let t = dropWhile p s
      in if t = [] then [] else takeWhile (\<lambda>c. \<not> p c) t # FieldsFunc p (dropWhile (\<lambda>c. \<not> p c) t))"
  by pat_completeness auto

lemma fields_rest_shorter:
  assumes "dropWhile p s \<noteq> []"
  shows "length (dropWhile (\<lambda>c. \<not> p c) (dropWhile p s)) < length s"
proof -
  obtain c t where t: "dropWhile p s = c # t" using assms by (cases "dropWhile p s") auto
  then have "\<not> p c" by (metis hd_dropWhile list.sel(1) list.distinct(1))
  then have "length (dropWhile (\<lambda>c. \<not> p c) (c # t)) \<le> length t"
    by (simp add: length_dropWhile_le)
  moreover have "Suc (length t) \<le> length s"
    using length_dropWhile_le [of p s] by (simp add: t)
  ultimately show ?thesis by (simp add: t)
qed

termination FieldsFunc
  by (relation "measure (\<lambda>(p, s). length s)") (simp_all add: fields_rest_shorter)

declare FieldsFunc.simps [simp del]

section \<open>Case\<close>

text \<open>ASCII letters, and the runes outside ASCII whose lower case (U+0130, U+212A) or upper
  case (U+0131, U+017F) is an ASCII letter. Every other byte is left alone: the repository
  only compares the results with ASCII words, which no other rune maps into.\<close>

definition lower_char :: "char \<Rightarrow> char" where
  "lower_char c = (let n = of_char c :: nat in if 65 \<le> n \<and> n \<le> 90 then char_of (n + 32) else c)"

definition upper_char :: "char \<Rightarrow> char" where
  "upper_char c = (let n = of_char c :: nat in if 97 \<le> n \<and> n \<le> 122 then char_of (n - 32) else c)"

fun ToLower :: "string \<Rightarrow> string" where
  "ToLower [] = []"
| "ToLower (c # s) =
     (case strip_prefix [CHR 0xC4, CHR 0xB0] (c # s) of
        Some _ \<Rightarrow> CHR ''i'' # ToLower (tl s)
      | None \<Rightarrow>
        (case strip_prefix [CHR 0xE2, CHR 0x84, CHR 0xAA] (c # s) of
           Some _ \<Rightarrow> CHR ''k'' # ToLower (tl (tl s))
         | None \<Rightarrow> lower_char c # ToLower s))"

fun ToUpper :: "string \<Rightarrow> string" where
  "ToUpper [] = []"
| "ToUpper (c # s) =
     (case strip_prefix [CHR 0xC4, CHR 0xB1] (c # s) of
        Some _ \<Rightarrow> CHR ''I'' # ToUpper (tl s)
      | None \<Rightarrow>
        (case strip_prefix [CHR 0xC5, CHR 0xBF] (c # s) of
           Some _ \<Rightarrow> CHR ''S'' # ToUpper (tl s)
         | None \<Rightarrow> upper_char c # ToUpper s))"

text \<open>\<open>strings.EqualFold(s, "On")\<close>: neither letter folds with a rune outside ASCII.\<close>

definition EqualFoldOn :: "string \<Rightarrow> bool" where
  "EqualFoldOn s \<longleftrightarrow> map lower_char s = ''on''"

lemma strip_prefix_upto:
  "c \<notin> set p \<Longrightarrow> strip_prefix p (u @ c # t) = map_option (\<lambda>r. r @ c # t) (strip_prefix p u)"
  by (induction p u rule: strip_prefix.induct) auto

lemma drop_one_of_upto:
  "\<forall>p \<in> set ps. c \<notin> set p \<Longrightarrow>
     drop_one_of ps (u @ c # t) = map_option (\<lambda>r. r @ c # t) (drop_one_of ps u)"
  by (induction ps) (auto simp: strip_prefix_upto split: option.splits)

lemma strip_all_upto:
  assumes "graph_char c"
  shows "strip_all (map rev go_spaces) (u @ c # t) = strip_all (map rev go_spaces) u @ c # t"
proof (induction "map rev go_spaces" u rule: strip_all.induct)
  case (1 u)
  have plain: "\<forall>p \<in> set (map rev go_spaces). c \<notin> set p"
    using assms by (auto simp: go_spaces_def graph_char_def)
  have ne: "[] \<notin> set (map rev go_spaces)" using Nil_not_go_space by simp
  show ?case
    using 1 ne drop_one_of_upto [OF plain, of u t]
    by (cases "drop_one_of (map rev go_spaces) u") (simp_all add: strip_all_None strip_all_step)
qed

lemma TrimSpace_graph_Cons:
  assumes "graph_char c"
  shows "TrimSpace (c # t) = c # TrimRightSpace t"
  using assms by (simp add: TrimSpace_def TrimLeftSpace_def TrimRightSpace_def strip_all_None
      drop_graph strip_all_upto [of c "rev t" "[]"])

lemma FieldsFunc_Cons:
  assumes "\<not> p c"
  shows "FieldsFunc p (c # t) = (c # takeWhile (\<lambda>c. \<not> p c) t) # FieldsFunc p (dropWhile (\<lambda>c. \<not> p c) t)"
  using assms by (simp add: FieldsFunc.simps [of p "c # t"])

end
