(* ===== verification/GoStrconv.thy ===== *)
theory GoStrconv
  imports GoStrings
begin

text \<open>
  Go's \<open>strconv\<close>: reading and printing integers and floats, and quoting. Reading a float
  accepts what \<open>strconv.ParseFloat(s, 64)\<close> accepts: decimal and hexadecimal mantissas,
  underscores between digits, exponents, and the spellings of infinity and NaN, and rounds
  the exact value once. An error of the library is None.
\<close>

section \<open>Digits\<close>

definition is_digit :: "char \<Rightarrow> bool" where
  "is_digit c \<longleftrightarrow> 48 \<le> (of_char c :: int) \<and> (of_char c :: int) \<le> 57"

definition digit_val :: "char \<Rightarrow> int" where
  "digit_val c = of_char c - 48"

definition is_hex_letter :: "char \<Rightarrow> bool" where
  "is_hex_letter c \<longleftrightarrow> (let n = of_char (lower_char c) :: nat in 97 \<le> n \<and> n \<le> 102)"

definition hex_val :: "char \<Rightarrow> int" where
  "hex_val c = (if is_digit c then digit_val c else of_char (lower_char c) - 87)"

definition digit_char :: "int \<Rightarrow> char" where
  "digit_char d = char_of (48 + d)"

text \<open>The decimal digits of a non-negative integer.\<close>

function digits_of :: "int \<Rightarrow> string" where
  "digits_of n = (if n < 10 then [digit_char n] else digits_of (n div 10) @ [digit_char (n mod 10)])"
  by pat_completeness auto
termination
  by (relation "measure nat") auto

declare digits_of.simps [simp del]

definition Itoa :: "int \<Rightarrow> string" where
  "Itoa n = (if n < 0 then CHR ''-'' # digits_of (- n) else digits_of n)"

fun digits_int :: "int \<Rightarrow> string \<Rightarrow> int option" where
  "digits_int acc [] = Some acc"
| "digits_int acc (c # s) = (if is_digit c then digits_int (10 * acc + digit_val c) s else None)"

text \<open>\<open>strconv.ParseInt(s, 10, 64)\<close> and \<open>strconv.Atoi\<close>, which agree where \<open>int\<close> has 64
  bits: an optional sign, at least one digit, and a value in range.\<close>

definition Atoi :: "string \<Rightarrow> int option" where
  "Atoi s =
     (let neg = (s \<noteq> [] \<and> hd s = CHR ''-'');
          t = (if s \<noteq> [] \<and> (hd s = CHR ''-'' \<or> hd s = CHR ''+'') then tl s else s)
      in if t = [] then None
         else case digits_int 0 t of
                None \<Rightarrow> None
              | Some n \<Rightarrow>
                  if neg then (if n \<le> 2 ^ 63 then Some (- n) else None)
                  else if n < 2 ^ 63 then Some n else None)"

lemma digits_of_ne [simp]: "digits_of n \<noteq> []"
  by (subst digits_of.simps) simp

lemma digit_char_val:
  assumes "0 \<le> d" "d < 10"
  shows "is_digit (digit_char d)" "digit_val (digit_char d) = d"
proof -
  have "d = 0 \<or> d = 1 \<or> d = 2 \<or> d = 3 \<or> d = 4 \<or> d = 5 \<or> d = 6 \<or> d = 7 \<or> d = 8 \<or> d = 9"
    using assms by presburger
  then show "is_digit (digit_char d)" "digit_val (digit_char d) = d"
    by (auto simp: is_digit_def digit_char_def digit_val_def)
qed

lemma digits_of_digits: "0 \<le> n \<Longrightarrow> \<forall>c \<in> set (digits_of n). is_digit c"
proof (induction n rule: digits_of.induct)
  case (1 n)
  then show ?case
    by (subst digits_of.simps) (auto simp: digit_char_val pos_imp_zdiv_nonneg_iff)
qed

lemma digits_int_append:
  "digits_int acc (s @ t) = (case digits_int acc s of None \<Rightarrow> None | Some a \<Rightarrow> digits_int a t)"
  by (induction acc s rule: digits_int.induct) auto

lemma digits_int_ge: "digits_int a s = Some n \<Longrightarrow> 0 \<le> a \<Longrightarrow> a \<le> n"
proof (induction a s rule: digits_int.induct)
  case (2 acc c s)
  have d: "is_digit c" using "2.prems" by (auto split: if_splits)
  then have "acc \<le> 10 * acc + digit_val c" using "2.prems" by (simp add: is_digit_def digit_val_def)
  then show ?case using "2.IH" "2.prems" d by simp
qed simp

lemma digits_int_digits_of: "0 \<le> n \<Longrightarrow> digits_int 0 (digits_of n) = Some n"
proof (induction n rule: digits_of.induct)
  case (1 n)
  show ?case
  proof (cases "n < 10")
    case True
    with 1 show ?thesis by (subst digits_of.simps) (simp add: digit_char_val)
  next
    case False
    with 1 have "digits_int 0 (digits_of (n div 10)) = Some (n div 10)"
      by (simp add: pos_imp_zdiv_nonneg_iff)
    with False show ?thesis
      by (subst digits_of.simps) (simp add: digits_int_append digit_char_val)
  qed
qed

lemma is_digit_not_sign: "is_digit c \<Longrightarrow> c \<noteq> CHR ''-'' \<and> c \<noteq> CHR ''+''"
proof -
  have "\<not> is_digit CHR ''-''" "\<not> is_digit CHR ''+''" by (simp_all add: is_digit_def)
  then show "is_digit c \<Longrightarrow> c \<noteq> CHR ''-'' \<and> c \<noteq> CHR ''+''" by blast
qed

lemma is_digit_graph: "is_digit c \<Longrightarrow> graph_char c"
proof -
  have "int (of_char c) = of_char c" by (rule of_nat_of_char)
  then show "is_digit c \<Longrightarrow> graph_char c" unfolding is_digit_def graph_char_def by linarith
qed

text \<open>Printing and reading back an integer of 64 bits is the identity.\<close>

lemma Atoi_Itoa:
  assumes "- (2 ^ 63) \<le> n" "n < 2 ^ 63"
  shows "Atoi (Itoa n) = Some n"
proof (cases "n < 0")
  case True
  with assms show ?thesis
    by (simp add: Itoa_def Atoi_def digits_int_digits_of)
next
  case False
  then have "is_digit (hd (digits_of n))"
    using digits_of_digits [of n] by (metis digits_of_ne hd_in_set linorder_not_less)
  with False assms show ?thesis
    by (simp add: Itoa_def Atoi_def digits_int_digits_of is_digit_not_sign)
qed

section \<open>Reading floats\<close>

text \<open>What \<open>readFloat\<close> has scanned of the mantissa: whether it saw the point and a digit,
  the digits so far as a number, how many of them follow the point, and what is left.\<close>

record mant =
  saw_dot :: bool
  saw_digits :: bool
  mval :: int
  frac :: int
  unread :: string

fun scan_mant :: "bool \<Rightarrow> mant \<Rightarrow> string \<Rightarrow> mant" where
  "scan_mant hex m [] = m\<lparr>unread := []\<rparr>"
| "scan_mant hex m (c # s) =
     (if c = CHR ''_'' then scan_mant hex m s
      else if c = CHR ''.'' then
        (if saw_dot m then m\<lparr>unread := c # s\<rparr> else scan_mant hex (m\<lparr>saw_dot := True\<rparr>) s)
      else if is_digit c \<or> hex \<and> is_hex_letter c then
        scan_mant hex
          (m\<lparr>saw_digits := True, mval := (if hex then 16 else 10) * mval m + hex_val c,
             frac := (if saw_dot m then frac m + 1 else frac m)\<rparr>) s
      else m\<lparr>unread := c # s\<rparr>)"

text \<open>The exponent's digits, which stop counting at 10000; what is left after them.\<close>

fun scan_exp :: "int \<Rightarrow> string \<Rightarrow> int \<times> string" where
  "scan_exp e [] = (e, [])"
| "scan_exp e (c # s) =
     (if c = CHR ''_'' then scan_exp e s
      else if is_digit c then scan_exp (if e < 10000 then 10 * e + digit_val c else e) s
      else (e, c # s))"

text \<open>\<open>underscoreOK\<close>: an underscore stands between digits, or between a base prefix and a
  digit. The state is the kind of the previous character: a digit, an underscore or other.\<close>

datatype prev = PDigit | PUnder | POther

fun underscores_ok :: "bool \<Rightarrow> prev \<Rightarrow> string \<Rightarrow> bool" where
  "underscores_ok hex p [] = (p \<noteq> PUnder)"
| "underscores_ok hex p (c # s) =
     (if is_digit c \<or> hex \<and> is_hex_letter c then underscores_ok hex PDigit s
      else if c = CHR ''_'' then p = PDigit \<and> underscores_ok hex PUnder s
      else p \<noteq> PUnder \<and> underscores_ok hex POther s)"

definition underscoreOK :: "string \<Rightarrow> bool" where
  "underscoreOK s =
     (let t = (if s \<noteq> [] \<and> (hd s = CHR ''-'' \<or> hd s = CHR ''+'') then tl s else s)
      in if length t \<ge> 2 \<and> hd t = CHR ''0'' \<and> lower_char (t ! 1) \<in> {CHR ''b'', CHR ''o'', CHR ''x''}
         then underscores_ok (lower_char (t ! 1) = CHR ''x'') PDigit (drop 2 t)
         else underscores_ok False POther t)"

text \<open>The exponent part: Some of its value where it is absent (decimal only) or complete and
  ends the string, None otherwise.\<close>

definition read_exp :: "bool \<Rightarrow> string \<Rightarrow> int option" where
  "read_exp hex s =
     (case s of
        [] \<Rightarrow> if hex then None else Some 0
      | c # t \<Rightarrow>
          if lower_char c \<noteq> (if hex then CHR ''p'' else CHR ''e'') then None
          else let neg = (t \<noteq> [] \<and> hd t = CHR ''-'');
                   u = (if t \<noteq> [] \<and> (hd t = CHR ''-'' \<or> hd t = CHR ''+'') then tl t else t)
               in if u = [] \<or> \<not> is_digit (hd u) then None
                  else let r = scan_exp 0 u
                       in if snd r \<noteq> [] then None
                          else Some (if neg then - fst r else fst r))"

text \<open>The exact value of a string without its sign: mantissa times base to the exponent.\<close>

definition read_unsigned :: "string \<Rightarrow> rat option" where
  "read_unsigned t =
     (let hex = (length t > 2 \<and> hd t = CHR ''0'' \<and> lower_char (t ! 1) = CHR ''x'');
          m = scan_mant hex \<lparr>saw_dot = False, saw_digits = False, mval = 0, frac = 0, unread = []\<rparr>
                (if hex then drop 2 t else t)
      in if \<not> saw_digits m then None
         else case read_exp hex (unread m) of
                None \<Rightarrow> None
              | Some e \<Rightarrow>
                  Some (if hex then of_int (mval m) * 2 powi (e - 4 * frac m)
                        else of_int (mval m) * 10 powi (e - frac m)))"

definition read_special :: "string \<Rightarrow> float64 option" where
  "read_special s =
     (let l = map lower_char s
      in if l = ''nan'' then Some NaN
         else if l \<in> {''inf'', ''+inf'', ''infinity'', ''+infinity''} then Some PosInf
         else if l \<in> {''-inf'', ''-infinity''} then Some NegInf
         else None)"

definition ParseFloat :: "string \<Rightarrow> float64 option" where
  "ParseFloat s =
     (case read_special s of
        Some v \<Rightarrow> Some v
      | None \<Rightarrow>
          let neg = (s \<noteq> [] \<and> hd s = CHR ''-'');
              t = (if s \<noteq> [] \<and> (hd s = CHR ''-'' \<or> hd s = CHR ''+'') then tl s else s)
          in if \<not> underscoreOK s then None
             else case read_unsigned t of
                    None \<Rightarrow> None
                  | Some x \<Rightarrow>
                      let v = f64_of_rat x
                      in if v = PosInf then None
                         else Some (if neg then - v else v))"

section \<open>Signs of what is read\<close>

lemma digits_nonneg:
  "is_digit c \<Longrightarrow> 0 \<le> digit_val c" "is_digit c \<or> is_hex_letter c \<Longrightarrow> 0 \<le> hex_val c"
proof -
  have "int (of_char (lower_char c)) = of_char (lower_char c)" by (rule of_nat_of_char)
  then have "is_hex_letter c \<Longrightarrow> (0 :: int) \<le> of_char (lower_char c) - 87"
    unfolding is_hex_letter_def Let_def by linarith
  moreover show "is_digit c \<Longrightarrow> 0 \<le> digit_val c" by (simp add: is_digit_def digit_val_def)
  ultimately show "is_digit c \<or> is_hex_letter c \<Longrightarrow> 0 \<le> hex_val c" by (auto simp: hex_val_def)
qed

lemma scan_mant_nonneg: "0 \<le> mval m \<Longrightarrow> 0 \<le> mval (scan_mant hex m s)"
  by (induction hex m s rule: scan_mant.induct) (auto simp: digits_nonneg)

lemma read_unsigned_nonneg: "read_unsigned t = Some x \<Longrightarrow> 0 \<le> x"
  by (auto simp: read_unsigned_def Let_def scan_mant_nonneg split: if_splits option.splits)

lemma lower_digit: "is_digit c \<Longrightarrow> lower_char c = c"
proof -
  have "int (of_char c) = of_char c" by (rule of_nat_of_char)
  then have "is_digit c \<Longrightarrow> (of_char c :: nat) \<le> 57" unfolding is_digit_def by linarith
  then show "is_digit c \<Longrightarrow> lower_char c = c" by (simp add: lower_char_def)
qed

lemma read_special_digit: "is_digit c \<Longrightarrow> read_special (c # s) = None \<and> read_special (CHR ''-'' # c # s) = None"
proof -
  assume d: "is_digit c"
  then have low: "lower_char c = c" by (rule lower_digit)
  have "\<not> is_digit CHR ''n''" "\<not> is_digit CHR ''i''" "\<not> is_digit CHR ''+''" "\<not> is_digit CHR ''-''"
    by (simp_all add: is_digit_def)
  with d have "c \<noteq> CHR ''n''" "c \<noteq> CHR ''i''" "c \<noteq> CHR ''+''" "c \<noteq> CHR ''-''" by blast+
  moreover have "lower_char CHR ''-'' = CHR ''-''" by code_simp
  ultimately show ?thesis by (simp add: read_special_def low)
qed

lemma ParseFloat_minus:
  assumes "is_digit c"
  shows "ParseFloat (CHR ''-'' # c # s) = map_option uminus (ParseFloat (c # s))"
  using assms by (auto simp: ParseFloat_def read_special_digit is_digit_not_sign underscoreOK_def Let_def
      split: option.splits)

lemma ParseFloat_digit:
  assumes "is_digit c" "ParseFloat (c # s) = Some v"
  shows "\<exists>r. v = Fin r \<and> 0 \<le> r"
proof -
  obtain x where x: "read_unsigned (c # s) = Some x" "v = f64_of_rat x" "v \<noteq> PosInf"
    using assms by (auto simp: ParseFloat_def read_special_digit is_digit_not_sign Let_def
        split: option.splits if_splits)
  with f64_of_rat_nonneg [OF read_unsigned_nonneg [OF x(1)]] show ?thesis by auto
qed

section \<open>Printing floats\<close>

text \<open>A natural number with at least \<open>n\<close> digits, zero padded.\<close>

definition pad_digits :: "nat \<Rightarrow> int \<Rightarrow> string" where
  "pad_digits n k = (let d = digits_of k in replicate (n - length d) CHR ''0'' @ d)"

definition float_sign :: "float64 \<Rightarrow> string" where
  "float_sign v = (if sign_bit v then ''-'' else [])"

text \<open>\<open>strconv.FormatFloat(f, 'f', 6, 64)\<close>: the exact value rounded to six decimals.\<close>

definition FormatFixed6 :: "float64 \<Rightarrow> string" where
  "FormatFixed6 v =
     (if v = NaN then ''NaN'' else if v = PosInf then ''+Inf'' else if v = NegInf then ''-Inf''
      else let n = round_even (\<bar>fval v\<bar> * 1000000)
           in float_sign v @ digits_of (n div 1000000) @ ''.'' @ pad_digits 6 (n mod 1000000))"

text \<open>The decimal exponent of a positive rational.\<close>

definition ilog10 :: "rat \<Rightarrow> int" where
  "ilog10 a =
     (if 1 \<le> a then int (length (digits_of \<lfloor>a\<rfloor>)) - 1
      else - int (length (digits_of (\<lceil>1 / a\<rceil> - 1))))"

text \<open>The fewest decimal digits, up to 17, that read back as \<open>a\<close>: the digits as a number and
  the exponent of the last one. Both neighbours on the grid of \<open>n\<close> digits are tried.\<close>

fun shortest_from :: "nat \<Rightarrow> nat \<Rightarrow> rat \<Rightarrow> int \<times> int" where
  "shortest_from 0 n a = (let e = ilog10 a - int n + 1 in (round_even (a / 10 powi e), e))"
| "shortest_from (Suc k) n a =
     (let e = ilog10 a - int n + 1; s = 10 powi e; lo = \<lfloor>a / s\<rfloor>; hi = lo + 1;
          low = (f64_of_rat (of_int lo * s) = Fin a); high = (f64_of_rat (of_int hi * s) = Fin a)
      in if low \<and> high then ((if a - of_int lo * s \<le> of_int hi * s - a then lo else hi), e)
         else if low then (lo, e)
         else if high then (hi, e)
         else shortest_from k (Suc n) a)"

fun strip_zeros :: "string \<Rightarrow> string" where
  "strip_zeros s = rev (dropWhile (\<lambda>c. c = CHR ''0'') (rev s))"

text \<open>\<open>strconv.FormatFloat(f, 'g', -1, 64)\<close>, which is also \<open>%g\<close> and \<open>%v\<close> of package fmt:
  scientific below 1e-4 and from 1e6 on.\<close>

definition FormatG :: "float64 \<Rightarrow> string" where
  "FormatG v =
     (if v = NaN then ''NaN'' else if v = PosInf then ''+Inf'' else if v = NegInf then ''-Inf''
      else if fval v = 0 then float_sign v @ ''0''
      else
        let d = shortest_from 16 1 \<bar>fval v\<bar>;
            full = digits_of (fst d);
            x = snd d + int (length full) - 1;
            ds = strip_zeros full
        in float_sign v @
           (if x < - 4 \<or> 6 \<le> x then
              take 1 ds @ (if length ds > 1 then CHR ''.'' # drop 1 ds else []) @ ''e'' @
              (if x < 0 then ''-'' else ''+'') @ pad_digits 2 \<bar>x\<bar>
            else if x < 0 then ''0.'' @ replicate (nat (- x) - 1) CHR ''0'' @ ds
            else if length ds \<le> nat x + 1 then ds @ replicate (nat x + 1 - length ds) CHR ''0''
            else take (nat x + 1) ds @ ''.'' @ drop (nat x + 1) ds))"

section \<open>Runes and quoting\<close>

definition byte_val :: "char \<Rightarrow> nat" where
  "byte_val c = of_char c"

definition in_range :: "nat \<Rightarrow> nat \<Rightarrow> char \<Rightarrow> bool" where
  "in_range lo hi c \<longleftrightarrow> lo \<le> byte_val c \<and> byte_val c \<le> hi"

text \<open>\<open>utf8.DecodeRune\<close>: the first rune of a non-empty string and its width; an invalid
  encoding is the replacement rune of width 1.\<close>

definition decode_rune :: "string \<Rightarrow> nat \<times> nat" where
  "decode_rune s =
     (case s of
        [] \<Rightarrow> (0xFFFD, 0)
      | a # t \<Rightarrow>
         if byte_val a < 128 then (byte_val a, 1)
         else if in_range 0xC2 0xDF a then
           (case t of
              b # _ \<Rightarrow> if in_range 0x80 0xBF b
                then ((byte_val a - 0xC0) * 64 + (byte_val b - 128), 2) else (0xFFFD, 1)
            | _ \<Rightarrow> (0xFFFD, 1))
         else if in_range 0xE0 0xEF a then
           (case t of
              b # c # _ \<Rightarrow>
                if in_range (if byte_val a = 0xE0 then 0xA0 else 0x80)
                     (if byte_val a = 0xED then 0x9F else 0xBF) b \<and> in_range 0x80 0xBF c
                then ((byte_val a - 0xE0) * 4096 + (byte_val b - 128) * 64 + (byte_val c - 128), 3)
                else (0xFFFD, 1)
            | _ \<Rightarrow> (0xFFFD, 1))
         else if in_range 0xF0 0xF4 a then
           (case t of
              b # c # d # _ \<Rightarrow>
                if in_range (if byte_val a = 0xF0 then 0x90 else 0x80)
                     (if byte_val a = 0xF4 then 0x8F else 0xBF) b
                   \<and> in_range 0x80 0xBF c \<and> in_range 0x80 0xBF d
                then ((byte_val a - 0xF0) * 262144 + (byte_val b - 128) * 4096
                      + (byte_val c - 128) * 64 + (byte_val d - 128), 4)
                else (0xFFFD, 1)
            | _ \<Rightarrow> (0xFFFD, 1))
         else (0xFFFD, 1))"

lemma decode_rune_width: "s \<noteq> [] \<Longrightarrow> 0 < snd (decode_rune s)"
  by (auto simp: decode_rune_def split: list.splits)

text \<open>A string taken apart into its runes: each with the bytes that encode it.\<close>

function runes :: "string \<Rightarrow> (nat \<times> string) list" where
  "runes s =
     (if s = [] then []
      else let r = decode_rune s in (fst r, take (snd r) s) # runes (drop (snd r) s))"
  by pat_completeness auto
termination
  by (relation "measure length") (auto simp: decode_rune_width)

declare runes.simps [simp del]

definition hex_digit :: "nat \<Rightarrow> char" where
  "hex_digit d = (if d < 10 then char_of (48 + d) else char_of (87 + d))"

fun hex_digits :: "nat \<Rightarrow> nat \<Rightarrow> string" where
  "hex_digits 0 n = []"
| "hex_digits (Suc k) n = hex_digits k (n div 16) @ [hex_digit (n mod 16)]"

text \<open>\<open>strconv.Quote\<close>, which is \<open>%q\<close>. Which runes outside ASCII are printable is a table of
  the \<open>unicode\<close> package, the argument \<open>pr\<close>.\<close>

definition quote_rune :: "(nat \<Rightarrow> bool) \<Rightarrow> nat \<times> string \<Rightarrow> string" where
  "quote_rune pr rb =
     (let r = fst rb; bs = snd rb
      in if r = 0xFFFD \<and> length bs = 1 then [CHR 0x5C, CHR ''x''] @ hex_digits 2 (byte_val (hd bs))
         else if r = 34 \<or> r = 92 then CHR 0x5C # bs
         else if r < 128 \<and> 32 \<le> r \<and> r \<noteq> 127 \<or> 128 \<le> r \<and> pr r then bs
         else if r = 7 then [CHR 0x5C, CHR ''a''] else if r = 8 then [CHR 0x5C, CHR ''b''] else if r = 12 then [CHR 0x5C, CHR ''f'']
         else if r = 10 then [CHR 0x5C, CHR ''n''] else if r = 13 then [CHR 0x5C, CHR ''r''] else if r = 9 then [CHR 0x5C, CHR ''t'']
         else if r = 11 then [CHR 0x5C, CHR ''v'']
         else if r < 32 \<or> r = 127 then [CHR 0x5C, CHR ''x''] @ hex_digits 2 r
         else if r < 0x10000 then [CHR 0x5C, CHR ''u''] @ hex_digits 4 r
         else [CHR 0x5C, CHR ''U''] @ hex_digits 8 r)"

definition Quote :: "(nat \<Rightarrow> bool) \<Rightarrow> string \<Rightarrow> string" where
  "Quote pr s = [CHR 0x22] @ concat (map (quote_rune pr) (runes s)) @ [CHR 0x22]"

end
