(* ===== verification/ClientFits.thy ===== *)
theory ClientFits
  imports GoStrconv
begin

unbundle bit_operations_syntax

text \<open>
  \<open>client/fits.go\<close>: the header scan, the header values, the conversion of samples to 16-bit
  pixels, and \<open>DecodeFITS\<close>. A payload is a list of bytes, the header a partial function from
  keyword to value. Slices of the payload are \<open>take\<close> and \<open>drop\<close>.
\<close>

section \<open>Frames and errors\<close>

definition fitsBlock :: nat where "fitsBlock = 2880"
definition fitsCard :: nat where "fitsCard = 80"

record Frame =
  frWidth :: int
  frHeight :: int
  frPix :: "16 word list"
  frBayer :: bool
  frBayerX :: int
  frBayerY :: int
  frBitPix :: int
  frHeader :: "string \<rightharpoonup> string"

text \<open>The errors of the FITS code; \<open>Panicked\<close> is a run-time panic.\<close>

datatype fits_error =
  NotFITS nat
| NoEnd nat
| BadNaxis int
| BadDims int int
| BadBitpix int
| ShortData nat int int int
| IncompleteFITS int int
| NotComplete
| Panicked

section \<open>The header\<close>

definition chars_of :: "byte list \<Rightarrow> string" where
  "chars_of bs = map (\<lambda>b. char_of (unat b)) bs"

text \<open>The loop of \<open>fitsCardValue\<close> inside quotes.\<close>

fun fits_quoted :: "string \<Rightarrow> string" where
  "fits_quoted [] = []"
| "fits_quoted (c # s) =
     (if c = CHR 0x27 then
        (case s of
           [] \<Rightarrow> []
         | d # r \<Rightarrow> if d = CHR 0x27 then CHR 0x27 # fits_quoted r else [])
      else c # fits_quoted s)"

definition fitsCardValue :: "string \<Rightarrow> string" where
  "fitsCardValue v0 =
     (let v = TrimSpace v0
      in if HasPrefix v [CHR 0x27] then TrimRightBlank (fits_quoted (drop 1 v))
         else TrimSpace (takeWhile (\<lambda>c. c \<noteq> CHR ''/'') v))"

text \<open>The inner loop over the cards of a block: whether END was met, and the header so far.\<close>

fun scan_cards :: "nat \<Rightarrow> byte list \<Rightarrow> (string \<rightharpoonup> string) \<Rightarrow> bool \<times> (string \<rightharpoonup> string)" where
  "scan_cards 0 bs hdr = (False, hdr)"
| "scan_cards (Suc n) bs hdr =
     (let card = take fitsCard bs;
          key = TrimSpace (chars_of (take 8 card))
      in if key = ''END'' then (True, hdr)
         else scan_cards n (drop fitsCard bs)
                (if key = [] \<or> card ! 8 \<noteq> of_char CHR ''='' then hdr
                 else hdr(key \<mapsto> fitsCardValue (chars_of (drop 9 card)))))"

function scan_blocks :: "byte list \<Rightarrow> nat \<Rightarrow> (string \<rightharpoonup> string) \<Rightarrow> fits_error + (string \<rightharpoonup> string) \<times> nat" where
  "scan_blocks raw off hdr =
     (if off + fitsBlock \<le> length raw then
        (case scan_cards (fitsBlock div fitsCard) (take fitsBlock (drop off raw)) hdr of
           (True, hdr') \<Rightarrow> Inr (hdr', off + fitsBlock)
         | (False, hdr') \<Rightarrow> scan_blocks raw (off + fitsBlock) hdr')
      else Inl (NoEnd (length raw)))"
  by pat_completeness auto
termination
  by (relation "measure (\<lambda>(raw, off, hdr). length raw - off)") (auto simp: fitsBlock_def)

declare scan_blocks.simps [simp del]

definition scanFITSHeader :: "byte list \<Rightarrow> fits_error + (string \<rightharpoonup> string) \<times> nat" where
  "scanFITSHeader raw =
     (if length raw < fitsBlock \<or> TrimSpace (chars_of (take 6 raw)) \<noteq> ''SIMPLE'' then Inl (NotFITS (length raw))
      else scan_blocks raw 0 Map.empty)"

definition hdrInt :: "(string \<rightharpoonup> string) \<Rightarrow> string \<Rightarrow> int \<Rightarrow> int" where
  "hdrInt h k d =
     (case h k of
        None \<Rightarrow> d
      | Some v \<Rightarrow> (case Atoi (TrimSpace v) of Some n \<Rightarrow> n | None \<Rightarrow> d))"

definition hdrFloat :: "(string \<rightharpoonup> string) \<Rightarrow> string \<Rightarrow> float64 \<Rightarrow> float64" where
  "hdrFloat h k d =
     (case h k of
        None \<Rightarrow> d
      | Some v \<Rightarrow> (case ParseFloat (TrimSpace v) of Some f \<Rightarrow> f | None \<Rightarrow> d))"

text \<open>\<open>fitsBottomUp\<close>: the row order and whether it was stated.\<close>

definition fitsBottomUp :: "(string \<rightharpoonup> string) \<Rightarrow> bool \<times> bool" where
  "fitsBottomUp hdr =
     (case hdr ''ROWORDER'' of
        None \<Rightarrow> (False, False)
      | Some v \<Rightarrow>
         (let u = ToUpper (TrimSpace v)
          in if u \<in> {''BOTTOM-UP'', ''BOTTOMUP'', ''BOTTOM_UP''} then (True, True)
             else if u \<in> {''TOP-DOWN'', ''TOPDOWN'', ''TOP_DOWN''} then (False, True)
             else (False, False)))"

definition bayerPhase :: "string \<Rightarrow> (int \<times> int) option" where
  "bayerPhase name =
     (if name = ''RGGB'' then Some (0, 0)
      else if name = ''BGGR'' then Some (1, 1)
      else if name = ''GRBG'' then Some (1, 0)
      else if name = ''GBRG'' then Some (0, 1)
      else None)"

definition hdr_text :: "(string \<rightharpoonup> string) \<Rightarrow> string \<Rightarrow> string" where
  "hdr_text h k = (case h k of Some v \<Rightarrow> v | None \<Rightarrow> [])"

definition fitsMosaic :: "Frame \<Rightarrow> (string \<rightharpoonup> string) \<Rightarrow> bool \<Rightarrow> Frame" where
  "fitsMosaic fr hdr flipped =
     (case bayerPhase (ToUpper (TrimSpace (hdr_text hdr ''BAYERPAT''))) of
        None \<Rightarrow> fr
      | Some (x, y) \<Rightarrow>
          (let by0 = (y + hdrInt hdr ''YBAYROFF'' 0) mod 2
           in fr\<lparr>frBayer := True,
                 frBayerX := (x + hdrInt hdr ''XBAYROFF'' 0) mod 2,
                 frBayerY := (if flipped \<and> frHeight fr mod 2 = 0 then 1 - by0 else by0)\<rparr>))"

section \<open>Samples\<close>

definition be16 :: "byte list \<Rightarrow> nat \<Rightarrow> 16 word" where
  "be16 src i = (push_bit 8 (ucast (src ! i)) OR ucast (src ! (i + 1)))"

definition be32 :: "byte list \<Rightarrow> nat \<Rightarrow> 32 word" where
  "be32 src i = (push_bit 16 (ucast (be16 src i)) OR ucast (be16 src (i + 2)))"

definition be64 :: "byte list \<Rightarrow> nat \<Rightarrow> 64 word" where
  "be64 src i = (push_bit 32 (ucast (be32 src i)) OR ucast (be32 src (i + 4)))"

text \<open>An IEEE 754 number from its sign, biased exponent and fraction, where the exponent has bias
  \<open>b\<close> and the fraction \<open>m\<close> bits.\<close>

definition ieee :: "nat \<Rightarrow> nat \<Rightarrow> int \<Rightarrow> bool \<Rightarrow> nat \<Rightarrow> nat \<Rightarrow> float64" where
  "ieee m emax b neg e f =
     (if e = emax then (if f \<noteq> 0 then NaN else if neg then NegInf else PosInf)
      else
        let x = (if e = 0 then of_nat f * 2 powi (1 - b - int m)
                 else of_nat (2 ^ m + f) * 2 powi (int e - b - int m)) :: rat
        in if x = 0 then (if neg then NegZero else Fin 0) else Fin (if neg then - x else x))"

definition Float32frombits :: "32 word \<Rightarrow> float64" where
  "Float32frombits u =
     ieee 23 255 127 (bit u 31) (unat (take_bit 8 (drop_bit 23 u))) (unat (take_bit 23 u))"

definition Float64frombits :: "64 word \<Rightarrow> float64" where
  "Float64frombits u =
     ieee 52 2047 1023 (bit u 63) (unat (take_bit 11 (drop_bit 52 u))) (unat (take_bit 52 u))"

text \<open>Go leaves the conversion of a NaN to \<open>uint16\<close> to the implementation; it is 0 on amd64 and
  arm64.\<close>

definition clampADU :: "float64 \<Rightarrow> 16 word" where
  "clampADU v =
     (if v \<le> Fin 0 then 0
      else if Fin 65535 \<le> v then 65535
      else case f64_trunc (v + Fin (1 / 2)) of Some n \<Rightarrow> of_int n | None \<Rightarrow> 0)"

definition fitsSupported :: "int \<Rightarrow> bool" where
  "fitsSupported bitpix \<longleftrightarrow> bitpix \<in> {8, 16, 32, -32, -64}"

text \<open>The value of sample i of a row as a float.\<close>

definition sample :: "int \<Rightarrow> byte list \<Rightarrow> nat \<Rightarrow> float64" where
  "sample bitpix src i =
     (if bitpix = 8 then f64_of_int (uint (src ! i))
      else if bitpix = 16 then f64_of_int (sint (be16 src (2 * i)))
      else if bitpix = 32 then f64_of_int (sint (be32 src (4 * i)))
      else if bitpix = - 32 then Float32frombits (be32 src (4 * i))
      else Float64frombits (be64 src (8 * i)))"

text \<open>\<open>convertFITSRow\<close> for a destination of n pixels. A BITPIX that is not supported leaves the
  destination as it is, which is zero.\<close>

definition fast_row :: "int \<Rightarrow> float64 \<Rightarrow> float64 \<Rightarrow> bool" where
  "fast_row bitpix bzero bscale \<longleftrightarrow> bitpix = 16 \<and> f64_eq bscale (Fin 1) \<and> f64_eq bzero (Fin 32768)"

definition convertFITSRow :: "nat \<Rightarrow> byte list \<Rightarrow> int \<Rightarrow> float64 \<Rightarrow> float64 \<Rightarrow> 16 word list" where
  "convertFITSRow n src bitpix bzero bscale =
     (if fast_row bitpix bzero bscale then map (\<lambda>i. be16 src (2 * i) XOR 0x8000) [0..<n]
      else if fitsSupported bitpix then map (\<lambda>i. clampADU (sample bitpix src i * bscale + bzero)) [0..<n]
      else replicate n 0)"

section \<open>DecodeFITS\<close>

definition DecodeFITS :: "byte list \<Rightarrow> fits_error + Frame" where
  "DecodeFITS blob =
     (case scanFITSHeader blob of
        Inl e \<Rightarrow> Inl e
      | Inr (hdr, off) \<Rightarrow>
         let naxis = hdrInt hdr ''NAXIS'' 0
         in if naxis \<noteq> 2 \<and> naxis \<noteq> 3 then Inl (BadNaxis naxis)
            else let w = hdrInt hdr ''NAXIS1'' 0; h = hdrInt hdr ''NAXIS2'' 0
            in if w \<le> 0 \<or> h \<le> 0 then Inl (BadDims w h)
            else let bitpix = hdrInt hdr ''BITPIX'' 0; per = \<bar>go_div bitpix 8\<bar>
            in if per = 0 \<or> \<not> fitsSupported bitpix then Inl (BadBitpix bitpix)
            else let data = drop off blob
            in if w > (int (length data) div per) div h then Inl (ShortData (length data) w h bitpix)
            else
              let bzero = hdrFloat hdr ''BZERO'' (Fin 0);
                  bscale0 = hdrFloat hdr ''BSCALE'' (Fin 1);
                  bscale = (if f64_eq bscale0 (Fin 0) then Fin 1 else bscale0);
                  bottomUp = fst (fitsBottomUp hdr);
                  stride = nat w * nat per;
                  row = (\<lambda>y. let src = (if bottomUp then nat h - 1 - y else y)
                             in convertFITSRow (nat w) (take stride (drop (src * stride) data)) bitpix bzero bscale);
                  fr = \<lparr>frWidth = w, frHeight = h, frPix = concat (map row [0..<nat h]), frBayer = False,
                        frBayerX = 0, frBayerY = 0, frBitPix = bitpix, frHeader = hdr\<rparr>
              in Inr (if naxis = 2 then fitsMosaic fr hdr bottomUp else fr))"

section \<open>Pixels\<close>

lemma f64_trunc_half:
  assumes "0 \<le> n" and "n < 65536"
  shows "f64_trunc (Fin (of_int n) + Fin (1 / 2)) = Some n"
proof -
  have "Fin (of_int n) + Fin (1 / 2) = Fin (of_int n + 1 / 2)"
    using f64_of_rat_half[of n] assms by (simp add: plus_float64_def)
  then show ?thesis using assms by (simp add: f64_trunc_def floor_eq_iff)
qed

lemma clampADU_int:
  assumes "\<bar>n\<bar> < 2 ^ 53"
  shows "clampADU (Fin (of_int n)) = of_int (max 0 (min n 65535))"
proof -
  have "Fin (of_int n) \<le> Fin 0 \<longleftrightarrow> n \<le> 0" "Fin 65535 \<le> Fin (of_int n) \<longleftrightarrow> 65535 \<le> n"
    by simp_all
  then show ?thesis
    using f64_trunc_half[of n] by (auto simp: clampADU_def min_def max_def)
qed

lemma sign_bit_word: "bit (0x8000 :: 16 word) n \<longleftrightarrow> n = 15"
proof -
  have m: "(0x8000 :: 16 word) = 2 ^ 15" by simp
  show ?thesis unfolding m bit_exp_iff by auto
qed

lemma xor_sign_bit: "u XOR 0x8000 = u + 0x8000" for u :: "16 word"
proof -
  have top: "v + 0x8000 = v OR 0x8000" if "\<not> bit v 15" for v :: "16 word"
  proof (rule disjunctive_add)
    fix n
    show "\<not> bit v n \<or> \<not> bit (0x8000 :: 16 word) n"
      unfolding sign_bit_word using that by blast
  qed
  show ?thesis
  proof (cases "bit u 15")
    case False
    then have "u XOR 0x8000 = u OR 0x8000"
      by (intro bit_word_eqI) (unfold bit_or_iff bit_xor_iff sign_bit_word, auto)
    then show ?thesis using top[OF False] by simp
  next
    case True
    let ?v = "u XOR 0x8000"
    have v: "\<not> bit ?v 15" using True unfolding bit_xor_iff sign_bit_word by simp
    have "?v OR 0x8000 = u"
      using True by (intro bit_word_eqI) (unfold bit_or_iff bit_xor_iff sign_bit_word, auto)
    then have "?v + 0x8000 = u" using top[OF v] by simp
    then have "u + 0x8000 = (?v + 0x8000) + 0x8000" by (rule arg_cong[where f = "\<lambda>x. x + 0x8000", symmetric])
    also have "\<dots> = ?v + (0x8000 + 0x8000)" by (rule add.assoc)
    also have "(0x8000 + 0x8000 :: 16 word) = 0" by simp
    finally show ?thesis by simp
  qed
qed

text \<open>A signed sample with the unsigned convention's offset, as the bits say.\<close>

lemma offset_sample:
  assumes "- 32768 \<le> n" and "n < 32768"
  shows "clampADU (f64_of_int n * Fin 1 + Fin 32768) = of_int (n + 32768)"
proof -
  have "f64_of_int n * Fin 1 + Fin 32768 = Fin (of_int (n + 32768))"
    using assms f64_plus_int[of n 32768] by (simp add: f64_of_int_exact f64_times_one_int)
  then show ?thesis using assms clampADU_int[of "n + 32768"] by simp
qed

lemma unsigned_sample:
  "clampADU (f64_of_int (sint u) * Fin 1 + Fin 32768) = u XOR 0x8000" for u :: "16 word"
  using offset_sample[of "sint u"] sint_ge[of u] sint_lt[of u] by (simp add: xor_sign_bit)

definition general_row :: "nat \<Rightarrow> byte list \<Rightarrow> int \<Rightarrow> float64 \<Rightarrow> float64 \<Rightarrow> 16 word list" where
  "general_row n src bitpix bzero bscale = map (\<lambda>i. clampADU (sample bitpix src i * bscale + bzero)) [0..<n]"

lemma length_convertFITSRow [simp]: "length (convertFITSRow n src bitpix bzero bscale) = n"
  by (simp add: convertFITSRow_def)

lemma convertFITSRow_general:
  assumes "fitsSupported bitpix"
  shows "convertFITSRow n src bitpix bzero bscale = general_row n src bitpix bzero bscale"
proof (cases "fast_row bitpix bzero bscale")
  case True
  then have "bitpix = 16" "bscale = Fin 1" "bzero = Fin 32768"
    by (auto simp: fast_row_def f64_eq_def split: if_splits) (cases bscale; cases bzero; auto)+
  then show ?thesis
    using True by (simp add: convertFITSRow_def general_row_def sample_def unsigned_sample)
qed (use assms in \<open>simp add: convertFITSRow_def general_row_def\<close>)

section \<open>Quoted values\<close>

text \<open>A quote inside a string value is written twice.\<close>

fun fits_double :: "string \<Rightarrow> string" where
  "fits_double [] = []"
| "fits_double (c # s) = (if c = CHR 0x27 then [CHR 0x27, CHR 0x27] else [c]) @ fits_double s"

lemma fits_quoted_double:
  assumes "rest = [] \<or> hd rest \<noteq> CHR 0x27"
  shows "fits_quoted (fits_double s @ CHR 0x27 # rest) = s"
  using assms by (induction s) (auto split: list.split)

section \<open>Rows\<close>

lemma concat_rows_length: "(\<And>y. length (f y) = w) \<Longrightarrow> length (concat (map f [0..<h])) = h * w"
  by (induction h) simp_all

lemma nth_concat_rows:
  assumes "\<And>y. length (f y) = w" and "x < w" and "y < h"
  shows "concat (map f [0..<h]) ! (y * w + x) = f y ! x"
  using assms(3)
proof (induction h)
  case (Suc h)
  have len: "length (concat (map f [0..<h])) = h * w" using assms(1) by (rule concat_rows_length)
  show ?case
  proof (cases "y < h")
    case True
    then have "y * w + x < h * w" using assms(2)
      by (metis add.commute add_less_cancel_left less_le_trans mult_Suc mult_le_mono1 Suc_leI)
    then show ?thesis using Suc.IH True len by (simp add: nth_append)
  next
    case False
    then have "y = h" using Suc.prems by simp
    then show ?thesis using len by (simp add: nth_append)
  qed
qed simp

lemma be16_take: "2 * i + 1 < n \<Longrightarrow> be16 (take n src) (2 * i) = be16 src (2 * i)"
  by (simp add: be16_def)

section \<open>Facts about DecodeFITS\<close>

text \<open>The row of the payload that row y of the frame comes from, and the scale and offset.\<close>

definition source_row :: "bool \<Rightarrow> nat \<Rightarrow> nat \<Rightarrow> nat" where
  "source_row bottomUp h y = (if bottomUp then h - 1 - y else y)"

definition fits_scale :: "(string \<rightharpoonup> string) \<Rightarrow> float64" where
  "fits_scale hdr = (let s = hdrFloat hdr ''BSCALE'' (Fin 1) in if f64_eq s (Fin 0) then Fin 1 else s)"

definition fits_per :: "(string \<rightharpoonup> string) \<Rightarrow> nat" where
  "fits_per hdr = nat \<bar>go_div (hdrInt hdr ''BITPIX'' 0) 8\<bar>"

definition fits_row :: "(string \<rightharpoonup> string) \<Rightarrow> byte list \<Rightarrow> nat \<Rightarrow> 16 word list" where
  "fits_row hdr data r =
     (let w = nat (hdrInt hdr ''NAXIS1'' 0); stride = w * fits_per hdr
      in convertFITSRow w (take stride (drop (r * stride) data)) (hdrInt hdr ''BITPIX'' 0)
           (hdrFloat hdr ''BZERO'' (Fin 0)) (fits_scale hdr))"

definition fits_shape_ok :: "(string \<rightharpoonup> string) \<Rightarrow> bool" where
  "fits_shape_ok hdr \<longleftrightarrow>
     hdrInt hdr ''NAXIS'' 0 \<in> {2, 3} \<and> hdrInt hdr ''NAXIS1'' 0 > 0 \<and> hdrInt hdr ''NAXIS2'' 0 > 0 \<and>
     fitsSupported (hdrInt hdr ''BITPIX'' 0)"

definition fits_frame :: "(string \<rightharpoonup> string) \<Rightarrow> 16 word list \<Rightarrow> Frame" where
  "fits_frame hdr pix =
     (let fr = \<lparr>frWidth = hdrInt hdr ''NAXIS1'' 0, frHeight = hdrInt hdr ''NAXIS2'' 0, frPix = pix,
                frBayer = False, frBayerX = 0, frBayerY = 0, frBitPix = hdrInt hdr ''BITPIX'' 0, frHeader = hdr\<rparr>
      in if hdrInt hdr ''NAXIS'' 0 = 2 then fitsMosaic fr hdr (fst (fitsBottomUp hdr)) else fr)"

definition fits_pix :: "(string \<rightharpoonup> string) \<Rightarrow> byte list \<Rightarrow> 16 word list" where
  "fits_pix hdr data =
     (let h = nat (hdrInt hdr ''NAXIS2'' 0)
      in concat (map (\<lambda>y. fits_row hdr data (source_row (fst (fitsBottomUp hdr)) h y)) [0..<h]))"

lemma supported_per: "fitsSupported b \<Longrightarrow> \<bar>go_div b 8\<bar> \<in> {1, 2, 4, 8}"
  by (auto simp: fitsSupported_def go_div_def)

lemma fits_per_pos: "fitsSupported (hdrInt hdr ''BITPIX'' 0) \<Longrightarrow> 0 < fits_per hdr"
  using supported_per[of "hdrInt hdr ''BITPIX'' 0"] by (auto simp: fits_per_def)

lemma le_div_int: "0 < k \<Longrightarrow> w \<le> len div k \<longleftrightarrow> w * k \<le> (len :: int)"
proof
  assume k: "0 < k"
  show "w * k \<le> len" if "w \<le> len div k"
  proof -
    have "w * k \<le> len div k * k" using that k by (simp add: mult_right_mono)
    also have "\<dots> \<le> len" using k by (metis mult_div_mod_eq mult.commute le_add_same_cancel1 pos_mod_sign)
    finally show ?thesis .
  qed
  show "w \<le> len div k" if "w * k \<le> len"
    using zdiv_mono1[OF that k] k by simp
qed

lemma division_check:
  fixes w h per len :: int
  assumes "0 < w" and "0 < h" and "0 < per"
  shows "w \<le> (len div per) div h \<longleftrightarrow> w * h * per \<le> len"
proof -
  have "(len div per) div h = len div (per * h)" using assms by (simp add: zdiv_zmult2_eq)
  moreover have "w \<le> len div (per * h) \<longleftrightarrow> w * (per * h) \<le> len"
    using assms by (simp add: le_div_int)
  ultimately show ?thesis by (simp add: ac_simps)
qed

lemma DecodeFITS_iff:
  "DecodeFITS blob = Inr fr \<longleftrightarrow>
     (\<exists>hdr off. scanFITSHeader blob = Inr (hdr, off) \<and> fits_shape_ok hdr \<and>
       hdrInt hdr ''NAXIS1'' 0 * hdrInt hdr ''NAXIS2'' 0 * int (fits_per hdr) \<le> int (length (drop off blob)) \<and>
       fr = fits_frame hdr (fits_pix hdr (drop off blob)))"
proof (cases "scanFITSHeader blob")
  case (Inr ho)
  obtain hdr off where ho: "ho = (hdr, off)" by (cases ho)
  let ?w = "hdrInt hdr ''NAXIS1'' 0" and ?h = "hdrInt hdr ''NAXIS2'' 0" and ?b = "hdrInt hdr ''BITPIX'' 0"
  let ?len = "int (length (drop off blob))"
  have per: "\<bar>go_div ?b 8\<bar> = 0 \<or> \<not> fitsSupported ?b \<longleftrightarrow> \<not> fitsSupported ?b"
    using supported_per[of ?b] by auto
  have chk: "\<not> ?w > (?len div \<bar>go_div ?b 8\<bar>) div ?h \<longleftrightarrow> ?w * ?h * int (fits_per hdr) \<le> ?len"
    if "0 < ?w" "0 < ?h" "fitsSupported ?b"
  proof -
    have p: "0 < \<bar>go_div ?b 8\<bar>" using supported_per[OF that(3)] by auto
    have "int (fits_per hdr) = \<bar>go_div ?b 8\<bar>" by (simp add: fits_per_def)
    then show ?thesis using division_check[OF that(1,2) p, of ?len] by (simp only: not_less)
  qed
  show ?thesis
  proof (cases "fits_shape_ok hdr")
    case False
    have "\<exists>e. DecodeFITS blob = Inl e"
    proof -
      consider "hdrInt hdr ''NAXIS'' 0 \<noteq> 2 \<and> hdrInt hdr ''NAXIS'' 0 \<noteq> 3"
        | "\<not> (hdrInt hdr ''NAXIS'' 0 \<noteq> 2 \<and> hdrInt hdr ''NAXIS'' 0 \<noteq> 3)" "?w \<le> 0 \<or> ?h \<le> 0"
        | "\<not> (hdrInt hdr ''NAXIS'' 0 \<noteq> 2 \<and> hdrInt hdr ''NAXIS'' 0 \<noteq> 3)" "\<not> (?w \<le> 0 \<or> ?h \<le> 0)" "\<not> fitsSupported ?b"
        using False unfolding fits_shape_ok_def by fastforce
      then show ?thesis
      proof cases
        case 1
        show ?thesis
          unfolding DecodeFITS_def Inr ho sum.case prod.case Let_def per if_P[OF 1] by blast
      next
        case 2
        show ?thesis
          unfolding DecodeFITS_def Inr ho sum.case prod.case Let_def per if_not_P[OF 2(1)] if_P[OF 2(2)] by blast
      next
        case 3
        show ?thesis
          unfolding DecodeFITS_def Inr ho sum.case prod.case Let_def per if_not_P[OF 3(1)] if_not_P[OF 3(2)]
            if_P[OF 3(3)] by blast
      qed
    qed
    then show ?thesis using False Inr ho by auto
  next
    case True
    then have ok: "\<not> (hdrInt hdr ''NAXIS'' 0 \<noteq> 2 \<and> hdrInt hdr ''NAXIS'' 0 \<noteq> 3)" "\<not> (?w \<le> 0 \<or> ?h \<le> 0)"
      "\<not> \<not> fitsSupported ?b"
      by (auto simp: fits_shape_ok_def)
    have "DecodeFITS blob =
      (if ?w > (?len div \<bar>go_div ?b 8\<bar>) div ?h then Inl (ShortData (length (drop off blob)) ?w ?h ?b)
       else Inr (fits_frame hdr (fits_pix hdr (drop off blob))))"
      unfolding DecodeFITS_def Inr ho sum.case prod.case Let_def per if_not_P[OF ok(1)] if_not_P[OF ok(2)]
        if_not_P[OF ok(3)] fits_frame_def fits_pix_def fits_row_def fits_scale_def fits_per_def source_row_def
      by (rule refl)
    then show ?thesis using True Inr ho chk ok by auto
  qed
qed (simp add: DecodeFITS_def)

section \<open>Properties\<close>

text \<open>C33: The fast path for 16-bit data with the unsigned convention's offset gives what scaling each
  sample in floating point and clamping it gives, and so does every row of a supported format.\<close>

theorem fast_path_exact:
  assumes "fitsSupported bitpix"
  shows "convertFITSRow n src bitpix bzero bscale =
    map (\<lambda>i. clampADU (sample bitpix src i * bscale + bzero)) [0..<n]"
  using convertFITSRow_general[OF assms] by (simp add: general_row_def)

theorem fast_path_exact_witness:
  "convertFITSRow 2 [0x80, 0, 0x7F, 0xFF] 16 (Fin 32768) (Fin 1) = [0, 65535] \<and>
   map (\<lambda>i. clampADU (sample 16 [0x80, 0, 0x7F, 0xFF] i * Fin 1 + Fin 32768)) [0..<2] = [0, 65535]"
proof -
  have "convertFITSRow 2 [0x80, 0, 0x7F, 0xFF] 16 (Fin 32768) (Fin 1) = [0, 65535]" by code_simp
  then show ?thesis using fast_path_exact[of 16 2 "[0x80, 0, 0x7F, 0xFF]" "Fin 32768" "Fin 1"] by (simp add: fitsSupported_def)
qed

end
