(* ===== verification/CcdFits.thy ===== *)
theory CcdFits
  imports ClientFits
begin

unbundle bit_operations_syntax

text \<open>
  \<open>encodeFITS\<close> of \<open>ccd/ccd.go\<close>, which wraps a camera's frame in a minimal FITS file, and what
  \<open>DecodeFITS\<close> makes of it.
\<close>

section \<open>The encoder\<close>

definition bytes_of :: "string \<Rightarrow> byte list" where
  "bytes_of s = map (\<lambda>c. of_nat (of_char c)) s"

definition spaces :: "nat \<Rightarrow> string" where
  "spaces n = replicate n CHR '' ''"

text \<open>The closure \<open>card\<close>, and its argument for a keyword and a value: \<open>%-8s= %20s\<close>.\<close>

definition fits_card :: "string \<Rightarrow> string" where
  "fits_card s = (let t = take 80 s in t @ spaces (80 - length t))"

definition card_text :: "string \<Rightarrow> string \<Rightarrow> string" where
  "card_text key v = key @ spaces (8 - length key) @ ''= '' @ spaces (20 - length v) @ v"

text \<open>The loops that append to a multiple of 2880.\<close>

definition fits_pad :: "byte \<Rightarrow> byte list \<Rightarrow> byte list" where
  "fits_pad b xs = xs @ replicate ((2880 - length xs mod 2880) mod 2880) b"

definition fits_header :: "int \<Rightarrow> int \<Rightarrow> int \<Rightarrow> int \<Rightarrow> byte list" where
  "fits_header w h bitpix bzero =
     fits_pad 0x20 (concat (map (bytes_of \<circ> fits_card)
       [card_text ''SIMPLE'' ''T'', card_text ''BITPIX'' (Itoa bitpix), card_text ''NAXIS'' (Itoa 2),
        card_text ''NAXIS1'' (Itoa w), card_text ''NAXIS2'' (Itoa h), card_text ''BZERO'' (Itoa bzero),
        card_text ''BSCALE'' (Itoa 1), ''END'']))"

text \<open>A little-endian sample, biased and written big-endian.\<close>

definition le16 :: "byte list \<Rightarrow> nat \<Rightarrow> 16 word" where
  "le16 src i = push_bit 8 (ucast (src ! (i + 1))) OR ucast (src ! i)"

definition put_be16 :: "16 word \<Rightarrow> byte list" where
  "put_be16 u = [ucast (drop_bit 8 u), ucast u]"

definition fits_sample :: "byte list \<Rightarrow> nat \<Rightarrow> byte list" where
  "fits_sample pixels i =
     (if i * 2 + 1 < length pixels then put_be16 (of_int (uint (le16 pixels (i * 2)) - 32768)) else [0, 0])"

text \<open>None is the panic of \<open>make\<close> on a negative or excessive size.\<close>

definition encodeFITS :: "int \<Rightarrow> int \<Rightarrow> int \<Rightarrow> byte list \<Rightarrow> byte list option" where
  "encodeFITS w h bits pixels =
     (let bitpix = (if bits \<le> 8 then 8 else 16);
          bzero = (if bits \<le> 8 then 0 else 32768);
          hdr = fits_header w h bitpix bzero;
          n = wrap64 (w * h)
      in if bitpix = 8 then
           (if can_make n 1
            then Some (hdr @ fits_pad 0 (take (nat n) (pixels @ replicate (nat n - length pixels) 0))) else None)
         else
           (if can_make (wrap64 (n * 2)) 1
            then Some (hdr @ fits_pad 0 (concat (map (fits_sample pixels) [0..<nat n]) @
                                         replicate (nat (wrap64 (n * 2)) - 2 * nat n) 0)) else None))"


section \<open>Cards\<close>

lemma length_bytes_of [simp]: "length (bytes_of s) = length s"
  by (simp add: bytes_of_def)

lemma bytes_of_append: "bytes_of (s @ t) = bytes_of s @ bytes_of t"
  by (simp add: bytes_of_def)

lemma chars_bytes [simp]: "chars_of (bytes_of s) = s"
proof -
  have "char_of (unat (of_nat (of_char c) :: byte)) = c" for c
  proof -
    have "unat (of_nat (of_char c) :: byte) = of_char c" by (simp add: unat_of_nat)
    then show ?thesis by simp
  qed
  then show ?thesis by (simp add: chars_of_def bytes_of_def comp_def)
qed

lemma chars_of_take: "chars_of (take n bs) = take n (chars_of bs)"
  and chars_of_drop: "chars_of (drop n bs) = drop n (chars_of bs)"
  by (simp_all add: chars_of_def take_map drop_map)

lemma length_spaces [simp]: "length (spaces n) = n"
  by (simp add: spaces_def)

lemma spaces_spaces: "c \<in> set (spaces n) \<Longrightarrow> ascii_space c"
  by (simp add: spaces_def ascii_space_def)

lemma length_fits_card [simp]: "length (fits_card s) = 80"
  by (simp add: fits_card_def Let_def)

text \<open>A value that survives: printable, not quoted, without a slash.\<close>

definition card_value_ok :: "string \<Rightarrow> bool" where
  "card_value_ok v \<longleftrightarrow> v \<noteq> [] \<and> length v \<le> 60 \<and> (\<forall>c\<in>set v. graph_char c \<and> c \<noteq> CHR ''/'' \<and> c \<noteq> CHR 0x27)"

definition card_key_ok :: "string \<Rightarrow> bool" where
  "card_key_ok k \<longleftrightarrow> k \<noteq> [] \<and> length k \<le> 8 \<and> k \<noteq> ''END'' \<and> (\<forall>c\<in>set k. graph_char c)"

lemma TrimSpace_padded:
  assumes "\<forall>c\<in>set s. graph_char c"
  shows "TrimSpace (spaces m @ s @ spaces n) = s"
  by (rule TrimSpace_pad) (use assms in \<open>auto dest: spaces_spaces\<close>)

lemma fitsCardValue_padded:
  assumes "card_value_ok v"
  shows "fitsCardValue (spaces m @ v @ spaces n) = v"
proof -
  have g: "\<forall>c\<in>set v. graph_char c" using assms by (simp add: card_value_ok_def)
  have q: "\<not> HasPrefix v [CHR 0x27]"
    using assms by (cases v) (auto simp: card_value_ok_def HasPrefix_def)
  have tw: "takeWhile (\<lambda>c. c \<noteq> CHR ''/'') v = v"
    by (rule takeWhile_eq_all_conv[THEN iffD2]) (use assms in \<open>simp add: card_value_ok_def\<close>)
  have tv: "TrimSpace v = v" using TrimSpace_padded[OF g, of 0 0] by (simp add: spaces_def)
  show ?thesis
    unfolding fitsCardValue_def TrimSpace_padded[OF g] Let_def if_not_P[OF q] tw tv by (rule refl)
qed

lemma fits_card_value:
  assumes "card_key_ok k" and "card_value_ok v"
  shows "fits_card (card_text k v) =
    (k @ spaces (8 - length k)) @ ''= '' @ (spaces (20 - length v) @ v @ spaces (70 - max 20 (length v)))"
proof -
  let ?t = "card_text k v"
  have l: "length ?t = 10 + max 20 (length v)"
    using assms by (auto simp: card_text_def card_key_ok_def card_value_ok_def)
  then have "take 80 ?t = ?t" using assms(2) by (simp add: card_value_ok_def)
  then have "fits_card ?t = ?t @ spaces (80 - length ?t)" by (simp add: fits_card_def Let_def)
  also have "80 - length ?t = 70 - max 20 (length v)" by (simp add: l)
  finally show ?thesis by (simp add: card_text_def)
qed

lemma scan_cards_value:
  assumes k: "card_key_ok k" and v: "card_value_ok v"
  shows "scan_cards (Suc n) (bytes_of (fits_card (card_text k v)) @ rest) hdr = scan_cards n rest (hdr(k \<mapsto> v))"
proof -
  let ?c = "fits_card (card_text k v)"
  let ?key = "k @ spaces (8 - length k)"
  let ?val = "spaces (20 - length v) @ v @ spaces (70 - max 20 (length v))"
  have c: "?c = ?key @ ''= '' @ ?val" by (rule fits_card_value[OF assms])
  have len: "length ?key = 8" using k by (simp add: card_key_ok_def)
  have t: "take fitsCard (bytes_of ?c @ rest) = bytes_of ?c" "drop fitsCard (bytes_of ?c @ rest) = rest"
    by (simp_all add: fitsCard_def)
  have key: "TrimSpace (chars_of (take 8 (bytes_of ?c))) = k"
  proof -
    have "take 8 ?c = ?key" unfolding c using len by simp
    then show ?thesis using TrimSpace_padded[of k 0] k by (simp add: chars_of_take card_key_ok_def spaces_def)
  qed
  have "?c ! 8 = CHR ''=''"
    unfolding c using nth_append_length[of ?key "CHR ''=''" "CHR '' '' # ?val"] by (simp only: len append_Cons append_Nil)
  then have eq: "bytes_of ?c ! 8 = of_char CHR ''=''" by (simp add: bytes_of_def)
  have "drop 9 ?c = spaces 1 @ ?val" unfolding c using len by (simp add: spaces_def)
  also have "\<dots> = spaces (Suc (20 - length v)) @ v @ spaces (70 - max 20 (length v))"
    by (simp add: spaces_def)
  finally have val: "fitsCardValue (chars_of (drop 9 (bytes_of ?c))) = v"
    using fitsCardValue_padded[OF v] by (simp add: chars_of_drop)
  have ne: "k \<noteq> ''END''" "k \<noteq> []" using k by (simp_all add: card_key_ok_def)
  show ?thesis unfolding scan_cards.simps t Let_def key val eq using ne by simp
qed

lemma scan_cards_end:
  "scan_cards (Suc n) (bytes_of (fits_card ''END'') @ rest) hdr = (True, hdr)"
proof -
  have t: "take fitsCard (bytes_of (fits_card ''END'') @ rest) = bytes_of (fits_card ''END'')"
    by (simp add: fitsCard_def)
  have "take 8 (fits_card ''END'') = ''END'' @ spaces 5" by code_simp
  moreover have "TrimSpace (''END'' @ spaces 5) = ''END''"
    using TrimSpace_padded[of "''END''" 0 5] by (simp add: spaces_def graph_char_def)
  ultimately have "TrimSpace (chars_of (take 8 (bytes_of (fits_card ''END'')))) = ''END''"
    by (simp add: chars_of_take)
  then show ?thesis by (simp only: scan_cards.simps t Let_def) simp
qed

lemma length_digits_of: "n < 10 ^ k \<Longrightarrow> 0 < k \<Longrightarrow> length (digits_of n) \<le> k"
proof (induction n arbitrary: k rule: digits_of.induct)
  case (1 n)
  show ?case
  proof (cases "n < 10")
    case True
    then show ?thesis using "1.prems" by (subst digits_of.simps) simp
  next
    case False
    then obtain j where j: "k = Suc j" "0 < j" using "1.prems"
      by (cases k; cases "k - 1") auto
    have "n div 10 < 10 ^ j" using "1.prems"(1) unfolding j(1) by simp
    then show ?thesis using "1.IH"[OF False, of j] j False by (subst digits_of.simps) simp
  qed
qed

lemma Itoa_value_ok:
  assumes "0 \<le> n" and "n < 2 ^ 63"
  shows "card_value_ok (Itoa n)"
proof -
  have i: "Itoa n = digits_of n" using assms by (simp add: Itoa_def)
  have s: "\<not> is_digit CHR ''/''" "\<not> is_digit CHR 0x27" by (simp_all add: is_digit_def)
  have "length (digits_of n) \<le> 20" using assms by (intro length_digits_of) auto
  then show ?thesis
    using digits_of_digits[OF assms(1)] s by (auto simp: i card_value_ok_def is_digit_graph)
qed

section \<open>The header read back\<close>

definition encoded_header :: "int \<Rightarrow> int \<Rightarrow> int \<Rightarrow> int \<Rightarrow> string \<rightharpoonup> string" where
  "encoded_header w h bitpix bzero =
     [''SIMPLE'' \<mapsto> ''T'', ''BITPIX'' \<mapsto> Itoa bitpix, ''NAXIS'' \<mapsto> Itoa 2, ''NAXIS1'' \<mapsto> Itoa w, ''NAXIS2'' \<mapsto> Itoa h,
      ''BZERO'' \<mapsto> Itoa bzero, ''BSCALE'' \<mapsto> Itoa 1]"

lemma scan_fits_header:
  assumes "0 \<le> w" "w < 2 ^ 63" "0 \<le> h" "h < 2 ^ 63" "0 \<le> bitpix" "bitpix < 2 ^ 63" "0 \<le> bzero" "bzero < 2 ^ 63"
  shows "scanFITSHeader (fits_header w h bitpix bzero @ data) = Inr (encoded_header w h bitpix bzero, 2880)"
    and "length (fits_header w h bitpix bzero) = 2880"
proof -
  let ?cards = "[card_text ''SIMPLE'' ''T'', card_text ''BITPIX'' (Itoa bitpix), card_text ''NAXIS'' (Itoa 2),
        card_text ''NAXIS1'' (Itoa w), card_text ''NAXIS2'' (Itoa h), card_text ''BZERO'' (Itoa bzero),
        card_text ''BSCALE'' (Itoa 1), ''END'']"
  let ?H = "fits_header w h bitpix bzero"
  have H: "?H = concat (map (bytes_of \<circ> fits_card) ?cards) @ replicate 2240 0x20"
    by (simp add: fits_header_def fits_pad_def)
  show len: "length ?H = 2880" unfolding H by simp
  have keys: "card_key_ok ''SIMPLE''" "card_key_ok ''BITPIX''" "card_key_ok ''NAXIS''" "card_key_ok ''NAXIS1''"
    "card_key_ok ''NAXIS2''" "card_key_ok ''BZERO''" "card_key_ok ''BSCALE''" by code_simp+
  have T: "card_value_ok ''T''" by code_simp
  note vals = Itoa_value_ok
  have small: "card_value_ok (Itoa 1)" "card_value_ok (Itoa 2)" using vals[of 1] vals[of 2] by simp_all
  have n: "fitsBlock div fitsCard = Suc (Suc (Suc (Suc (Suc (Suc (Suc (Suc 28)))))))"
    by (simp add: fitsBlock_def fitsCard_def)
  have blk: "take fitsBlock (drop 0 (?H @ data)) = ?H" using len by (simp add: fitsBlock_def)
  have cards: "scan_cards (fitsBlock div fitsCard) ?H Map.empty = (True, encoded_header w h bitpix bzero)"
    unfolding H n encoded_header_def
    by (simp only: list.map concat.simps comp_apply append_assoc append_Nil scan_cards_value scan_cards_end keys T
        small vals[OF assms(1,2)] vals[OF assms(3,4)] vals[OF assms(5,6)] vals[OF assms(7,8)])
  have magic: "TrimSpace (chars_of (take 6 (?H @ data))) = ''SIMPLE''"
  proof -
    have "take 6 (?H @ data) = take 6 (bytes_of (fits_card (card_text ''SIMPLE'' ''T'')))"
      unfolding H by simp
    moreover have "take 6 (fits_card (card_text ''SIMPLE'' ''T'')) = ''SIMPLE''" by code_simp
    ultimately show ?thesis
      using TrimSpace_padded[of "''SIMPLE''" 0 0] by (simp add: chars_of_take spaces_def graph_char_def)
  qed
  have "scan_blocks (?H @ data) 0 Map.empty = Inr (encoded_header w h bitpix bzero, 2880)"
    unfolding scan_blocks.simps[of "?H @ data" 0 Map.empty] blk cards using len by (simp add: fitsBlock_def)
  then show "scanFITSHeader (?H @ data) = Inr (encoded_header w h bitpix bzero, 2880)"
    unfolding scanFITSHeader_def using magic len by (simp add: fitsBlock_def)
qed

lemma encoded_ints:
  assumes "0 \<le> n" "n < 2 ^ 63"
  shows "Atoi (TrimSpace (Itoa n)) = Some n"
proof -
  have "\<forall>c\<in>set (Itoa n). graph_char c" using Itoa_value_ok[OF assms] by (simp add: card_value_ok_def)
  then have "TrimSpace (Itoa n) = Itoa n" using TrimSpace_padded[of "Itoa n" 0 0] by (simp add: spaces_def)
  then show ?thesis using Atoi_Itoa[of n] assms by simp
qed

lemma encoded_fields:
  assumes "0 \<le> w" "w < 2 ^ 63" "0 \<le> h" "h < 2 ^ 63" "0 \<le> bitpix" "bitpix < 2 ^ 63"
  shows "hdrInt (encoded_header w h bitpix bzero) ''NAXIS'' 0 = 2"
    "hdrInt (encoded_header w h bitpix bzero) ''NAXIS1'' 0 = w"
    "hdrInt (encoded_header w h bitpix bzero) ''NAXIS2'' 0 = h"
    "hdrInt (encoded_header w h bitpix bzero) ''BITPIX'' 0 = bitpix"
    "fst (fitsBottomUp (encoded_header w h bitpix bzero)) = False"
    "hdr_text (encoded_header w h bitpix bzero) ''BAYERPAT'' = []"
    "fits_scale (encoded_header w h bitpix bzero) = Fin 1"
proof -
  have "hdrFloat (encoded_header w h bitpix bzero) ''BSCALE'' (Fin 1) = Fin 1"
  proof -
    have "ParseFloat (TrimSpace (Itoa 1)) = Some (Fin 1)" by code_simp
    then show ?thesis by (simp add: hdrFloat_def encoded_header_def)
  qed
  then show "fits_scale (encoded_header w h bitpix bzero) = Fin 1"
    by (simp add: fits_scale_def f64_eq_def)
qed (use assms encoded_ints in \<open>simp_all add: hdrInt_def encoded_header_def fitsBottomUp_def hdr_text_def\<close>)

lemma encoded_bzero:
  "hdrFloat (encoded_header w h 8 0) ''BZERO'' (Fin 0) = Fin 0"
  "hdrFloat (encoded_header w h 16 32768) ''BZERO'' (Fin 0) = Fin 32768"
proof -
  have "ParseFloat (TrimSpace (Itoa 0)) = Some (Fin 0)" "ParseFloat (TrimSpace (Itoa 32768)) = Some (Fin 32768)"
    by code_simp+
  then show "hdrFloat (encoded_header w h 8 0) ''BZERO'' (Fin 0) = Fin 0"
    "hdrFloat (encoded_header w h 16 32768) ''BZERO'' (Fin 0) = Fin 32768"
    by (simp_all add: hdrFloat_def encoded_header_def)
qed

section \<open>The samples read back\<close>

text \<open>The pixel a frame has after the round trip: the sample given, or what zero stands for where the
  camera gave too few bytes.\<close>

definition frame_pixel :: "int \<Rightarrow> byte list \<Rightarrow> nat \<Rightarrow> 16 word" where
  "frame_pixel bits pixels i =
     (if bits \<le> 8 then (if i < length pixels then ucast (pixels ! i) else 0)
      else if i * 2 + 1 < length pixels then le16 pixels (i * 2) else 0x8000)"

lemma rows_of_map:
  "concat (map (\<lambda>y. map (\<lambda>x. g (y * w + x)) [0..<w]) [0..<h]) = map g [0..<h * w]"
proof (induction h)
  case (Suc h)
  have "map (\<lambda>x. g (h * w + x)) [0..<w] = map g [h * w..<h * w + w]"
    by (simp add: map_add_upt[symmetric] comp_def add.commute)
  moreover have "[0..<Suc h * w] = [0..<h * w] @ [h * w..<h * w + w]"
    using upt_add_eq_append[of 0 "h * w" w] by (simp add: add.commute)
  ultimately show ?case using Suc.IH by simp
qed simp

lemma small_sample:
  assumes "0 \<le> n" and "n < 256"
  shows "clampADU (f64_of_int n * Fin 1 + Fin 0) = of_int n"
proof -
  have "f64_of_int n * Fin 1 + Fin 0 = Fin (of_int (n + 0))"
    using assms f64_plus_int[of n 0] by (simp add: f64_of_int_exact f64_times_one_int)
  then show ?thesis using assms clampADU_int[of n] by simp
qed

lemma byte_sample: "clampADU (f64_of_int (uint b) * Fin 1 + Fin 0) = ucast b" for b :: byte
proof -
  have "clampADU (f64_of_int (uint b) * Fin 1 + Fin 0) = of_int (uint b)"
    using uint_bounded[of b] by (intro small_sample) auto
  then show ?thesis by (simp only: ucast_eq)
qed

lemma be16_put: "be16 (put_be16 u) 0 = u"
  unfolding be16_def put_be16_def
  by (rule bit_word_eqI) (auto simp: bit_simps)

lemma be16_sample:
  assumes "i < n"
  shows "be16 (concat (map (fits_sample pixels) [0..<n]) @ rest) (2 * i) XOR 0x8000 =
    (if i * 2 + 1 < length pixels then le16 pixels (i * 2) else 0x8000)"
proof -
  let ?s = "concat (map (fits_sample pixels) [0..<n])"
  have l2: "length (fits_sample pixels y) = 2" for y by (simp add: fits_sample_def put_be16_def)
  have len: "length ?s = n * 2" by (rule concat_rows_length) (rule l2)
  have "?s ! (i * 2 + x) = fits_sample pixels i ! x" if "x < 2" for x
    using nth_concat_rows[OF l2 that assms] .
  from this[of 0] this[of 1] have "?s ! (2 * i) = fits_sample pixels i ! 0" "?s ! (2 * i + 1) = fits_sample pixels i ! 1"
    by (simp_all add: mult.commute)
  then have e: "be16 (?s @ rest) (2 * i) = be16 (fits_sample pixels i) 0"
    using assms len by (simp add: be16_def nth_append)
  show ?thesis
  proof (cases "i * 2 + 1 < length pixels")
    case True
    have "of_int (uint u - 32768) XOR 0x8000 = u" for u :: "16 word"
    proof -
      have "of_int (uint u - 32768) XOR 0x8000 = of_int (uint u - 32768) + (0x8000 :: 16 word)"
        by (rule xor_sign_bit)
      also have "\<dots> = u" by simp
      finally show ?thesis .
    qed
    then show ?thesis unfolding e fits_sample_def if_P[OF True] be16_put .
  next
    case False
    then show ?thesis unfolding e fits_sample_def if_not_P[OF False] by (simp add: be16_def)
  qed
qed

lemma encode_parts:
  assumes "0 < w" "0 < h" "w * h \<le> 2 ^ 40"
  defines "n \<equiv> nat (w * h)"
  shows "bits \<le> 8 \<Longrightarrow> \<exists>rest. encodeFITS w h bits pixels =
      Some (fits_header w h 8 0 @ (take n (pixels @ replicate (n - length pixels) 0) @ rest))"
    and "\<not> bits \<le> 8 \<Longrightarrow> \<exists>rest. encodeFITS w h bits pixels =
      Some (fits_header w h 16 32768 @ (concat (map (fits_sample pixels) [0..<n]) @ rest))"
proof -
  have wh: "0 \<le> w * h" using assms by simp
  have a: "wrap64 (w * h) = w * h" using wh assms(3) by (intro wrap64_small) auto
  have "wrap64 (m * 2) = m * 2" if "0 \<le> m" "m \<le> 2 ^ 40" for m using that by simp
  then have b: "wrap64 (w * h * 2) = w * h * 2" using wh assms(3) by blast
  have "can_make m 1 \<and> can_make (m * 2) 1" if "0 \<le> m" "m \<le> 2 ^ 40" for m
    using that by (simp add: can_make_def make_limit_def)
  then have c: "can_make (w * h) 1" "can_make (w * h * 2) 1" using wh assms(3) by blast+
  show "\<exists>rest. encodeFITS w h bits pixels =
      Some (fits_header w h 8 0 @ (take n (pixels @ replicate (n - length pixels) 0) @ rest))" if "bits \<le> 8"
    using that c by (auto simp: encodeFITS_def Let_def a n_def fits_pad_def)
  show "\<exists>rest. encodeFITS w h bits pixels =
      Some (fits_header w h 16 32768 @ (concat (map (fits_sample pixels) [0..<n]) @ rest))" if "\<not> bits \<le> 8"
    using that c by (auto simp: encodeFITS_def Let_def a b n_def fits_pad_def)
qed

lemma nth_pad: "i < n \<Longrightarrow> take n (xs @ replicate (n - length xs) z) ! i = (if i < length xs then xs ! i else z)"
  by (auto simp: nth_append)

lemma be16_drop: "k + 1 < length xs \<Longrightarrow> be16 (drop k xs) 0 = be16 xs k"
  by (simp add: be16_def)

lemma decode_rows:
  assumes small: "0 < w" "0 < h" "w * h \<le> 2 ^ 40" and bitpix: "bitpix = 8 \<or> bitpix = 16"
    and bz: "hdrFloat (encoded_header w h bitpix bzero) ''BZERO'' (Fin 0) = z" "0 \<le> bzero" "bzero < 2 ^ 63"
    and data: "\<And>i. i < nat (w * h) \<Longrightarrow> convertFITSRow 1 (drop (i * nat (bitpix div 8)) data) bitpix z (Fin 1) = [g i]"
    and len: "nat (w * h) * nat (bitpix div 8) \<le> length data"
  shows "DecodeFITS (fits_header w h bitpix bzero @ data) =
    Inr (\<lparr>frWidth = w, frHeight = h, frPix = map g [0..<nat (w * h)], frBayer = False, frBayerX = 0, frBayerY = 0,
          frBitPix = bitpix, frHeader = encoded_header w h bitpix bzero\<rparr>)"
proof -
  define k where "k = nat (bitpix div 8)"
  have wh: "w \<le> w * h" "h \<le> w * h" using small by simp_all
  have b63: "0 \<le> w" "w < 2 ^ 63" "0 \<le> h" "h < 2 ^ 63" "0 \<le> bitpix" "bitpix < 2 ^ 63"
  proof -
    have "w \<le> 2 ^ 40" "h \<le> 2 ^ 40" using wh small(3) by linarith+
    then show "0 \<le> w" "w < 2 ^ 63" "0 \<le> h" "h < 2 ^ 63" "0 \<le> bitpix" "bitpix < 2 ^ 63"
      using small(1,2) bitpix by auto
  qed
  note f = encoded_fields[OF b63, of bzero]
  let ?hdr = "encoded_header w h bitpix bzero"
  have scan: "scanFITSHeader (fits_header w h bitpix bzero @ data) = Inr (?hdr, 2880)"
    and hlen: "length (fits_header w h bitpix bzero) = 2880"
    using scan_fits_header(1)[of w h bitpix bzero data] scan_fits_header(2)[of w h bitpix bzero] b63 bz(2,3) by auto
  have drop: "drop 2880 (fits_header w h bitpix bzero @ data) = data" using hlen by simp
  have per: "fits_per ?hdr = k" using bitpix f(4) by (auto simp: fits_per_def k_def)
  have shape: "fits_shape_ok ?hdr" using small bitpix f(1-4) by (auto simp: fits_shape_ok_def fitsSupported_def)
  have n: "nat (w * h) = nat h * nat w" using small by (simp add: nat_mult_distrib)
  have row: "fits_row ?hdr data y = map (\<lambda>x. g (y * nat w + x)) [0..<nat w]" if "y < nat h" for y
  proof -
    have conv: "convertFITSRow m src bitpix z (Fin 1) ! x = convertFITSRow 1 (drop (x * k) src) bitpix z (Fin 1) ! 0"
      if "x < m" "(x + 1) * k \<le> length src" for m x src
      using that bitpix by (auto simp: convertFITSRow_def fitsSupported_def sample_def be16_def fast_row_def k_def mult.commute)
    have "fits_row ?hdr data y ! x = g (y * nat w + x)" if x: "x < nat w" for x
    proof -
      let ?src = "take (nat w * k) (drop (y * (nat w * k)) data)"
      have i: "y * nat w + x < nat (w * h)"
      proof -
        have "Suc y * nat w \<le> nat h * nat w" using \<open>y < nat h\<close> by (intro mult_le_mono1) simp
        then show ?thesis using x unfolding n by simp
      qed
      have "(y * nat w + x + 1) * k \<le> nat (w * h) * k" using i by (intro mult_le_mono1) simp
      then have fit: "(y * nat w + x + 1) * k \<le> length data" using len by (simp add: k_def)
      have x1: "(x + 1) * k \<le> nat w * k" using x by (intro mult_le_mono1) simp
      have s: "(x + 1) * k \<le> length ?src" using fit x1 by (simp add: algebra_simps)
      have "fits_row ?hdr data y ! x = convertFITSRow (nat w) ?src bitpix z (Fin 1) ! x"
        unfolding fits_row_def f per bz(1) Let_def by (rule refl)
      also have "\<dots> = convertFITSRow 1 (drop (x * k) ?src) bitpix z (Fin 1) ! 0" using conv[OF x s] .
      also have "\<dots> = convertFITSRow 1 (drop ((y * nat w + x) * k) data) bitpix z (Fin 1) ! 0"
      proof -
        have "convertFITSRow 1 (take m a) bitpix z (Fin 1) = convertFITSRow 1 a bitpix z (Fin 1)" if "k \<le> m" for m a
          using that bitpix by (auto simp: convertFITSRow_def fitsSupported_def sample_def be16_def fast_row_def k_def)
        moreover have "drop (x * k) ?src = take (nat w * k - x * k) (drop ((y * nat w + x) * k) data)"
          by (simp add: drop_take algebra_simps)
        moreover have "k \<le> nat w * k - x * k" using x1 by simp
        ultimately show ?thesis by simp
      qed
      also have "\<dots> = g (y * nat w + x)" using data[OF i] by (simp add: k_def)
      finally show ?thesis .
    qed
    moreover have "length (fits_row ?hdr data y) = nat w" by (simp add: fits_row_def f Let_def)
    ultimately show ?thesis by (intro nth_equalityI) auto
  qed
  have pix: "fits_pix ?hdr data = map g [0..<nat (w * h)]"
  proof -
    have "map (\<lambda>y. fits_row ?hdr data (source_row False (nat h) y)) [0..<nat h] =
        map (\<lambda>y. map (\<lambda>x. g (y * nat w + x)) [0..<nat w]) [0..<nat h]"
      by (rule map_cong) (auto simp: source_row_def row)
    then show ?thesis unfolding fits_pix_def f Let_def n rows_of_map[symmetric] by (rule arg_cong)
  qed
  have "w * h * int (fits_per ?hdr) \<le> int (length data)"
  proof -
    have "int (nat (w * h) * k) \<le> int (length data)" using len unfolding k_def by (rule zle_int[THEN iffD2])
    then show ?thesis unfolding per using small by simp
  qed
  then have "DecodeFITS (fits_header w h bitpix bzero @ data) = Inr (fits_frame ?hdr (fits_pix ?hdr data))"
    unfolding DecodeFITS_iff using scan shape by (auto simp: f drop hlen)
  moreover have "bayerPhase (ToUpper (TrimSpace [])) = None" by code_simp
  ultimately show ?thesis unfolding pix by (simp add: fits_frame_def f fitsMosaic_def)
qed

lemma length_fits_pad: "length (fits_pad b xs) \<le> length xs + 2880"
proof -
  have "(2880 - length xs mod 2880) mod 2880 \<le> 2880 - length xs mod 2880" by (rule mod_less_eq_dividend)
  then show ?thesis by (simp add: fits_pad_def)
qed

lemma encode_length:
  assumes "0 < w" "0 < h" "w * h \<le> 2 ^ 40" and e: "encodeFITS w h bits pixels = Some blob"
  shows "length blob \<le> 2 ^ 46"
proof -
  have wh: "w \<le> w * h" "h \<le> w * h" "0 \<le> w * h" using assms by simp_all
  then have w40: "w \<le> 2 ^ 40" "h \<le> 2 ^ 40" using assms(3) by linarith+
  then have b63: "w < 2 ^ 63" "h < 2 ^ 63" by simp_all
  have hl: "length (fits_header w h b z) = 2880" if "b \<in> {8, 16}" "z \<in> {0, 32768}" for b z
    using scan_fits_header(2)[of w h b z] assms(1,2) b63 that by auto
  let ?n = "nat (w * h)"
  have a: "wrap64 (w * h) = w * h" using wh assms(3) by (intro wrap64_small) auto
  have "wrap64 (m * 2) = m * 2" if "0 \<le> m" "m \<le> 2 ^ 40" for m using that by simp
  then have b: "wrap64 (w * h * 2) = w * h * 2" using wh assms(3) by blast
  have l2: "length (fits_sample pixels y) = 2" for y by (simp add: fits_sample_def put_be16_def)
  have s: "length (concat (map (fits_sample pixels) [0..<?n])) = ?n * 2" by (rule concat_rows_length) (rule l2)
  have n: "?n \<le> 2 ^ 40" using assms(3) by simp
  have p1: "length (fits_pad 0 (take ?n (pixels @ replicate (?n - length pixels) 0))) \<le> ?n + 2880"
    by (rule order.trans[OF length_fits_pad]) simp
  have p2: "length (fits_pad 0 (concat (map (fits_sample pixels) [0..<?n]))) \<le> ?n * 2 + 2880"
    by (rule order.trans[OF length_fits_pad]) (simp only: s)
  have "length blob \<le> 2880 + (?n * 2 + 2880)"
    using e p1 p2 hl by (auto simp: encodeFITS_def Let_def a b split: if_splits)
  then show ?thesis using n by simp
qed

text \<open>A camera frame wrapped in a FITS file is decoded to the same samples in the same order and
  the same dimensions, mono; where the camera gave too few bytes the file is filled with zeros,
  which stand for 0 in an 8-bit file and for 32768 in a 16-bit one.\<close>

lemma encode_decoded:
  assumes "0 < w" and "0 < h" and "w * h \<le> 2 ^ 40"
  shows "\<exists>blob hdr. encodeFITS w h bits pixels = Some blob \<and>
    DecodeFITS blob = Inr \<lparr>frWidth = w, frHeight = h, frPix = map (frame_pixel bits pixels) [0..<nat (w * h)],
      frBayer = False, frBayerX = 0, frBayerY = 0, frBitPix = (if bits \<le> 8 then 8 else 16), frHeader = hdr\<rparr>"
proof (cases "bits \<le> 8")
  case True
  let ?n = "nat (w * h)"
  obtain rest where e: "encodeFITS w h bits pixels =
      Some (fits_header w h 8 0 @ (take ?n (pixels @ replicate (?n - length pixels) 0) @ rest))"
    using encode_parts(1)[OF assms True] by blast
  let ?d = "take ?n (pixels @ replicate (?n - length pixels) 0)"
  have conv: "convertFITSRow 1 (drop (i * nat (8 div 8)) (?d @ rest)) 8 (Fin 0) (Fin 1) = [frame_pixel bits pixels i]"
    if "i < ?n" for i
  proof -
    have "drop i (?d @ rest) ! 0 = (if i < length pixels then pixels ! i else 0)"
      using that nth_pad[OF that, of pixels 0] by (simp add: nth_append)
    then show ?thesis
      using True by (simp add: convertFITSRow_def fast_row_def fitsSupported_def sample_def byte_sample frame_pixel_def)
  qed
  have len: "?n * nat (8 div 8) \<le> length (?d @ rest)" by simp
  show ?thesis
    using decode_rows[OF assms _ encoded_bzero(1) _ _ conv len] e True by auto
next
  case False
  let ?n = "nat (w * h)"
  obtain rest where e: "encodeFITS w h bits pixels =
      Some (fits_header w h 16 32768 @ (concat (map (fits_sample pixels) [0..<?n]) @ rest))"
    using encode_parts(2)[OF assms False] by blast
  let ?d = "concat (map (fits_sample pixels) [0..<?n])"
  have fast: "fast_row 16 (Fin 32768) (Fin 1)" by (simp add: fast_row_def f64_eq_def)
  have dl: "length ?d = ?n * 2" by (rule concat_rows_length) (simp add: fits_sample_def put_be16_def)
  have conv: "convertFITSRow 1 (drop (i * nat (16 div 8)) (?d @ rest)) 16 (Fin 32768) (Fin 1) = [frame_pixel bits pixels i]"
    if "i < ?n" for i
  proof -
    have "be16 (drop (2 * i) (?d @ rest)) 0 = be16 (?d @ rest) (2 * i)"
      using that dl by (intro be16_drop) simp
    then show ?thesis
      using False be16_sample[OF that, of pixels rest] by (simp add: convertFITSRow_def fast frame_pixel_def mult.commute)
  qed
  have len: "?n * nat (16 div 8) \<le> length (?d @ rest)" using dl by simp
  show ?thesis
    using decode_rows[OF assms _ encoded_bzero(2) _ _ conv len] e False by auto
qed

lemma encode_decoded_sample:
  "\<exists>blob hdr. encodeFITS 2 1 16 [1, 2, 3, 4] = Some blob \<and>
    DecodeFITS blob = Inr \<lparr>frWidth = 2, frHeight = 1, frPix = [0x0201, 0x0403],
      frBayer = False, frBayerX = 0, frBayerY = 0, frBitPix = 16, frHeader = hdr\<rparr>"
proof -
  have "map (frame_pixel 16 [1, 2, 3, 4]) [0..<nat (2 * 1)] = [0x0201, 0x0403]" by code_simp
  then show ?thesis using encode_decoded[of 2 1 16 "[1, 2, 3, 4]"] by simp
qed

end
