(* ===== verification/Number.thy ===== *)
theory Number
  imports GoStrconv
begin

text \<open>
  Reading INDI numbers: \<open>ParseNumber\<close> of \<open>server/number.go\<close> and its copy in
  \<open>client/parse.go\<close>, with \<open>atof\<close> and \<open>isOn\<close> of \<open>client/xml.go\<close> and the readers of an
  inbound member in \<open>server/device.go\<close>. A Go result \<open>(v, true)\<close> is \<open>Some v\<close> and
  \<open>(0, false)\<close> is \<open>None\<close>.
\<close>

section \<open>The two parsers\<close>

definition is_sep :: "char \<Rightarrow> bool" where
  "is_sep c \<longleftrightarrow> c = CHR '':'' \<or> c = CHR '' ''"

text \<open>The loop over the scales, which stops where the fields do.\<close>

fun add_fields :: "float64 \<Rightarrow> string list \<Rightarrow> float64 list \<Rightarrow> float64 option" where
  "add_fields v [] ks = Some v"
| "add_fields v fs [] = Some v"
| "add_fields v (x # fs) (k # ks) =
     (case ParseFloat x of None \<Rightarrow> None | Some f \<Rightarrow> add_fields (v + f * k) fs ks)"

definition scales :: "float64 list" where
  "scales = [f64_of_rat (1 / 60), f64_of_rat (1 / 3600)]"

definition ParseNumber :: "string \<Rightarrow> float64 option" where
  "ParseNumber s0 =
     (let s = TrimSpace s0
      in case ParseFloat s of
           Some v \<Rightarrow> Some v
         | None \<Rightarrow>
            let fields = FieldsFunc is_sep s
            in if length fields < 2 \<or> length fields > 3 then None
               else case ParseFloat (fields ! 0) of
                      None \<Rightarrow> None
                    | Some v0 \<Rightarrow>
                        let neg = HasPrefix (fields ! 0) ''-'';
                            v1 = (if v0 < Fin 0 then - v0 else v0)
                        in case add_fields v1 (drop 1 fields) scales of
                             None \<Rightarrow> None
                           | Some v2 \<Rightarrow> Some (if neg then - v2 else v2))"

text \<open>The client's copy of the same function.\<close>

definition client_ParseNumber :: "string \<Rightarrow> float64 option" where
  "client_ParseNumber s0 =
     (let s = TrimSpace s0
      in case ParseFloat s of
           Some v \<Rightarrow> Some v
         | None \<Rightarrow>
            let fields = FieldsFunc is_sep s
            in if length fields < 2 \<or> length fields > 3 then None
               else case ParseFloat (fields ! 0) of
                      None \<Rightarrow> None
                    | Some v0 \<Rightarrow>
                        let neg = HasPrefix (fields ! 0) ''-'';
                            v1 = (if v0 < Fin 0 then - v0 else v0)
                        in case add_fields v1 (drop 1 fields) scales of
                             None \<Rightarrow> None
                           | Some v2 \<Rightarrow> Some (if neg then - v2 else v2))"

text \<open>\<open>atof\<close> reads what does not parse as zero.\<close>

definition atof :: "string \<Rightarrow> float64" where
  "atof s = (case client_ParseNumber s of Some f \<Rightarrow> f | None \<Rightarrow> Fin 0)"

definition isOn :: "string \<Rightarrow> bool" where
  "isOn s = EqualFoldOn (TrimSpace s)"

definition onoff :: "bool \<Rightarrow> string" where
  "onoff b = (if b then ''On'' else ''Off'')"

record NewMember =
  nm_name :: string
  nm_value :: string

definition Float :: "NewMember \<Rightarrow> float64 option" where
  "Float m = ParseNumber (nm_value m)"

definition On :: "NewMember \<Rightarrow> bool" where
  "On m = EqualFoldOn (TrimSpace (nm_value m))"

section \<open>What a number is\<close>

text \<open>The reference: a decimal, or two or three decimals whose sum in degrees (or hours) takes
  the sign of the first one's spelling.\<close>

definition magnitude :: "float64 \<Rightarrow> float64" where
  "magnitude v = (if v < Fin 0 then - v else v)"

definition with_sign_of :: "string \<Rightarrow> float64 \<Rightarrow> float64" where
  "with_sign_of d v = (if HasPrefix d ''-'' then - v else v)"

definition sexagesimal :: "string list \<Rightarrow> float64 option" where
  "sexagesimal fs =
     (case map (\<lambda>x. (x, ParseFloat x)) fs of
        [(d, Some v), (_, Some m)] \<Rightarrow>
          Some (with_sign_of d (magnitude v + m * f64_of_rat (1 / 60)))
      | [(d, Some v), (_, Some m), (_, Some x)] \<Rightarrow>
          Some (with_sign_of d
                 (magnitude v + m * f64_of_rat (1 / 60) + x * f64_of_rat (1 / 3600)))
      | _ \<Rightarrow> None)"

definition number_spec :: "string \<Rightarrow> float64 option" where
  "number_spec s =
     (case ParseFloat (TrimSpace s) of
        Some v \<Rightarrow> Some v
      | None \<Rightarrow> sexagesimal (FieldsFunc is_sep (TrimSpace s)))"

lemma ParseNumber_client: "client_ParseNumber s = ParseNumber s"
  by (simp add: ParseNumber_def client_ParseNumber_def)

lemma ParseNumber_spec: "ParseNumber s = number_spec s"
proof (cases "ParseFloat (TrimSpace s)")
  case None
  define fs where "fs = FieldsFunc is_sep (TrimSpace s)"
  have "fs = [] \<or> (\<exists>a. fs = [a]) \<or> (\<exists>a b. fs = [a, b]) \<or> (\<exists>a b c. fs = [a, b, c])
    \<or> (\<exists>a b c d r. fs = a # b # c # d # r)"
    by (metis neq_Nil_conv)
  then show ?thesis
  proof (elim disjE exE)
    fix a b assume "fs = [a, b]"
    with None show ?thesis
      by (cases "ParseFloat a"; cases "ParseFloat b")
         (simp_all add: ParseNumber_def number_spec_def sexagesimal_def scales_def magnitude_def with_sign_of_def
           flip: fs_def)
  next
    fix a b c assume "fs = [a, b, c]"
    with None show ?thesis
      by (cases "ParseFloat a"; cases "ParseFloat b"; cases "ParseFloat c")
         (simp_all add: ParseNumber_def number_spec_def sexagesimal_def scales_def magnitude_def with_sign_of_def
           flip: fs_def)
  qed (simp_all add: None ParseNumber_def number_spec_def sexagesimal_def flip: fs_def split: option.splits)
qed (simp add: ParseNumber_def number_spec_def)

lemma isOn_onoff [simp]: "isOn (onoff b) = b"
proof -
  have "isOn ''On'' = True" "isOn ''Off'' = False" by code_simp+
  then show ?thesis by (simp add: onoff_def)
qed

section \<open>The sign belongs to the whole value\<close>

lemma FieldsFunc_minus:
  assumes "is_digit c"
  obtains w r where "FieldsFunc is_sep (c # t) = (c # w) # r"
    "FieldsFunc is_sep (CHR ''-'' # c # t) = (CHR ''-'' # c # w) # r"
proof -
  have "\<not> is_sep c" "\<not> is_sep CHR ''-''"
    using assms by (auto simp: is_sep_def is_digit_def)
  then show thesis using that by (simp add: FieldsFunc_Cons)
qed

lemma sexagesimal_minus:
  assumes c: "is_digit c"
  shows "rel_option zero_sim (sexagesimal ((CHR ''-'' # c # w) # r))
           (map_option uminus (sexagesimal ((c # w) # r)))"
proof (cases "ParseFloat (c # w)")
  case None
  then show ?thesis by (simp add: sexagesimal_def ParseFloat_minus [OF c])
next
  case (Some v)
  then obtain q where q: "v = Fin q" "0 \<le> q" using ParseFloat_digit [OF c] by blast
  have mag: "zero_sim (magnitude (- v)) (magnitude v)"
    using q by (auto simp: magnitude_def zero_sim_def less_float64_def)
  have sgn: "HasPrefix (CHR ''-'' # c # w) ''-''" "\<not> HasPrefix (c # w) ''-''"
    using is_digit_not_sign [OF c] by (simp_all add: HasPrefix_def)
  from mag sgn Some show ?thesis
    by (auto simp: sexagesimal_def ParseFloat_minus [OF c] with_sign_of_def zero_sim_plus
        zero_sim_uminus split: list.splits option.splits)
qed

lemma ParseNumber_minus:
  assumes "is_digit c"
  shows "rel_option zero_sim (ParseNumber (CHR ''-'' # c # t)) (map_option uminus (ParseNumber (c # t)))"
proof -
  define u where "u = TrimRightSpace t"
  obtain w r where f: "FieldsFunc is_sep (c # u) = (c # w) # r"
    "FieldsFunc is_sep (CHR ''-'' # c # u) = (CHR ''-'' # c # w) # r"
    using FieldsFunc_minus [OF assms] .
  have g: "graph_char CHR ''-''" by code_simp
  have "TrimRightSpace (c # t) = c # u" "TrimSpace (c # t) = c # u"
    using is_digit_graph [OF assms] TrimSpace_graph_Cons
    by (simp_all add: u_def TrimRightSpace_def strip_all_upto [of c "rev t" "[]"])
  then have "TrimSpace (CHR ''-'' # c # t) = CHR ''-'' # c # u" "TrimSpace (c # t) = c # u"
    by (simp_all add: TrimSpace_graph_Cons [OF g])
  then show ?thesis
    using sexagesimal_minus [OF assms, of w r]
    by (cases "ParseFloat (c # u)") (simp_all add: ParseNumber_spec number_spec_def f ParseFloat_minus [OF assms])
qed

section \<open>Properties\<close>

text \<open>C30: The server's and the client's number parsers agree on every string with the reference: a
  decimal, or two or three decimals separated by colons or blanks and summed in sixtieths, the
  sign of the first one's spelling taken for the whole.\<close>

theorem parsers_agree: "ParseNumber s = number_spec s \<and> client_ParseNumber s = number_spec s"
  by (simp add: ParseNumber_client ParseNumber_spec)

text \<open>A minus sign before a number that starts with a digit negates it, also where the first
  field is zero, as in -0:30; the results agree up to the sign of a zero.\<close>

theorem leading_minus_negates:
  assumes "is_digit c"
  shows "rel_option zero_sim (ParseNumber (CHR ''-'' # c # t)) (map_option uminus (ParseNumber (c # t)))"
  by (rule ParseNumber_minus [OF assms])

theorem leading_minus_negates_witness:
  "rel_option zero_sim (ParseNumber ''-0:30'') (map_option uminus (ParseNumber ''0:30'')) \<and>
     ParseNumber ''-0:30'' = Some (Fin (- 1 / 2))"
proof -
  have "is_digit CHR ''0''" "ParseNumber ''-0:30'' = Some (Fin (- 1 / 2))" by code_simp+
  then show ?thesis using leading_minus_negates [of "CHR ''0''" "'':30''"] by simp
qed

end
