(* ===== verification/GoXml.thy ===== *)
theory GoXml
  imports GoStrconv
begin

text \<open>
  What the repository uses of \<open>encoding/xml\<close>: an element with its attributes and contents,
  the bytes \<open>xml.Marshal\<close> writes for it, and the parts of \<open>DecodeElement\<close> that read its
  attributes (a later duplicate wins), its character data and its child elements. Splitting
  an input stream into elements is the library's own work and is not modelled.
\<close>

section \<open>Elements\<close>

datatype xml = Elem string "(string \<times> string) list" "xml list" | CharData string

fun elem_name :: "xml \<Rightarrow> string" where
  "elem_name (Elem n as cs) = n"
| "elem_name (CharData s) = []"

fun is_elem :: "string \<Rightarrow> xml \<Rightarrow> bool" where
  "is_elem n (Elem k as cs) = (k = n)"
| "is_elem n (CharData s) = False"

section \<open>Decoding an element into a struct\<close>

definition get_attr :: "string \<Rightarrow> xml \<Rightarrow> string" where
  "get_attr n x =
     (case x of
        Elem k as cs \<Rightarrow> (case map_of (rev as) n of Some v \<Rightarrow> v | None \<Rightarrow> [])
      | CharData s \<Rightarrow> [])"

fun text_of :: "xml \<Rightarrow> string" where
  "text_of (CharData s) = s"
| "text_of (Elem k as cs) = []"

definition get_text :: "xml \<Rightarrow> string" where
  "get_text x = (case x of Elem k as cs \<Rightarrow> concat (map text_of cs) | CharData s \<Rightarrow> [])"

definition get_children :: "string \<Rightarrow> xml \<Rightarrow> xml list" where
  "get_children n x = (case x of Elem k as cs \<Rightarrow> filter (is_elem n) cs | CharData s \<Rightarrow> [])"

section \<open>Encoding a struct\<close>

text \<open>An attribute field, plain and with \<open>omitempty\<close>.\<close>

definition attr :: "string \<Rightarrow> string \<Rightarrow> (string \<times> string) list" where
  "attr n v = [(n, v)]"

definition attr_omitempty :: "string \<Rightarrow> string \<Rightarrow> (string \<times> string) list" where
  "attr_omitempty n v = (if v = [] then [] else [(n, v)])"

definition attr_int_omitempty :: "string \<Rightarrow> int \<Rightarrow> (string \<times> string) list" where
  "attr_int_omitempty n k = (if k = 0 then [] else [(n, Itoa k)])"

text \<open>The characters XML 1.0 admits, and \<open>xml.EscapeText\<close>.\<close>

definition xml_char :: "nat \<Rightarrow> bool" where
  "xml_char r \<longleftrightarrow> r = 9 \<or> r = 10 \<or> r = 13 \<or> (0x20 \<le> r \<and> r \<le> 0xD7FF)
     \<or> (0xE000 \<le> r \<and> r \<le> 0xFFFD) \<or> (0x10000 \<le> r \<and> r \<le> 0x10FFFF)"

definition escape_rune :: "nat \<times> string \<Rightarrow> string" where
  "escape_rune rb =
     (let r = fst rb; bs = snd rb
      in if r = 34 then ''&#34;'' else if r = 39 then ''&#39;''
         else if r = 38 then ''&amp;'' else if r = 60 then ''&lt;'' else if r = 62 then ''&gt;''
         else if r = 9 then ''&#x9;'' else if r = 10 then ''&#xA;'' else if r = 13 then ''&#xD;''
         else if \<not> xml_char r \<or> r = 0xFFFD \<and> length bs = 1 then [CHR 0xEF, CHR 0xBF, CHR 0xBD]
         else bs)"

definition EscapeText :: "string \<Rightarrow> string" where
  "EscapeText s = concat (map escape_rune (runes s))"

definition attr_bytes :: "string \<times> string \<Rightarrow> string" where
  "attr_bytes a = '' '' @ fst a @ ''='' @ [CHR 0x22] @ EscapeText (snd a) @ [CHR 0x22]"

fun xml_bytes :: "xml \<Rightarrow> string" where
  "xml_bytes (CharData s) = EscapeText s"
| "xml_bytes (Elem n as cs) =
     ''<'' @ n @ concat (map attr_bytes as) @ ''>'' @ concat (map xml_bytes cs) @ ''</'' @ n @ ''>''"

section \<open>Reading back what was written\<close>

lemma get_attr_Elem: "get_attr n (Elem k as cs) = (case map_of (rev as) n of Some v \<Rightarrow> v | None \<Rightarrow> [])"
  by (simp add: get_attr_def)

lemma get_attr_Nil [simp]: "get_attr n (Elem k [] cs) = []"
  by (simp add: get_attr_def)

lemma get_attr_append:
  "get_attr n (Elem k (as @ bs) cs) =
     (if n \<in> fst ` set bs then get_attr n (Elem k bs cs) else get_attr n (Elem k as cs))"
  by (auto simp: get_attr_def map_add_def split: option.splits)
     (force simp: map_of_eq_None_iff dest!: map_of_SomeD)+

lemma get_attr_attr [simp]: "get_attr n (Elem k (attr n v) cs) = v"
  by (simp add: get_attr_def attr_def)

lemma get_attr_omitempty [simp]: "get_attr n (Elem k (attr_omitempty n v) cs) = v"
  by (simp add: get_attr_def attr_omitempty_def)

lemma xml_bytes_ne [simp]: "xml_bytes (Elem n as cs) \<noteq> []"
  by simp

section \<open>Reading an attribute value\<close>

text \<open>How the decoder reads a quoted attribute value: up to the closing quote, replacing
  entities and character references, turning a carriage return into a line feed and failing
  on a bare \<open><\<close>. The result is the value and what follows the quote.\<close>

definition encode_rune :: "nat \<Rightarrow> string" where
  "encode_rune r =
     (if r < 0x80 then [char_of r]
      else if r < 0x800 then [char_of (0xC0 + r div 64), char_of (0x80 + r mod 64)]
      else if (0xD800 \<le> r \<and> r \<le> 0xDFFF) \<or> 0x10FFFF < r then [CHR 0xEF, CHR 0xBF, CHR 0xBD]
      else if r < 0x10000 then
        [char_of (0xE0 + r div 4096), char_of (0x80 + r div 64 mod 64), char_of (0x80 + r mod 64)]
      else [char_of (0xF0 + r div 262144), char_of (0x80 + r div 4096 mod 64),
            char_of (0x80 + r div 64 mod 64), char_of (0x80 + r mod 64)])"

fun ref_value :: "bool \<Rightarrow> int \<Rightarrow> string \<Rightarrow> (int \<times> string) option" where
  "ref_value hex n [] = None"
| "ref_value hex n (c # s) =
     (if c = CHR '';'' then Some (n, s)
      else if is_digit c \<or> hex \<and> is_hex_letter c
        then ref_value hex ((if hex then 16 else 10) * n + hex_val c) s
      else None)"

definition char_ref :: "string \<Rightarrow> (string \<times> string) option" where
  "char_ref s =
     (let hex = (s \<noteq> [] \<and> hd s = CHR ''x''); t = (if hex then tl s else s)
      in if t = [] \<or> hd t = CHR '';'' then None
         else case ref_value hex 0 t of
                None \<Rightarrow> None
              | Some (n, r) \<Rightarrow> if n \<le> 0x10FFFF then Some (encode_rune (nat n), r) else None)"

definition entity_names :: "(string \<times> string) list" where
  "entity_names =
     [(''lt;'', ''<''), (''gt;'', ''>''), (''amp;'', ''&''), (''apos;'', [CHR 0x27]),
      (''quot;'', [CHR 0x22])]"

fun named_ref :: "(string \<times> string) list \<Rightarrow> string \<Rightarrow> (string \<times> string) option" where
  "named_ref [] s = None"
| "named_ref (e # es) s =
     (case strip_prefix (fst e) s of Some r \<Rightarrow> Some (snd e, r) | None \<Rightarrow> named_ref es s)"

text \<open>What follows an ampersand: the text it stands for and the rest.\<close>

definition entity :: "string \<Rightarrow> (string \<times> string) option" where
  "entity s =
     (if s \<noteq> [] \<and> hd s = CHR ''#'' then char_ref (tl s) else named_ref entity_names s)"

lemma named_ref_shorter: "named_ref es s = Some (t, r) \<Longrightarrow> length r \<le> length s"
  by (induction es) (auto simp: strip_prefix_Some split: option.splits)

lemma ref_value_shorter: "ref_value hex n s = Some (k, r) \<Longrightarrow> length r \<le> length s"
  by (induction hex n s rule: ref_value.induct) (auto split: if_splits)

lemma entity_shorter: "entity s = Some (t, r) \<Longrightarrow> length r \<le> length s"
  by (cases s; cases "tl s")
     (auto simp: entity_def char_ref_def Let_def split: if_splits option.splits
       dest!: named_ref_shorter ref_value_shorter)

definition put_text :: "string \<Rightarrow> (string \<times> string) option \<Rightarrow> (string \<times> string) option" where
  "put_text t res = map_option (\<lambda>vr. (t @ fst vr, snd vr)) res"

function read_attr :: "string \<Rightarrow> (string \<times> string) option" where
  "read_attr [] = None"
| "read_attr (c # s) =
     (if c = CHR 0x22 then Some ([], s)
      else if c = CHR ''<'' then None
      else if c = CHR ''&'' then
        (case entity s of None \<Rightarrow> None | Some (t, r) \<Rightarrow> put_text t (read_attr r))
      else if c = CHR 0x0D then
        put_text [CHR 0x0A] (read_attr (if s \<noteq> [] \<and> hd s = CHR 0x0A then tl s else s))
      else put_text [c] (read_attr s))"
  by pat_completeness auto
termination
  by (relation "measure length") (auto dest: entity_shorter)

lemma put_text_simps [simp]:
  "put_text t None = None" "put_text t (Some (v, r)) = Some (t @ v, r)"
  "put_text t (put_text u x) = put_text (t @ u) x"
  by (simp_all add: put_text_def option.map_comp comp_def)

lemma put_text_Nil [simp]: "put_text [] x = x"
  by (cases x) (simp_all add: put_text_def)

lemma read_attr_plain:
  "c \<notin> {CHR 0x22, CHR ''<'', CHR ''&'', CHR 0x0D} \<Longrightarrow> read_attr (c # s) = put_text [c] (read_attr s)"
  by simp

lemma named_entities:
  "entity (''lt;'' @ s) = Some (''<'', s)" "entity (''gt;'' @ s) = Some (''>'', s)"
  "entity (''amp;'' @ s) = Some (''&'', s)" "entity (''apos;'' @ s) = Some ([CHR 0x27], s)"
  "entity (''quot;'' @ s) = Some ([CHR 0x22], s)"
  by (simp_all add: entity_def entity_names_def)

lemma char_refs:
  "entity (''#34;'' @ s) = Some ([CHR 0x22], s)" "entity (''#39;'' @ s) = Some ([CHR 0x27], s)"
  "entity (''#x9;'' @ s) = Some ([CHR 0x09], s)" "entity (''#xA;'' @ s) = Some ([CHR 0x0A], s)"
  "entity (''#xD;'' @ s) = Some ([CHR 0x0D], s)"
proof -
  have "lower_char CHR ''A'' = CHR ''a''" "lower_char CHR ''D'' = CHR ''d''" by code_simp+
  then show "entity (''#34;'' @ s) = Some ([CHR 0x22], s)" "entity (''#39;'' @ s) = Some ([CHR 0x27], s)"
    "entity (''#x9;'' @ s) = Some ([CHR 0x09], s)" "entity (''#xA;'' @ s) = Some ([CHR 0x0A], s)"
    "entity (''#xD;'' @ s) = Some ([CHR 0x0D], s)"
    by (simp_all add: entity_def char_ref_def is_digit_def is_hex_letter_def hex_val_def
        digit_val_def encode_rune_def char_of_eq_iff)
qed

lemma runes_concat: "concat (map snd (runes s)) = s"
proof (induction s rule: runes.induct)
  case (1 s)
  then show ?case by (subst runes.simps) (auto simp: Let_def)
qed

text \<open>Every rune XML admits, and no byte that is not part of one.\<close>

definition xml_text :: "string \<Rightarrow> bool" where
  "xml_text s \<longleftrightarrow> (\<forall>(r, bs) \<in> set (runes s). xml_char r \<and> \<not> (r = 0xFFFD \<and> length bs = 1))"

lemma decode_rune_bytes:
  assumes "decode_rune s = (r, w)" "s \<noteq> []"
  shows "r < 128 \<and> take w s = [char_of r] \<or>
     128 \<le> r \<and> (\<forall>c \<in> set (take w s). 128 \<le> byte_val c) \<or> r = 0xFFFD \<and> length (take w s) = 1"
  using assms
  by (cases s) (auto simp: decode_rune_def byte_val_def in_range_def split: if_splits list.splits)

lemma read_attr_high:
  "\<forall>c \<in> set bs. 128 \<le> byte_val c \<Longrightarrow> read_attr (bs @ s) = put_text bs (read_attr s)"
proof (induction bs)
  case (Cons c bs)
  then have "c \<notin> {CHR 0x22, CHR ''<'', CHR ''&'', CHR 0x0D}" by (auto simp: byte_val_def)
  with Cons show ?case by (simp add: read_attr_plain)
qed simp

lemma ascii_special:
  "r < 128 \<Longrightarrow> char_of r = CHR 0x22 \<longleftrightarrow> r = 34" "r < 128 \<Longrightarrow> char_of r = CHR ''<'' \<longleftrightarrow> r = 60"
  "r < 128 \<Longrightarrow> char_of r = CHR ''&'' \<longleftrightarrow> r = 38" "r < 128 \<Longrightarrow> char_of r = CHR 0x0D \<longleftrightarrow> r = 13" for r :: nat
  by (simp_all add: char_of_eq_iff take_bit_eq_mod)

lemma read_attr_escape_rune:
  assumes rb: "decode_rune s = (r, w)" "s \<noteq> []" and ok: "xml_char r" "\<not> (r = 0xFFFD \<and> length (take w s) = 1)"
  shows "read_attr (escape_rune (r, take w s) @ t) = put_text (take w s) (read_attr t)"
proof (cases "r < 128")
  case True
  then have bs: "take w s = [char_of r]" using decode_rune_bytes [OF rb] ok by auto
  have amp: "read_attr (CHR ''&'' # u) = (case entity u of None \<Rightarrow> None | Some (v, q) \<Rightarrow> put_text v (read_attr q))" for u
    by simp
  have e: "char_of (34 :: nat) = CHR 0x22" "char_of (39 :: nat) = CHR 0x27" "char_of (38 :: nat) = CHR ''&''"
    "char_of (60 :: nat) = CHR ''<''" "char_of (62 :: nat) = CHR ''>''" "char_of (9 :: nat) = CHR 0x09"
    "char_of (10 :: nat) = CHR 0x0A" "char_of (13 :: nat) = CHR 0x0D"
    by (simp_all add: char_of_eq_iff)
  consider "r \<in> {34, 39, 38, 60, 62, 9, 10, 13}" | "r \<notin> {34, 39, 38, 60, 62, 9, 10, 13}" by blast
  then show ?thesis
  proof cases
    case 1
    then show ?thesis
      using named_entities [of t] char_refs [of t]
      by (auto simp: escape_rune_def bs e amp simp del: read_attr.simps(2))
  next
    case 2
    then show ?thesis
      using ok True ascii_special [OF True] by (simp add: escape_rune_def bs)
  qed
next
  case False
  then have hi: "\<forall>c \<in> set (take w s). 128 \<le> byte_val c" using decode_rune_bytes [OF rb] ok by auto
  then show ?thesis
    using False ok read_attr_high [OF hi, of t] by (auto simp: escape_rune_def)
qed

lemma read_attr_EscapeText:
  assumes "xml_text v"
  shows "read_attr (EscapeText v @ CHR 0x22 # rest) = Some (v, rest)"
  using assms
proof (induction v rule: runes.induct)
  case (1 v)
  show ?case
  proof (cases "v = []")
    case True
    then show ?thesis by (simp add: EscapeText_def runes.simps)
  next
    case False
    obtain r w where rw: "decode_rune v = (r, w)" by fastforce
    have rs: "runes v = (r, take w v) # runes (drop w v)"
      using False by (subst runes.simps) (simp add: rw Let_def)
    then have ok: "xml_char r" "\<not> (r = 0xFFFD \<and> length (take w v) = 1)" "xml_text (drop w v)"
      using "1.prems" by (auto simp: xml_text_def)
    have "read_attr (EscapeText (drop w v) @ CHR 0x22 # rest) = Some (drop w v, rest)"
      using "1.IH" [OF False refl] ok(3) rw by simp
    moreover have "EscapeText v = escape_rune (r, take w v) @ EscapeText (drop w v)"
      by (simp add: EscapeText_def rs)
    ultimately show ?thesis
      using read_attr_escape_rune [OF rw False ok(1,2)] by simp
  qed
qed

end
