(* ===== verification/ClientStore.thy ===== *)
theory ClientStore
  imports Number GoXml
begin

text \<open>
  The client's view of the server, \<open>client/client.go\<close> with the structs of \<open>client/xml.go\<close>: the
  store of properties and the message ring, what each kind of inbound element does to them,
  and the reads. The read loop and the reads run under one mutex, so each is one step.
  Go's maps of maps are partial functions and \<open>updated\<close>, the channel that is closed and
  replaced at every change, is the number of channels closed so far. The elements a client
  sends are at the end.
\<close>

section \<open>State\<close>

record cMember =
  cmName :: string
  cmLabel :: string
  cmValue :: string
  cmNum :: float64
  cmOn :: bool
  cmFormat :: string
  cmMin :: float64
  cmMax :: float64
  cmStep :: float64
  cmSize :: int

definition zero_cMember :: cMember where
  "zero_cMember = \<lparr>cmName = [], cmLabel = [], cmValue = [], cmNum = Fin 0, cmOn = False, cmFormat = [],
     cmMin = Fin 0, cmMax = Fin 0, cmStep = Fin 0, cmSize = 0\<rparr>"

record cProperty =
  cpDevice :: string
  cpName :: string
  cpLabel :: string
  cpGroup :: string
  cpType :: string
  cpState :: string
  cpPerm :: string
  cpRule :: string
  cpMessage :: string
  cpRev :: "64 word"
  cpMembers :: "cMember list"

definition zero_cProperty :: cProperty where
  "zero_cProperty = \<lparr>cpDevice = [], cpName = [], cpLabel = [], cpGroup = [], cpType = [], cpState = [],
     cpPerm = [], cpRule = [], cpMessage = [], cpRev = 0, cpMembers = []\<rparr>"

text \<open>\<open>Property.Member\<close>: the first member of a name.\<close>

definition cMember_of :: "cProperty \<Rightarrow> string \<Rightarrow> cMember option" where
  "cMember_of p name = find (\<lambda>m. cmName m = name) (cpMembers p)"

record cMessage =
  msgDevice :: string
  msgTimestamp :: string
  msgText :: string

definition Message_String :: "cMessage \<Rightarrow> string" where
  "Message_String m =
     (let s = msgText m;
          s1 = (if msgDevice m \<noteq> [] then msgDevice m @ '': '' @ s else s)
      in if msgTimestamp m \<noteq> [] then msgTimestamp m @ '' '' @ s1 else s1)"

definition maxMessages :: nat where
  "maxMessages = 1000"

record client =
  updated :: nat
  store :: "string \<rightharpoonup> (string \<rightharpoonup> cProperty)"
  order :: "string list"
  messages :: "cMessage list"
  msgNext :: nat
  softErrs :: int
  cl_closed :: bool
  cl_err :: "string option"

definition newClient :: client where
  "newClient = \<lparr>updated = 0, store = Map.empty, order = [], messages = [], msgNext = 0, softErrs = 0,
     cl_closed = False, cl_err = None\<rparr>"

definition signalLocked :: "client \<Rightarrow> client" where
  "signalLocked c = c\<lparr>updated := updated c + 1\<rparr>"

definition fail_client :: "string \<Rightarrow> client \<Rightarrow> client" where
  "fail_client e c = signalLocked (c\<lparr>cl_closed := True, cl_err := Some e\<rparr>)"

definition Err :: "client \<Rightarrow> string option" where
  "Err c = (if \<not> cl_closed c then None else cl_err c)"

definition softError :: "client \<Rightarrow> client" where
  "softError c = c\<lparr>softErrs := softErrs c + 1\<rparr>"

section \<open>Inbound elements\<close>

record wOne =
  woName :: string
  woValue :: string

record wDefMember =
  wdmName :: string
  wdmLabel :: string
  wdmFormat :: string
  wdmMin :: string
  wdmMax :: string
  wdmStep :: string
  wdmValue :: string

record wDefVector =
  wdDevice :: string
  wdName :: string
  wdLabel :: string
  wdGroup :: string
  wdState :: string
  wdPerm :: string
  wdRule :: string
  wdNumbers :: "wDefMember list"
  wdSwitches :: "wDefMember list"
  wdTexts :: "wDefMember list"
  wdLights :: "wDefMember list"
  wdBLOBs :: "wDefMember list"

record wSetVector =
  wsDevice :: string
  wsName :: string
  wsState :: string
  wsMessage :: string
  wsNumbers :: "wOne list"
  wsSwitches :: "wOne list"
  wsTexts :: "wOne list"
  wsLights :: "wOne list"

record wDelProperty =
  wlDevice :: string
  wlName :: string

definition decode_wOne :: "xml \<Rightarrow> wOne" where
  "decode_wOne x = \<lparr>woName = get_attr ''name'' x, woValue = get_text x\<rparr>"

definition decode_wDefMember :: "xml \<Rightarrow> wDefMember" where
  "decode_wDefMember x =
     \<lparr>wdmName = get_attr ''name'' x, wdmLabel = get_attr ''label'' x, wdmFormat = get_attr ''format'' x,
      wdmMin = get_attr ''min'' x, wdmMax = get_attr ''max'' x, wdmStep = get_attr ''step'' x,
      wdmValue = get_text x\<rparr>"

definition decode_wDefVector :: "xml \<Rightarrow> wDefVector" where
  "decode_wDefVector x =
     \<lparr>wdDevice = get_attr ''device'' x, wdName = get_attr ''name'' x, wdLabel = get_attr ''label'' x,
      wdGroup = get_attr ''group'' x, wdState = get_attr ''state'' x, wdPerm = get_attr ''perm'' x,
      wdRule = get_attr ''rule'' x,
      wdNumbers = map decode_wDefMember (get_children ''defNumber'' x),
      wdSwitches = map decode_wDefMember (get_children ''defSwitch'' x),
      wdTexts = map decode_wDefMember (get_children ''defText'' x),
      wdLights = map decode_wDefMember (get_children ''defLight'' x),
      wdBLOBs = map decode_wDefMember (get_children ''defBLOB'' x)\<rparr>"

definition decode_wSetVector :: "xml \<Rightarrow> wSetVector" where
  "decode_wSetVector x =
     \<lparr>wsDevice = get_attr ''device'' x, wsName = get_attr ''name'' x, wsState = get_attr ''state'' x,
      wsMessage = get_attr ''message'' x,
      wsNumbers = map decode_wOne (get_children ''oneNumber'' x),
      wsSwitches = map decode_wOne (get_children ''oneSwitch'' x),
      wsTexts = map decode_wOne (get_children ''oneText'' x),
      wsLights = map decode_wOne (get_children ''oneLight'' x)\<rparr>"

definition decode_wDelProperty :: "xml \<Rightarrow> wDelProperty" where
  "decode_wDelProperty x = \<lparr>wlDevice = get_attr ''device'' x, wlName = get_attr ''name'' x\<rparr>"

definition decode_wMessage :: "xml \<Rightarrow> cMessage" where
  "decode_wMessage x = \<lparr>msgDevice = get_attr ''device'' x, msgTimestamp = get_attr ''timestamp'' x,
     msgText = get_attr ''message'' x\<rparr>"

definition typeOf :: "string \<Rightarrow> string" where
  "typeOf elem =
     (if Contains elem ''Number'' then ''Number''
      else if Contains elem ''Switch'' then ''Switch''
      else if Contains elem ''Text'' then ''Text''
      else if Contains elem ''Light'' then ''Light''
      else if Contains elem ''BLOB'' then ''BLOB''
      else [])"

section \<open>Applying them\<close>

definition def_number :: "wDefMember \<Rightarrow> cMember" where
  "def_number n =
     (let val = TrimSpace (wdmValue n)
      in zero_cMember\<lparr>cmName := wdmName n, cmLabel := wdmLabel n, cmValue := val, cmNum := atof val,
           cmFormat := wdmFormat n, cmMin := atof (wdmMin n), cmMax := atof (wdmMax n),
           cmStep := atof (wdmStep n)\<rparr>)"

definition def_switch :: "wDefMember \<Rightarrow> cMember" where
  "def_switch s =
     (let val = TrimSpace (wdmValue s)
      in zero_cMember\<lparr>cmName := wdmName s, cmLabel := wdmLabel s, cmValue := val, cmOn := isOn val\<rparr>)"

definition def_text :: "wDefMember \<Rightarrow> cMember" where
  "def_text t =
     zero_cMember\<lparr>cmName := wdmName t, cmLabel := wdmLabel t, cmValue := TrimSpace (wdmValue t)\<rparr>"

definition def_blob :: "wDefMember \<Rightarrow> cMember" where
  "def_blob b = zero_cMember\<lparr>cmName := wdmName b, cmLabel := wdmLabel b\<rparr>"

definition def_property :: "string \<Rightarrow> wDefVector \<Rightarrow> cProperty" where
  "def_property elem v =
     zero_cProperty\<lparr>cpDevice := wdDevice v, cpName := wdName v, cpLabel := wdLabel v, cpGroup := wdGroup v,
       cpType := typeOf elem, cpState := wdState v, cpPerm := wdPerm v, cpRule := wdRule v,
       cpMembers := map def_number (wdNumbers v) @ map def_switch (wdSwitches v) @ map def_text (wdTexts v) @
         map def_text (wdLights v) @ map def_blob (wdBLOBs v)\<rparr>"

definition applyDef :: "string \<Rightarrow> wDefVector \<Rightarrow> client \<Rightarrow> client" where
  "applyDef elem v c =
     (let p = def_property elem v;
          dev = wdDevice v;
          c1 = (case store c dev of
                  Some dm \<Rightarrow> c
                | None \<Rightarrow> c\<lparr>store := (store c)(dev \<mapsto> Map.empty),
                             order := (if dev \<in> set (order c) then order c else order c @ [dev])\<rparr>);
          dm = the (store c1 dev);
          rev = (case dm (wdName v) of Some old \<Rightarrow> cpRev old | None \<Rightarrow> 0);
          p1 = p\<lparr>cpRev := rev + 1\<rparr>
      in signalLocked (c1\<lparr>store := (store c1)(dev \<mapsto> dm(wdName v \<mapsto> p1))\<rparr>))"

definition addMessage :: "cMessage \<Rightarrow> client \<Rightarrow> client" where
  "addMessage m c =
     (if length (messages c) < maxMessages then c\<lparr>messages := messages c @ [m]\<rparr>
      else c\<lparr>messages := (messages c)[msgNext c := m], msgNext := (msgNext c + 1) mod maxMessages\<rparr>)"

text \<open>The closure \<open>upd\<close>, which sets every member of the name.\<close>

definition upd :: "cMember list \<Rightarrow> wOne \<Rightarrow> cMember list" where
  "upd ms o1 =
     (let val = TrimSpace (woValue o1)
      in map (\<lambda>m. if cmName m = woName o1 then m\<lparr>cmValue := val, cmNum := atof val, cmOn := isOn val\<rparr> else m) ms)"

definition set_property :: "wSetVector \<Rightarrow> cProperty \<Rightarrow> cProperty" where
  "set_property v p =
     (let p1 = (if wsState v \<noteq> [] then p\<lparr>cpState := wsState v\<rparr> else p);
          p2 = (if wsMessage v \<noteq> [] then p1\<lparr>cpMessage := wsMessage v\<rparr> else p1);
          ms = foldl upd (cpMembers p2) (wsNumbers v @ wsSwitches v @ wsTexts v @ wsLights v)
      in p2\<lparr>cpMembers := ms, cpRev := cpRev p2 + 1\<rparr>)"

definition put_property :: "string \<Rightarrow> string \<Rightarrow> cProperty \<Rightarrow> client \<Rightarrow> client" where
  "put_property dev name p c =
     (case store c dev of None \<Rightarrow> c | Some dm \<Rightarrow> c\<lparr>store := (store c)(dev \<mapsto> dm(name \<mapsto> p))\<rparr>)"

definition applySet :: "wSetVector \<Rightarrow> client \<Rightarrow> client" where
  "applySet v c =
     (case store c (wsDevice v) of
        None \<Rightarrow> c
      | Some dm \<Rightarrow>
         (case dm (wsName v) of
            None \<Rightarrow> c
          | Some p \<Rightarrow> signalLocked (put_property (wsDevice v) (wsName v) (set_property v p) c)))"

definition applyDel :: "wDelProperty \<Rightarrow> client \<Rightarrow> client" where
  "applyDel v c =
     (case store c (wlDevice v) of
        None \<Rightarrow> c
      | Some dm \<Rightarrow>
         signalLocked
           (if wlName v = [] then
              c\<lparr>store := (store c)(wlDevice v := None), order := remove1 (wlDevice v) (order c)\<rparr>
            else c\<lparr>store := (store c)(wlDevice v \<mapsto> dm(wlName v := None))\<rparr>))"

section \<open>Reads\<close>

definition Devices :: "client \<Rightarrow> string list" where
  "Devices c = order c"

text \<open>\<open>clone\<close> copies the members so that a caller's property shares nothing with the store.\<close>

definition clone :: "cProperty \<Rightarrow> cProperty" where
  "clone p = p\<lparr>cpMembers := [] @ cpMembers p\<rparr>"

definition cl_Property :: "client \<Rightarrow> string \<Rightarrow> string \<Rightarrow> cProperty option" where
  "cl_Property c dev name =
     (case store c dev of
        None \<Rightarrow> None
      | Some dm \<Rightarrow> (case dm name of None \<Rightarrow> None | Some p \<Rightarrow> Some (clone p)))"

definition Messages :: "client \<Rightarrow> cMessage list" where
  "Messages c = drop (msgNext c) (messages c) @ take (msgNext c) (messages c)"

section \<open>The read loop\<close>

text \<open>What the decoder yields: a complete element, a malformed one, or a terminal error. An
  element \<open>setBLOBVector\<close> is read token by token; that is the argument \<open>blob\<close>.\<close>

datatype inbound = Element xml | Malformed string | Broken string

definition def_elems :: "string list" where
  "def_elems = [''defNumberVector'', ''defSwitchVector'', ''defTextVector'', ''defLightVector'', ''defBLOBVector'']"

definition set_elems :: "string list" where
  "set_elems = [''setNumberVector'', ''setSwitchVector'', ''setTextVector'', ''setLightVector'']"

definition read_elem :: "(xml \<Rightarrow> client \<Rightarrow> client) \<Rightarrow> xml \<Rightarrow> client \<Rightarrow> client" where
  "read_elem blob x c =
     (let n = elem_name x
      in if n \<in> set def_elems then applyDef n (decode_wDefVector x) c
         else if n = ''setBLOBVector'' then blob x c
         else if n \<in> set set_elems then applySet (decode_wSetVector x) c
         else if n = ''delProperty'' then applyDel (decode_wDelProperty x) c
         else if n = ''message'' then
           (let m = decode_wMessage x in if msgText m \<noteq> [] then addMessage m c else c)
         else c)"

definition read_inbound :: "(xml \<Rightarrow> client \<Rightarrow> client) \<Rightarrow> inbound \<Rightarrow> client \<Rightarrow> client" where
  "read_inbound blob i c =
     (case i of
        Element x \<Rightarrow> read_elem blob x c
      | Malformed n \<Rightarrow>
          if n \<in> set def_elems \<or> n \<in> set set_elems \<or> n = ''delProperty'' \<or> n = ''message''
          then softError c else c
      | Broken e \<Rightarrow> fail_client e c)"

text \<open>The loop, which returns once the client has failed.\<close>

fun readLoop :: "(xml \<Rightarrow> client \<Rightarrow> client) \<Rightarrow> inbound list \<Rightarrow> client \<Rightarrow> client" where
  "readLoop blob [] c = c"
| "readLoop blob (i # is) c =
     (let c' = read_inbound blob i c in if cl_closed c' then c' else readLoop blob is c')"

section \<open>Outbound elements\<close>

definition wGetProperties :: "string \<Rightarrow> string \<Rightarrow> xml" where
  "wGetProperties dev name =
     Elem ''getProperties''
       (attr ''version'' ''1.7'' @ attr_omitempty ''device'' dev @ attr_omitempty ''name'' name) []"

text \<open>\<open>wNewVector\<close>; the members come from a Go map in some order.\<close>

definition wNewVector :: "string \<Rightarrow> string \<Rightarrow> string \<Rightarrow> string \<Rightarrow> (string \<times> string) list \<Rightarrow> xml" where
  "wNewVector elem child dev name vals =
     Elem elem (attr ''device'' dev @ attr ''name'' name)
       (map (\<lambda>(n, v). Elem child (attr ''name'' n) [CharData v]) vals)"

definition cl_SetSwitch :: "string \<Rightarrow> string \<Rightarrow> (string \<times> bool) list \<Rightarrow> xml" where
  "cl_SetSwitch dev name states =
     wNewVector ''newSwitchVector'' ''oneSwitch'' dev name (map (\<lambda>(n, on). (n, onoff on)) states)"

definition cl_SetNumber :: "string \<Rightarrow> string \<Rightarrow> (string \<times> float64) list \<Rightarrow> xml" where
  "cl_SetNumber dev name vals =
     wNewVector ''newNumberVector'' ''oneNumber'' dev name (map (\<lambda>(n, v). (n, FormatFixed6 v)) vals)"

definition cl_SetText :: "string \<Rightarrow> string \<Rightarrow> (string \<times> string) list \<Rightarrow> xml" where
  "cl_SetText dev name vals = wNewVector ''newTextVector'' ''oneText'' dev name vals"

definition wEnableBLOB :: "string \<Rightarrow> string \<Rightarrow> string \<Rightarrow> xml" where
  "wEnableBLOB dev name mode =
     Elem ''enableBLOB'' (attr_omitempty ''device'' dev @ attr_omitempty ''name'' name) [CharData mode]"

section \<open>The store as a map\<close>

text \<open>Seen from the reads, the store is one map from device and name to property.\<close>

lemma clone_id [simp]: "clone p = p"
  by (simp add: clone_def)

lemma cl_Property_put:
  "cl_Property (put_property dev name p c) d n =
     (if d = dev \<and> n = name \<and> store c dev \<noteq> None then Some p else cl_Property c d n)"
  by (auto simp: cl_Property_def put_property_def split: option.splits)

lemma cl_Property_signal [simp]: "cl_Property (signalLocked c) = cl_Property c"
  by (intro ext) (simp add: cl_Property_def signalLocked_def)

lemma cl_Property_applyDef:
  "cl_Property (applyDef elem v c) d n =
     (if d = wdDevice v \<and> n = wdName v
      then Some ((def_property elem v)\<lparr>cpRev :=
             (case cl_Property c d n of Some old \<Rightarrow> cpRev old | None \<Rightarrow> 0) + 1\<rparr>)
      else cl_Property c d n)"
  by (auto simp: applyDef_def Let_def cl_Property_def signalLocked_def split: option.split)

lemma cl_Property_applySet:
  "cl_Property (applySet v c) d n =
     (if d = wsDevice v \<and> n = wsName v then map_option (set_property v) (cl_Property c d n)
      else cl_Property c d n)"
  by (auto simp: applySet_def cl_Property_put split: option.split)
     (auto simp: cl_Property_def split: option.splits)

lemma cl_Property_applyDel:
  "cl_Property (applyDel v c) d n =
     (if d = wlDevice v \<and> (wlName v = [] \<or> n = wlName v) then None else cl_Property c d n)"
  by (auto simp: applyDel_def cl_Property_def signalLocked_def split: option.split)

text \<open>Setting members: the last value given for a name, on every member of that name.\<close>

definition set_value :: "string \<Rightarrow> cMember \<Rightarrow> cMember" where
  "set_value v m = m\<lparr>cmValue := TrimSpace v, cmNum := atof (TrimSpace v), cmOn := isOn (TrimSpace v)\<rparr>"

definition last_value :: "wOne list \<Rightarrow> string \<rightharpoonup> string" where
  "last_value os = map_of (rev (map (\<lambda>q. (woName q, woValue q)) os))"

definition set_last :: "wOne list \<Rightarrow> cMember \<Rightarrow> cMember" where
  "set_last os m = (case last_value os (cmName m) of Some v \<Rightarrow> set_value v m | None \<Rightarrow> m)"

lemma set_value_simps [simp]:
  "cmName (set_value v m) = cmName m" "set_value w (set_value v m) = set_value w m"
  by (simp_all add: set_value_def)

lemma upd_set_value: "upd ms q = map (\<lambda>m. if cmName m = woName q then set_value (woValue q) m else m) ms"
  by (simp add: upd_def set_value_def Let_def)

lemma foldl_upd: "foldl upd ms os = map (set_last os) ms"
proof (induction os rule: rev_induct)
  case Nil
  show ?case by (simp add: set_last_def last_value_def)
next
  case (snoc q os)
  have "foldl upd ms (os @ [q]) = upd (map (set_last os) ms) q" by (simp add: snoc)
  also have "\<dots> = map (set_last (os @ [q])) ms"
    by (auto simp: upd_set_value set_last_def last_value_def split: option.split)
  finally show ?case .
qed

section \<open>Invariants\<close>

definition store_inv :: "client \<Rightarrow> bool" where
  "store_inv c \<longleftrightarrow>
     distinct (order c) \<and> set (order c) = dom (store c) \<and>
     (\<forall>d n p. cl_Property c d n = Some p \<longrightarrow> cpDevice p = d \<and> cpName p = n)"

definition ring_inv :: "client \<Rightarrow> bool" where
  "ring_inv c \<longleftrightarrow>
     length (messages c) \<le> maxMessages \<and> msgNext c < maxMessages \<and>
     (length (messages c) < maxMessages \<longrightarrow> msgNext c = 0)"

definition client_inv :: "client \<Rightarrow> bool" where
  "client_inv c \<longleftrightarrow> store_inv c \<and> ring_inv c"

lemma client_inv_new: "client_inv newClient"
  by (simp add: client_inv_def store_inv_def ring_inv_def newClient_def cl_Property_def maxMessages_def)

lemma set_property_key [simp]:
  "cpDevice (set_property v p) = cpDevice p" "cpName (set_property v p) = cpName p"
  by (simp_all add: set_property_def Let_def)

lemma def_property_key [simp]:
  "cpDevice (def_property elem v) = wdDevice v" "cpName (def_property elem v) = wdName v"
  by (simp_all add: def_property_def)

lemma store_inv_applyDef: "store_inv c \<Longrightarrow> store_inv (applyDef elem v c)"
  unfolding store_inv_def cl_Property_applyDef
  by (auto simp: applyDef_def Let_def signalLocked_def split: option.split if_splits)

lemma store_inv_applySet: "store_inv c \<Longrightarrow> store_inv (applySet v c)"
  unfolding store_inv_def cl_Property_applySet
  by (auto simp: applySet_def signalLocked_def put_property_def dom_def split: option.splits if_splits)

lemma store_inv_applyDel: "store_inv c \<Longrightarrow> store_inv (applyDel v c)"
  unfolding store_inv_def cl_Property_applyDel
  by (auto simp: applyDel_def signalLocked_def dom_def split: option.splits if_splits)

lemma store_inv_addMessage: "store_inv (addMessage m c) = store_inv c"
  by (simp add: store_inv_def addMessage_def cl_Property_def)

lemma ring_inv_store [simp]:
  "ring_inv (applyDef elem v c) = ring_inv c" "ring_inv (applySet s c) = ring_inv c"
  "ring_inv (applyDel l c) = ring_inv c"
  by (auto simp: ring_inv_def applyDef_def applySet_def applyDel_def put_property_def signalLocked_def Let_def
      split: option.split)

lemma ring_inv_addMessage: "ring_inv c \<Longrightarrow> ring_inv (addMessage m c)"
  by (auto simp: ring_inv_def addMessage_def maxMessages_def)

lemma client_inv_fail: "client_inv (fail_client e c) = client_inv c"
  "client_inv (softError c) = client_inv c"
  by (auto simp: client_inv_def store_inv_def ring_inv_def fail_client_def softError_def signalLocked_def
      cl_Property_def)

lemma client_inv_read_elem:
  assumes "client_inv c" and "client_inv (blob x c)"
  shows "client_inv (read_elem blob x c)"
  using assms
  by (auto simp: read_elem_def Let_def client_inv_def store_inv_applyDef store_inv_applySet store_inv_applyDel
      store_inv_addMessage ring_inv_addMessage)

lemma client_inv_readLoop:
  assumes "client_inv c" and "\<And>x c. client_inv c \<Longrightarrow> client_inv (blob x c)"
  shows "client_inv (readLoop blob is c)"
  using assms(1)
proof (induction "is" arbitrary: c)
  case (Cons i "is")
  have "client_inv (read_inbound blob i c)"
    using Cons.prems client_inv_read_elem[of c blob] assms(2)
    by (auto simp: read_inbound_def client_inv_fail split: inbound.split)
  then show ?case using Cons.IH by (simp add: Let_def)
qed simp

section \<open>Bounded logs\<close>

text \<open>A log that keeps its last \<open>cap\<close> entries, one entry added at a time.\<close>

definition keep_last :: "nat \<Rightarrow> 'a list \<Rightarrow> 'a list" where
  "keep_last k xs = drop (length xs - k) xs"

lemma keep_last_snoc: "keep_last k (keep_last k xs @ ys) = keep_last k (xs @ ys)"
proof (cases "length xs \<le> k")
  case True
  then show ?thesis by (simp add: keep_last_def)
next
  case False
  then have "length (drop (length xs - k) xs) = k" by simp
  then show ?thesis using False by (auto simp: keep_last_def drop_append add.commute)
qed

locale bounded_log =
  fixes add :: "'m \<Rightarrow> 's \<Rightarrow> 's" and items :: "'s \<Rightarrow> 'm list" and inv :: "'s \<Rightarrow> bool" and cap :: nat
  assumes items_add: "inv s \<Longrightarrow> items (add m s) = keep_last cap (items s @ [m])"
    and inv_add: "inv s \<Longrightarrow> inv (add m s)"
    and items_cap: "inv s \<Longrightarrow> length (items s) \<le> cap"
begin

lemma items_adds: "inv s \<Longrightarrow> items (fold add ms s) = keep_last cap (items s @ ms) \<and> inv (fold add ms s)"
proof (induction ms arbitrary: s)
  case Nil
  then show ?case using items_cap[of s] by (simp add: keep_last_def)
next
  case (Cons m ms)
  then show ?case using keep_last_snoc[of cap "items s @ [m]" ms] by (simp add: items_add inv_add)
qed

end

lemma Messages_addMessage:
  assumes "ring_inv c"
  shows "Messages (addMessage m c) = keep_last maxMessages (Messages c @ [m])"
proof (cases "length (messages c) < maxMessages")
  case True
  then show ?thesis using assms by (simp add: Messages_def addMessage_def ring_inv_def keep_last_def)
next
  case False
  then have len: "length (messages c) = maxMessages" and k: "msgNext c < maxMessages"
    using assms by (auto simp: ring_inv_def)
  have new: "take (Suc (msgNext c)) ((messages c)[msgNext c := m]) = take (msgNext c) (messages c) @ [m]"
    using k len by (simp add: take_Suc_conv_app_nth)
  have old: "keep_last maxMessages (Messages c @ [m]) =
      drop (Suc (msgNext c)) (messages c) @ take (msgNext c) (messages c) @ [m]"
    using k len by (simp add: keep_last_def Messages_def drop_append)
  show ?thesis
  proof (cases "Suc (msgNext c) < maxMessages")
    case True
    then show ?thesis using False new old k len by (simp add: Messages_def addMessage_def)
  next
    case last: False
    then have "Suc (msgNext c) = maxMessages" using k by simp
    then show ?thesis
      using False new old k len by (simp add: Messages_def addMessage_def)
  qed
qed

interpretation message_ring: bounded_log addMessage Messages ring_inv maxMessages
  by unfold_locales (auto simp: Messages_addMessage ring_inv_addMessage, auto simp: ring_inv_def Messages_def)

section \<open>Properties\<close>

text \<open>A definition is stored under its device and name, replacing what was there, with a revision
  one past the old one's, and no other property changes.\<close>

theorem definition_applied:
  "cl_Property (applyDef elem v c) d n =
     (if d = wdDevice v \<and> n = wdName v
      then Some ((def_property elem v)\<lparr>cpRev :=
             (case cl_Property c d n of Some old \<Rightarrow> cpRev old + 1 | None \<Rightarrow> 1)\<rparr>)
      else cl_Property c d n)"
  by (auto simp: cl_Property_applyDef split: option.split)

theorem definition_applied_witness:
  "map_option cpRev (cl_Property (applyDef ''defTextVector'' (decode_wDefVector (Elem ''defTextVector'' [] []))
     newClient) [] []) = Some 1"
  using definition_applied[of "''defTextVector''" "decode_wDefVector (Elem ''defTextVector'' [] [])" newClient "[]" "[]"]
  by (simp add: decode_wDefVector_def newClient_def cl_Property_def)

text \<open>An update of a known property counts one revision, replaces the state and the message where
  it carries one, and gives every member it names its last value there, trimmed and read as a
  number and a switch; the other members, the other properties and an unknown property stay as
  they were.\<close>

theorem update_applied:
  "cl_Property (applySet v c) d n =
     (if d = wsDevice v \<and> n = wsName v
      then map_option (\<lambda>p. p\<lparr>cpState := (if wsState v = [] then cpState p else wsState v),
             cpMessage := (if wsMessage v = [] then cpMessage p else wsMessage v),
             cpRev := cpRev p + 1,
             cpMembers := map (set_last (wsNumbers v @ wsSwitches v @ wsTexts v @ wsLights v)) (cpMembers p)\<rparr>)
           (cl_Property c d n)
      else cl_Property c d n)"
proof -
  have "set_property v = (\<lambda>p. p\<lparr>cpState := (if wsState v = [] then cpState p else wsState v),
      cpMessage := (if wsMessage v = [] then cpMessage p else wsMessage v), cpRev := cpRev p + 1,
      cpMembers := map (set_last (wsNumbers v @ wsSwitches v @ wsTexts v @ wsLights v)) (cpMembers p)\<rparr>)"
    unfolding set_property_def foldl_upd Let_def by (rule ext) simp
  then show ?thesis unfolding cl_Property_applySet by simp
qed

theorem update_applied_witness:
  "cl_Property (applySet (decode_wSetVector (Elem ''setTextVector'' [] [])) newClient) [] [] = None"
  using update_applied[of "decode_wSetVector (Elem ''setTextVector'' [] [])" newClient "[]" "[]"]
  by (simp add: newClient_def cl_Property_def)

text \<open>A deletion removes the named property, or with an empty name all of the device's, and
  nothing else.\<close>

theorem deletion_applied:
  "cl_Property (applyDel v c) d n =
     (if d = wlDevice v \<and> (wlName v = [] \<or> n = wlName v) then None else cl_Property c d n) \<and>
   (set (order c) = dom (store c) \<and> distinct (order c) \<longrightarrow>
     Devices (applyDel v c) = (if wlName v = [] then filter (\<lambda>x. x \<noteq> wlDevice v) (Devices c) else Devices c))"
proof (intro conjI impI)
  assume inv: "set (order c) = dom (store c) \<and> distinct (order c)"
  show "Devices (applyDel v c) = (if wlName v = [] then filter (\<lambda>x. x \<noteq> wlDevice v) (Devices c) else Devices c)"
  proof (cases "store c (wlDevice v)")
    case None
    then have "\<forall>x\<in>set (order c). x \<noteq> wlDevice v" using inv by auto
    then show ?thesis using None by (simp add: applyDel_def Devices_def)
  next
    case (Some dm)
    then show ?thesis
      using inv by (simp add: applyDel_def Devices_def signalLocked_def distinct_remove1_removeAll removeAll_filter_not_eq
          eq_commute[of "wlDevice v"])
  qed
qed (rule cl_Property_applyDel)

theorem deletion_applied_witness:
  "Devices (applyDel \<lparr>wlDevice = ''CCD'', wlName = []\<rparr>
     (newClient\<lparr>order := [''CCD'', ''Mount''], store := [''CCD'' \<mapsto> Map.empty, ''Mount'' \<mapsto> Map.empty]\<rparr>)) = [''Mount'']"
  using deletion_applied[of "\<lparr>wlDevice = ''CCD'', wlName = []\<rparr>"
     "newClient\<lparr>order := [''CCD'', ''Mount''], store := [''CCD'' \<mapsto> Map.empty, ''Mount'' \<mapsto> Map.empty]\<rparr>" "[]" "[]"]
  by (simp add: Devices_def newClient_def insert_commute)

text \<open>The message log is the last thousand messages received, oldest first, though they are kept
  in a ring.\<close>

theorem message_log:
  "Messages (fold addMessage ms newClient) = drop (length ms - 1000) ms"
  using message_ring.items_adds[of newClient ms] client_inv_new
  by (simp add: client_inv_def keep_last_def maxMessages_def Messages_def[of newClient])
     (simp add: newClient_def)

end
