(* ===== verification/GoBase64.thy ===== *)
theory GoBase64
  imports Prelude
begin

unbundle bit_operations_syntax

text \<open>
  \<open>base64.StdEncoding.EncodeToString\<close>: three bytes become four letters of the standard
  alphabet, and a shorter rest is padded.
\<close>

definition b64_alphabet :: string where
  "b64_alphabet = ''ABCDEFGHIJKLMNOPQRSTUVWXYZabcdefghijklmnopqrstuvwxyz0123456789+/''"

definition b64_letter :: "byte \<Rightarrow> char" where
  "b64_letter w = b64_alphabet ! unat w"

definition sext1 :: "byte \<Rightarrow> byte" where
  "sext1 a = drop_bit 2 a"

definition sext2 :: "byte \<Rightarrow> byte \<Rightarrow> byte" where
  "sext2 a b = push_bit 4 (take_bit 2 a) OR drop_bit 4 b"

definition sext3 :: "byte \<Rightarrow> byte \<Rightarrow> byte" where
  "sext3 b c = push_bit 2 (take_bit 4 b) OR drop_bit 6 c"

definition sext4 :: "byte \<Rightarrow> byte" where
  "sext4 c = take_bit 6 c"

fun b64_encode :: "byte list \<Rightarrow> string" where
  "b64_encode [] = []"
| "b64_encode [a] = [b64_letter (sext1 a), b64_letter (sext2 a 0), CHR ''='', CHR ''='']"
| "b64_encode [a, b] =
     [b64_letter (sext1 a), b64_letter (sext2 a b), b64_letter (sext3 b 0), CHR ''='']"
| "b64_encode (a # b # c # r) =
     [b64_letter (sext1 a), b64_letter (sext2 a b), b64_letter (sext3 b c), b64_letter (sext4 c)]
     @ b64_encode r"

lemma sextets_small: "unat (sext1 a) < 64" "unat (sext2 a b) < 64" "unat (sext3 b c) < 64" "unat (sext4 c) < 64"
proof -
  have m: "unat (take_bit 6 w) < 64" for w :: byte
    by (simp add: take_bit_eq_mod unat_mod_distrib)
  have e: "sext1 a = take_bit 6 (sext1 a)" "sext2 a b = take_bit 6 (sext2 a b)"
    "sext3 b c = take_bit 6 (sext3 b c)"
    unfolding sext1_def sext2_def sext3_def
    by (rule bit_word_eqI, auto simp: bit_simps dest: bit_imp_le_length)+
  show "unat (sext1 a) < 64" "unat (sext2 a b) < 64" "unat (sext3 b c) < 64" "unat (sext4 c) < 64"
    using m e unfolding sext4_def by metis+
qed

end
