(* ===== verification/ClientBlob.thy ===== *)
theory ClientBlob
  imports ClientStore GoBase64
begin

unbundle bit_operations_syntax

text \<open>
  BLOB reception, \<open>client/blob.go\<close>: the incremental base64 decoder, the sinks a payload goes
  to, the token-by-token reading of a \<open>setBLOBVector\<close>, and what it leaves in the store. A
  sink is a value of type \<open>'s\<close> with the operations of its Go type in a record. The zlib
  inflater that counts a compressed payload is the argument \<open>inflate\<close>: a byte stream's
  inflated length, or None when it does not inflate.
\<close>

section \<open>Errors\<close>

datatype blob_error =
  MalformedPadding
| DataAfterPadding
| InvalidByte char
| TruncatedBase64 nat
| SinkError string
| StreamError string

definition QuoteRune :: "(nat \<Rightarrow> bool) \<Rightarrow> char \<Rightarrow> string" where
  "QuoteRune pr c =
     (let r = of_char c
      in [CHR 0x27] @
         (if r = 39 then [CHR 0x5C, CHR 0x27] else if r = 34 then [CHR 0x22]
          else quote_rune pr (r, encode_rune r)) @ [CHR 0x27])"

fun error_text :: "(nat \<Rightarrow> bool) \<Rightarrow> blob_error \<Rightarrow> string" where
  "error_text pr MalformedPadding = ''indi client: malformed base64 padding''"
| "error_text pr DataAfterPadding = ''indi client: base64 data after padding''"
| "error_text pr (InvalidByte c) = ''indi client: invalid base64 byte '' @ QuoteRune pr c"
| "error_text pr (TruncatedBase64 n) =
     ''indi client: BLOB base64 truncated ('' @ Itoa (int n) @ '' trailing chars)''"
| "error_text pr (SinkError e) = e"
| "error_text pr (StreamError e) = e"

section \<open>Base64 quanta\<close>

text \<open>The table \<open>b64rev\<close> of 8-bit signed values, -1 where a byte is no letter.\<close>

definition b64_table :: "(char \<times> byte) list" where
  "b64_table = zip b64_alphabet (map of_nat [0..<64])"

definition b64rev :: "char \<Rightarrow> byte" where
  "b64rev c = (case map_of b64_table c of Some d \<Rightarrow> d | None \<Rightarrow> - 1)"

fun quad_values :: "char list \<Rightarrow> blob_error + byte list" where
  "quad_values [] = Inr []"
| "quad_values (c # cs) =
     (if c = CHR ''='' then (case quad_values cs of Inl e \<Rightarrow> Inl e | Inr vs \<Rightarrow> Inr (0 # vs))
      else if sint (b64rev c) < 0 then Inl (InvalidByte c)
      else (case quad_values cs of Inl e \<Rightarrow> Inl e | Inr vs \<Rightarrow> Inr (b64rev c # vs)))"

text \<open>The three output bytes; \<open><<\<close> and \<open>>>\<close> act on \<open>int8\<close>, the latter arithmetically.\<close>

definition quad_bytes :: "byte \<Rightarrow> byte \<Rightarrow> byte \<Rightarrow> byte \<Rightarrow> byte list" where
  "quad_bytes v0 v1 v2 v3 =
     [push_bit 2 v0 OR signed_drop_bit 4 v1,
      push_bit 4 v1 OR signed_drop_bit 2 v2,
      push_bit 6 v2 OR v3]"

text \<open>\<open>decodeQuad\<close>: the first n of its three output bytes.\<close>

definition decodeQuad :: "char \<Rightarrow> char \<Rightarrow> char \<Rightarrow> char \<Rightarrow> blob_error + byte list" where
  "decodeQuad q0 q1 q2 q3 =
     (let eq = CHR ''=''
      in if q0 = eq \<or> q1 = eq then Inl MalformedPadding
         else if q2 = eq \<and> q3 \<noteq> eq then Inl DataAfterPadding
         else
           let n = (if q2 = eq then 1 else if q3 = eq then 2 else 3)
           in case quad_values [q0, q1, q2, q3] of
                Inl e \<Rightarrow> Inl e
              | Inr vs \<Rightarrow> Inr (take n (quad_bytes (vs ! 0) (vs ! 1) (vs ! 2) (vs ! 3))))"

section \<open>The incremental decoder\<close>

text \<open>The operations of a sink: \<open>Write\<close>, and \<open>Close\<close> and \<open>CloseWithError\<close> where its type has
  them; \<open>sinkOpen\<close> is the sink function of the client, which may give no writer or panic.\<close>

datatype 's opened = Panics | Opened "'s option"

record blobInfo =
  biDevice :: string
  biProperty :: string
  biMember :: string
  biSize :: int
  biFormat :: string
  biCompressed :: bool

record 's sink_ops =
  sinkOpen :: "blobInfo \<Rightarrow> 's opened"
  sinkWrite :: "byte list \<Rightarrow> 's \<Rightarrow> string option \<times> 's"
  sinkClose :: "('s \<Rightarrow> string option \<times> 's) option"
  sinkCloseWithError :: "(blob_error \<Rightarrow> 's \<Rightarrow> 's) option"

text \<open>\<open>b64Writer\<close>. \<open>bSink\<close> is the destination and \<open>bOn\<close> whether the decoder still writes to
  it (the field \<open>w\<close> is not nil); \<open>bTee\<close> is what the inflater has been fed, if there is one;
  \<open>bQuad\<close> the characters of the quantum begun.\<close>

record 's b64Writer =
  bSink :: "'s option"
  bOn :: bool
  bTee :: "byte list option"
  bWerr :: "string option"
  bTotal :: int
  bQuad :: string
  bDone :: bool

definition new_b64Writer :: "'s b64Writer" where
  "new_b64Writer = \<lparr>bSink = None, bOn = False, bTee = None, bWerr = None, bTotal = 0, bQuad = [], bDone = False\<rparr>"

definition b64_space :: "char \<Rightarrow> bool" where
  "b64_space c \<longleftrightarrow> c = CHR '' '' \<or> c = CHR 0x09 \<or> c = CHR 0x0D \<or> c = CHR 0x0A"

text \<open>The loop of \<open>Write\<close> over the characters: the quantum, whether padding ended the payload,
  and the bytes decoded so far.\<close>

fun b64_scan :: "string \<Rightarrow> string \<times> bool \<times> byte list \<Rightarrow> blob_error + string \<times> bool \<times> byte list" where
  "b64_scan [] st = Inr st"
| "b64_scan (ch # p) (quad, done, out) =
     (if b64_space ch then b64_scan p (quad, done, out)
      else if done then Inl DataAfterPadding
      else case quad of
             [q0, q1, q2] \<Rightarrow>
               (case decodeQuad q0 q1 q2 ch of
                  Inl e \<Rightarrow> Inl e
                | Inr bs \<Rightarrow> b64_scan p ([], length bs < 3, out @ bs))
           | _ \<Rightarrow> b64_scan p (quad @ [ch], done, out))"

text \<open>Handing decoded bytes on: to the inflater always, to the sink until it fails.\<close>

definition b64_flush :: "'s sink_ops \<Rightarrow> byte list \<Rightarrow> 's b64Writer \<Rightarrow> 's b64Writer" where
  "b64_flush K out b =
     (if out = [] then b
      else
        let b1 = b\<lparr>bTee := map_option (\<lambda>t. t @ out) (bTee b)\<rparr>
        in if \<not> bOn b1 then b1
           else case bSink b1 of
                  None \<Rightarrow> b1
                | Some s \<Rightarrow>
                    (case sinkWrite K out s of
                       (None, s') \<Rightarrow> b1\<lparr>bSink := Some s'\<rparr>
                     | (Some e, s') \<Rightarrow> b1\<lparr>bSink := Some s', bWerr := Some e, bOn := False\<rparr>))"

definition b64_Write :: "'s sink_ops \<Rightarrow> string \<Rightarrow> 's b64Writer \<Rightarrow> blob_error + 's b64Writer" where
  "b64_Write K p b =
     (case b64_scan p (bQuad b, bDone b, []) of
        Inl e \<Rightarrow> Inl e
      | Inr (quad, done, out) \<Rightarrow>
          Inr (b64_flush K out (b\<lparr>bQuad := quad, bDone := done, bTotal := bTotal b + int (length out)\<rparr>)))"

definition b64_finish :: "'s b64Writer \<Rightarrow> blob_error option" where
  "b64_finish b = (if bQuad b \<noteq> [] then Some (TruncatedBase64 (length (bQuad b))) else None)"

section \<open>One payload\<close>

text \<open>The value of \<open>strconv.ParseInt(s, 10, 64)\<close> when its error is ignored: 0 for a syntax error,
  the nearest bound for a value out of range.\<close>

fun uint64_scan :: "int \<Rightarrow> string \<Rightarrow> int option" where
  "uint64_scan acc [] = Some acc"
| "uint64_scan acc (c # s) =
     (if \<not> is_digit c then None
      else if 10 * acc + digit_val c \<ge> 2 ^ 64 then Some (2 ^ 64 - 1)
      else uint64_scan (10 * acc + digit_val c) s)"

definition ParseInt_value :: "string \<Rightarrow> int" where
  "ParseInt_value s =
     (let neg = (s \<noteq> [] \<and> hd s = CHR ''-'');
          t = (if s \<noteq> [] \<and> (hd s = CHR ''-'' \<or> hd s = CHR ''+'') then tl s else s)
      in if t = [] then 0
         else case uint64_scan 0 t of
                None \<Rightarrow> 0
              | Some n \<Rightarrow> if neg then max (- n) (- (2 ^ 63)) else min n (2 ^ 63 - 1))"

text \<open>The first attribute of a name, unlike a struct decoder's last.\<close>

definition attr_value :: "(string \<times> string) list \<Rightarrow> string \<Rightarrow> string" where
  "attr_value as n = (case map_of as n of Some v \<Rightarrow> v | None \<Rightarrow> [])"

definition hasB64Data :: "string \<Rightarrow> bool" where
  "hasB64Data p \<longleftrightarrow> (\<exists>c \<in> set p. \<not> b64_space c)"

text \<open>The tokens between \<open><oneBLOB>\<close> and its end: character data, a nested element (skipped), the
  end, an error of the stream.\<close>

datatype blob_token = BChars string | BElem | BEnd | BFail string

text \<open>How a payload ended for its sink.\<close>

datatype sink_end = LeftOpen | Closed "string option" | Aborted blob_error

record 's blob_result =
  brMember :: cMember
  brErr :: "blob_error option"
  brSink :: "'s option"
  brEnd :: sink_end
  brSoft :: int
  brPanic :: bool

definition firstErr :: "blob_error option \<Rightarrow> string option \<Rightarrow> blob_error option" where
  "firstErr a b = (case a of Some e \<Rightarrow> Some e | None \<Rightarrow> map_option SinkError b)"

definition abortSink :: "'s sink_ops \<Rightarrow> 's option \<Rightarrow> blob_error \<Rightarrow> 's option \<times> sink_end" where
  "abortSink K dst reason =
     (case dst of
        None \<Rightarrow> (None, LeftOpen)
      | Some s \<Rightarrow>
         (case sinkCloseWithError K of
            Some cwe \<Rightarrow> (Some (cwe reason s), Aborted reason)
          | None \<Rightarrow>
             (case sinkClose K of
                Some cl \<Rightarrow> (case cl s of (e, s') \<Rightarrow> (Some s', Closed e))
              | None \<Rightarrow> (Some s, LeftOpen))))"

text \<open>The size check of a completed payload: whether it is reported as a soft error.\<close>

definition size_mismatch ::
  "(byte list \<Rightarrow> int option) \<Rightarrow> blobInfo \<Rightarrow> string \<Rightarrow> 's b64Writer \<Rightarrow> bool" where
  "size_mismatch inflate info sizeAttr b \<longleftrightarrow>
     sizeAttr \<noteq> [] \<and>
     (if \<not> biCompressed info then bTotal b \<noteq> biSize info
      else case bTee b of None \<Rightarrow> False | Some t \<Rightarrow> inflate t \<noteq> Some (biSize info))"

definition end_blob ::
  "'s sink_ops \<Rightarrow> (byte list \<Rightarrow> int option) \<Rightarrow> blobInfo \<Rightarrow> string \<Rightarrow> cMember \<Rightarrow> 's b64Writer \<Rightarrow>
   's blob_result" where
  "end_blob K inflate info sizeAttr m b =
     (let err = b64_finish b;
          soft1 = (if err = None \<and> size_mismatch inflate info sizeAttr b then 1 else 0);
          soft2 = (if bWerr b \<noteq> None then 1 else 0)
      in case firstErr err (bWerr b) of
           Some ferr \<Rightarrow>
             (case abortSink K (bSink b) ferr of
                (s, e) \<Rightarrow> \<lparr>brMember = m, brErr = err, brSink = s, brEnd = e, brSoft = soft1 + soft2, brPanic = False\<rparr>)
         | None \<Rightarrow>
             (case (bSink b, sinkClose K) of
                (Some s, Some cl) \<Rightarrow>
                  (case cl s of
                     (e, s') \<Rightarrow>
                       \<lparr>brMember = m, brErr = map_option SinkError e, brSink = Some s', brEnd = Closed e,
                        brSoft = soft1 + soft2, brPanic = False\<rparr>)
              | (s, _) \<Rightarrow>
                  \<lparr>brMember = m, brErr = err, brSink = s, brEnd = LeftOpen, brSoft = soft1 + soft2,
                   brPanic = False\<rparr>))"

text \<open>\<open>engage\<close>, which opens the sink once.\<close>

definition engage ::
  "'s sink_ops option \<Rightarrow> blobInfo \<Rightarrow> 's b64Writer \<Rightarrow> 's b64Writer option" where
  "engage fn info b =
     (case fn of
        None \<Rightarrow> Some b
      | Some K \<Rightarrow>
         (case sinkOpen K info of
            Panics \<Rightarrow> None
          | Opened d \<Rightarrow> Some (b\<lparr>bSink := d, bOn := (d \<noteq> None)\<rparr>)))"

definition blob_failed :: "cMember \<Rightarrow> blob_error option \<Rightarrow> bool \<Rightarrow> 's b64Writer \<Rightarrow> 's blob_result" where
  "blob_failed m err pan b =
     \<lparr>brMember = m, brErr = err, brSink = bSink b, brEnd = LeftOpen, brSoft = 0, brPanic = pan\<rparr>"

text \<open>The token loop. \<open>fn\<close> is the sink function not yet called, \<open>K\<close> the operations of the sink
  (of no use without one). It gives None while the payload has not ended.\<close>

fun blob_loop ::
  "'s sink_ops \<Rightarrow> (byte list \<Rightarrow> int option) \<Rightarrow> blobInfo \<Rightarrow> string \<Rightarrow> cMember \<Rightarrow>
   's sink_ops option \<Rightarrow> 's b64Writer \<Rightarrow> blob_token list \<Rightarrow> 's blob_result option" where
  "blob_loop K inflate info sz m fn b [] = None"
| "blob_loop K inflate info sz m fn b (BFail e # ts) = Some (blob_failed m (Some (StreamError e)) False b)"
| "blob_loop K inflate info sz m fn b (BElem # ts) = blob_loop K inflate info sz m fn b ts"
| "blob_loop K inflate info sz m fn b (BEnd # ts) = Some (end_blob K inflate info sz m b)"
| "blob_loop K inflate info sz m fn b (BChars t # ts) =
     (let start = (fn \<noteq> None \<and> hasB64Data t)
      in case (if start then engage fn info b else Some b) of
           None \<Rightarrow> Some (blob_failed m None True b)
         | Some b1 \<Rightarrow>
            (case b64_Write K t b1 of
               Inl e \<Rightarrow> Some (blob_failed m (Some e) False b1)
             | Inr b2 \<Rightarrow> blob_loop K inflate info sz m (if start then None else fn) b2 ts))"

definition blob_info :: "string \<Rightarrow> string \<Rightarrow> (string \<times> string) list \<Rightarrow> blobInfo" where
  "blob_info device prop as =
     (let format = attr_value as ''format''; z = HasSuffix format ''.z''
      in \<lparr>biDevice = device, biProperty = prop, biMember = attr_value as ''name'',
          biSize = ParseInt_value (TrimSpace (attr_value as ''size'')),
          biFormat = (if z then TrimSuffix format ''.z'' else format), biCompressed = z\<rparr>)"

text \<open>A sink for a client that has none: it is never opened.\<close>

definition no_sink :: "'s sink_ops" where
  "no_sink = \<lparr>sinkOpen = (\<lambda>i. Opened None), sinkWrite = (\<lambda>bs s. (None, s)), sinkClose = None,
     sinkCloseWithError = None\<rparr>"

definition readOneBlob ::
  "'s sink_ops option \<Rightarrow> (byte list \<Rightarrow> int option) \<Rightarrow> string \<Rightarrow> string \<Rightarrow> (string \<times> string) list \<Rightarrow>
   blob_token list \<Rightarrow> 's blob_result option" where
  "readOneBlob fn inflate device prop as ts =
     (let info = blob_info device prop as;
          sizeAttr = TrimSpace (attr_value as ''size'');
          m = zero_cMember\<lparr>cmName := biMember info, cmFormat := attr_value as ''format'', cmSize := biSize info\<rparr>;
          K = (case fn of Some k \<Rightarrow> k | None \<Rightarrow> no_sink);
          start = (biSize info > 0)
      in case (if start then engage fn info new_b64Writer else Some new_b64Writer) of
           None \<Rightarrow> Some (blob_failed m None True new_b64Writer)
         | Some b0 \<Rightarrow>
             let b1 = (if biCompressed info \<and> sizeAttr \<noteq> [] \<and> biSize info > 0 then b0\<lparr>bTee := Some []\<rparr> else b0)
             in blob_loop K inflate info sizeAttr m (if start then None else fn) b1 ts)"

section \<open>The vector\<close>

definition set_blob :: "cMember list \<Rightarrow> cMember \<Rightarrow> cMember list" where
  "set_blob ms nm =
     (if \<exists>m\<in>set ms. cmName m = cmName nm
      then map (\<lambda>m. if cmName m = cmName nm then m\<lparr>cmFormat := cmFormat nm, cmSize := cmSize nm\<rparr> else m) ms
      else ms @ [nm])"

definition blob_property :: "string \<Rightarrow> string \<Rightarrow> cMember list \<Rightarrow> cProperty \<Rightarrow> cProperty" where
  "blob_property state message seen p =
     (let p1 = (if state \<noteq> [] then p\<lparr>cpState := state\<rparr> else p);
          p2 = (if message \<noteq> [] then p1\<lparr>cpMessage := message\<rparr> else p1)
      in p2\<lparr>cpMembers := foldl set_blob (cpMembers p2) seen, cpRev := cpRev p2 + 1\<rparr>)"

definition applyBlobMeta :: "string \<Rightarrow> string \<Rightarrow> string \<Rightarrow> string \<Rightarrow> cMember list \<Rightarrow> client \<Rightarrow> client" where
  "applyBlobMeta device prop state message seen c =
     (case store c device of
        None \<Rightarrow> c
      | Some dm \<Rightarrow>
         (case dm prop of
            None \<Rightarrow> c
          | Some p \<Rightarrow> signalLocked (put_property device prop (blob_property state message seen p) c)))"

text \<open>The sinks of a client, one per device taking precedence.\<close>

record 's sinks =
  blobSink :: "'s sink_ops option"
  blobSinks :: "string \<rightharpoonup> 's sink_ops"

definition BlobSink :: "'s sink_ops option \<Rightarrow> 's sinks \<Rightarrow> 's sinks" where
  "BlobSink fn k = k\<lparr>blobSink := fn\<rparr>"

definition BlobSinkFor :: "string \<Rightarrow> 's sink_ops option \<Rightarrow> 's sinks \<Rightarrow> 's sinks" where
  "BlobSinkFor device fn k = k\<lparr>blobSinks := (blobSinks k)(device := fn)\<rparr>"

definition sinkFor :: "'s sinks \<Rightarrow> string \<Rightarrow> 's sink_ops option" where
  "sinkFor k device = (case blobSinks k device of Some fn \<Rightarrow> Some fn | None \<Rightarrow> blobSink k)"

text \<open>The tokens of a \<open>setBLOBVector\<close>: a \<open>oneBLOB\<close> with its own, another element, its end, an error
  of the stream.\<close>

datatype vector_token = VBlob "(string \<times> string) list" "blob_token list" | VOther | VEnd | VFail string

text \<open>\<open>readBlobVector\<close>: the client after it, the payloads read, and whether a sink panicked. An
  error fails the client, as \<open>readLoop\<close> does with it.\<close>

fun vector_loop ::
  "(nat \<Rightarrow> bool) \<Rightarrow> 's sinks \<Rightarrow> (byte list \<Rightarrow> int option) \<Rightarrow> (string \<times> string) list \<Rightarrow> cMember list \<Rightarrow>
   vector_token list \<Rightarrow> client \<Rightarrow> client \<times> 's blob_result list \<times> bool" where
  "vector_loop pr k inflate as seen [] c = (c, [], False)"
| "vector_loop pr k inflate as seen (VFail e # vs) c = (fail_client e c, [], False)"
| "vector_loop pr k inflate as seen (VOther # vs) c = vector_loop pr k inflate as seen vs c"
| "vector_loop pr k inflate as seen (VEnd # vs) c =
     (applyBlobMeta (attr_value as ''device'') (attr_value as ''name'') (attr_value as ''state'')
        (attr_value as ''message'') seen c, [], False)"
| "vector_loop pr k inflate as seen (VBlob bs ts # vs) c =
     (case readOneBlob (sinkFor k (attr_value as ''device'')) inflate (attr_value as ''device'')
             (attr_value as ''name'') bs ts of
        None \<Rightarrow> (c, [], False)
      | Some r \<Rightarrow>
          (let c1 = c\<lparr>softErrs := softErrs c + brSoft r\<rparr>
           in if brPanic r then (c1, [r], True)
              else case brErr r of
                     Some e \<Rightarrow> (fail_client (error_text pr e) c1, [r], False)
                   | None \<Rightarrow>
                       (case vector_loop pr k inflate as (seen @ [brMember r]) vs c1 of
                          (c2, rs, pan) \<Rightarrow> (c2, r # rs, pan))))"

fun blob_tokens :: "xml list \<Rightarrow> blob_token list" where
  "blob_tokens [] = [BEnd]"
| "blob_tokens (CharData s # xs) = BChars s # blob_tokens xs"
| "blob_tokens (Elem n as cs # xs) = BElem # blob_tokens xs"

fun vector_tokens :: "xml list \<Rightarrow> vector_token list" where
  "vector_tokens [] = [VEnd]"
| "vector_tokens (CharData s # xs) = vector_tokens xs"
| "vector_tokens (Elem n as cs # xs) =
     (if n = ''oneBLOB'' then VBlob as (blob_tokens cs) # vector_tokens xs else VOther # vector_tokens xs)"

definition readBlobVector ::
  "(nat \<Rightarrow> bool) \<Rightarrow> 's sinks \<Rightarrow> (byte list \<Rightarrow> int option) \<Rightarrow> xml \<Rightarrow> client \<Rightarrow> client \<times> 's blob_result list \<times> bool" where
  "readBlobVector pr k inflate x c =
     (case x of
        Elem n as cs \<Rightarrow> vector_loop pr k inflate as [] (vector_tokens cs) c
      | CharData s \<Rightarrow> (c, [], False))"

section \<open>Buffered payloads\<close>

text \<open>\<open>BufferBlobs\<close>: the sink \<open>blobBuf\<close>, whose \<open>Close\<close> calls the function with the payload;
  \<open>bbGiven\<close> is what it was called with. Go refuses to make a slice of more than 2 ^ 48 bytes.\<close>

record blobBuf =
  bbInfo :: blobInfo
  bbBuf :: "byte list"
  bbGiven :: "(blobInfo \<times> byte list) option"

definition buffer_sink :: "blobBuf sink_ops" where
  "buffer_sink =
     \<lparr>sinkOpen = (\<lambda>info. if biSize info > make_limit then Panics
                        else Opened (Some \<lparr>bbInfo = info, bbBuf = [], bbGiven = None\<rparr>)),
      sinkWrite = (\<lambda>p b. (None, b\<lparr>bbBuf := bbBuf b @ p\<rparr>)),
      sinkClose = Some (\<lambda>b. (None, b\<lparr>bbGiven := Some (bbInfo b, bbBuf b)\<rparr>)),
      sinkCloseWithError = Some (\<lambda>e b. b\<lparr>bbBuf := []\<rparr>)\<rparr>"

section \<open>Decoding what was encoded\<close>

lemma b64_letters:
  "\<forall>i\<in>set [0..<64]. b64rev (b64_alphabet ! i) = of_nat i \<and> b64_alphabet ! i \<noteq> CHR ''='' \<and>
     \<not> b64_space (b64_alphabet ! i) \<and> \<not> sint (b64rev (b64_alphabet ! i)) < 0"
  by code_simp

lemma b64_letter_facts:
  assumes "unat w < 64"
  shows "b64rev (b64_letter w) = w" "b64_letter w \<noteq> CHR ''=''" "\<not> b64_space (b64_letter w)"
    "\<not> sint w < 0"
proof -
  have i: "unat w \<in> set [0..<64]" using assms by simp
  have word_unat_eq: "of_nat (unat w) = w" by simp
  show "b64rev (b64_letter w) = w" "b64_letter w \<noteq> CHR ''=''" "\<not> b64_space (b64_letter w)"
    "\<not> sint w < 0"
    using b64_letters[rule_format, OF i] unfolding b64_letter_def word_unat_eq by metis+
qed

lemmas sextet_letters = b64_letter_facts[OF sextets_small(1)] b64_letter_facts[OF sextets_small(2)]
  b64_letter_facts[OF sextets_small(3)] b64_letter_facts[OF sextets_small(4)]

lemma byte_index_cases:
  "n < LENGTH(8) \<Longrightarrow> n = 0 \<or> n = 1 \<or> n = 2 \<or> n = 3 \<or> n = 4 \<or> n = 5 \<or> n = 6 \<or> n = 7"
  by auto

lemma quad_bytes_sextets:
  "quad_bytes (sext1 a) (sext2 a b) (sext3 b c) (sext4 c) = [a, b, c]"
  unfolding quad_bytes_def sext1_def sext2_def sext3_def sext4_def
  by (simp, intro conjI; rule bit_word_eqI; drule byte_index_cases; elim disjE; hypsubst;
      auto simp: bit_simps dest: bit_imp_le_length)

lemma quad_bytes_sextets1: "hd (quad_bytes (sext1 a) (sext2 a 0) v w) = a"
  using quad_bytes_sextets[of a 0 0] by (simp add: quad_bytes_def)

lemma quad_bytes_sextets2: "take 2 (quad_bytes (sext1 a) (sext2 a b) (sext3 b 0) w) = [a, b]"
  using quad_bytes_sextets[of a b 0] by (simp add: quad_bytes_def)

lemma decodeQuad_encoded:
  "decodeQuad (b64_letter (sext1 a)) (b64_letter (sext2 a b)) (b64_letter (sext3 b c)) (b64_letter (sext4 c)) =
     Inr [a, b, c]"
  "decodeQuad (b64_letter (sext1 a)) (b64_letter (sext2 a b)) (b64_letter (sext3 b 0)) CHR ''='' = Inr [a, b]"
  "decodeQuad (b64_letter (sext1 a)) (b64_letter (sext2 a 0)) CHR ''='' CHR ''='' = Inr [a]"
  using quad_bytes_sextets[of a b c] quad_bytes_sextets2[of a b 0] quad_bytes_sextets1[of a 0 0]
  by (simp_all add: decodeQuad_def Let_def sextet_letters) (simp_all add: quad_bytes_def)

lemma pad_not_space: "\<not> b64_space CHR ''=''"
  by (simp add: b64_space_def)

lemma b64_scan_encode:
  "b64_scan (b64_encode data) ([], False, out) = Inr ([], length data mod 3 \<noteq> 0, out @ data)"
proof (induction data arbitrary: out rule: b64_encode.induct)
  case (4 a b c r)
  have "length (a # b # c # r) mod 3 = length r mod 3" using mod_add_self2[of "length r" 3] by simp
  then show ?case using 4[of "out @ [a, b, c]"] by (simp add: sextet_letters decodeQuad_encoded del: length_Cons)
qed (simp_all add: sextet_letters decodeQuad_encoded pad_not_space)

text \<open>Whitespace is skipped, chunks may be joined, and what was decoded before stays in front.\<close>

definition b64_chars :: "string \<Rightarrow> string" where
  "b64_chars s = filter (\<lambda>c. \<not> b64_space c) s"

lemma b64_scan_chars: "b64_scan (b64_chars p) st = b64_scan p st"
  unfolding b64_chars_def by (induction p st rule: b64_scan.induct) (auto split: list.split sum.split)

lemma b64_scan_append:
  "b64_scan (p @ q) st = (case b64_scan p st of Inl e \<Rightarrow> Inl e | Inr st' \<Rightarrow> b64_scan q st')"
  by (induction p st rule: b64_scan.induct) (auto split: list.split sum.split)

lemma b64_scan_out:
  "b64_scan p (quad, fin, out) =
     (case b64_scan p (quad, fin, []) of
        Inl e \<Rightarrow> Inl e | Inr (quad', fin', out') \<Rightarrow> Inr (quad', fin', out @ out'))"
proof (induction p arbitrary: quad fin out)
  case (Cons ch p)
  have IH: "b64_scan p (quad, fin, out @ bs) =
     (case b64_scan p (quad, fin, bs) of
        Inl e \<Rightarrow> Inl e | Inr (quad', fin', out') \<Rightarrow> Inr (quad', fin', out @ out'))" for quad fin bs
    using Cons.IH[of quad fin "out @ bs"] Cons.IH[of quad fin bs] by (auto split: sum.split)
  show ?case
    using IH[of _ _ "[]"] by (auto simp: IH split: list.split sum.split)
qed simp

section \<open>A run of tokens\<close>

text \<open>The writes of a payload's character data one after the other, which is one scan of all of it
  and a sequence of flushes.\<close>

fun b64_Writes :: "'s sink_ops \<Rightarrow> string list \<Rightarrow> 's b64Writer \<Rightarrow> blob_error + 's b64Writer" where
  "b64_Writes K [] b = Inr b"
| "b64_Writes K (t # ts) b = (case b64_Write K t b of Inl e \<Rightarrow> Inl e | Inr b1 \<Rightarrow> b64_Writes K ts b1)"

lemma b64_flush_fields [simp]:
  "bQuad (b64_flush K out b) = bQuad b" "bDone (b64_flush K out b) = bDone b"
  "bTotal (b64_flush K out b) = bTotal b"
  "bTee (b64_flush K out b) = map_option (\<lambda>t. t @ out) (bTee b)"
  by (auto simp: b64_flush_def Let_def option.map_id[unfolded id_def] split: option.split prod.split)

definition same_sink :: "'s b64Writer \<Rightarrow> 's b64Writer \<Rightarrow> bool" where
  "same_sink b b' \<longleftrightarrow> bSink b = bSink b' \<and> bOn b = bOn b' \<and> bWerr b = bWerr b'"

lemma same_sink_flush: "same_sink b b' \<Longrightarrow> same_sink (b64_flush K out b) (b64_flush K out b')"
  by (auto simp: same_sink_def b64_flush_def Let_def split: option.splits prod.splits)

lemma same_sink_flushes: "same_sink b b' \<Longrightarrow> same_sink (fold (b64_flush K) outs b) (fold (b64_flush K) outs b')"
  by (induction outs arbitrary: b b') (simp_all add: same_sink_flush)

lemma same_sink_refl [simp]: "same_sink b b"
  by (simp add: same_sink_def)

lemma same_sink_trans: "same_sink a b \<Longrightarrow> same_sink b c \<Longrightarrow> same_sink a c"
  by (simp add: same_sink_def)

lemma b64_Writes_scan:
  assumes "b64_scan (concat ts) (bQuad b, bDone b, []) = Inr (quad, fin, out)"
  shows "\<exists>b' outs. b64_Writes K ts b = Inr b' \<and> concat outs = out \<and> same_sink b' (fold (b64_flush K) outs b) \<and>
    bQuad b' = quad \<and> bDone b' = fin \<and> bTotal b' = bTotal b + int (length out) \<and>
    bTee b' = map_option (\<lambda>t. t @ out) (bTee b)"
  using assms
proof (induction ts arbitrary: b out)
  case Nil
  then show ?case by (intro exI[of _ b] exI[of _ "[]"]) (simp add: option.map_id[unfolded id_def])
next
  case (Cons t ts)
  obtain q1 f1 o1 where t: "b64_scan t (bQuad b, bDone b, []) = Inr (q1, f1, o1)"
    and rest: "b64_scan (concat ts) (q1, f1, o1) = Inr (quad, fin, out)"
    using Cons.prems by (auto simp: b64_scan_append split: sum.splits)
  obtain o2 where o2: "b64_scan (concat ts) (q1, f1, []) = Inr (quad, fin, o2)" "out = o1 @ o2"
    using rest b64_scan_out[of "concat ts" q1 f1 o1] by (auto split: sum.splits)
  define b1 where "b1 = b64_flush K o1 (b\<lparr>bQuad := q1, bDone := f1, bTotal := bTotal b + int (length o1)\<rparr>)"
  have w: "b64_Write K t b = Inr b1" by (simp add: b64_Write_def t b1_def)
  have "b64_scan (concat ts) (bQuad b1, bDone b1, []) = Inr (quad, fin, o2)"
    using o2 by (simp add: b1_def)
  then obtain b' outs where b': "b64_Writes K ts b1 = Inr b'" "concat outs = o2"
    "same_sink b' (fold (b64_flush K) outs b1)" "bQuad b' = quad" "bDone b' = fin"
    "bTotal b' = bTotal b1 + int (length o2)" "bTee b' = map_option (\<lambda>t. t @ o2) (bTee b1)"
    using Cons.IH by blast
  have "same_sink b1 (b64_flush K o1 b)"
    unfolding b1_def by (rule same_sink_flush) (simp add: same_sink_def)
  then have "same_sink b' (fold (b64_flush K) (o1 # outs) b)"
    using same_sink_trans[OF b'(3) same_sink_flushes] by simp
  then show ?case
    using w b' o2 by (intro exI[of _ b'] exI[of _ "o1 # outs"])
      (simp add: b1_def option.map_comp comp_def)
qed

lemma blob_loop_Writes:
  assumes "b64_Writes K ts b = Inr b'"
  shows "blob_loop K inflate info sz m None b (map BChars ts @ [BEnd]) = Some (end_blob K inflate info sz m b')"
  using assms by (induction ts arbitrary: b) (auto simp: Let_def split: sum.splits)

section \<open>Sinks\<close>

text \<open>What a sink promises: after its payload's first bytes \<open>bs\<close>, when they are good, a further
  write succeeds as long as what it has taken stays good. \<open>took\<close> relates a sink to what it has
  taken.\<close>

locale byte_sink =
  fixes put_bytes :: "byte list \<Rightarrow> 's \<Rightarrow> string option \<times> 's"
    and took :: "'s \<Rightarrow> byte list \<Rightarrow> bool"
    and good :: "byte list \<Rightarrow> bool"
  assumes write_good: "took s bs \<Longrightarrow> good (bs @ p) \<Longrightarrow> \<exists>s'. put_bytes p s = (None, s') \<and> took s' (bs @ p)"
    and good_prefix: "good (bs @ p) \<Longrightarrow> good bs"
begin

lemma flushes_good:
  assumes "sinkWrite K = put_bytes" and "bSink b = Some s" and "bOn b" and "bWerr b = None" and "took s bs"
    and "good (bs @ concat outs)"
  shows "\<exists>s'. bSink (fold (b64_flush K) outs b) = Some s' \<and> took s' (bs @ concat outs) \<and>
    bOn (fold (b64_flush K) outs b) \<and> bWerr (fold (b64_flush K) outs b) = None"
  using assms(2-)
proof (induction outs arbitrary: b s bs)
  case (Cons p outs)
  have "good ((bs @ p) @ concat outs)" using Cons.prems by simp
  then have "good (bs @ p)" by (rule good_prefix)
  then obtain s' where s': "put_bytes p s = (None, s')" "took s' (bs @ p)"
    using write_good Cons.prems by blast
  show ?case
  proof (cases "p = []")
    case True
    then show ?thesis using Cons.IH[of b s bs] Cons.prems by (simp add: b64_flush_def)
  next
    case False
    then have "bSink (b64_flush K p b) = Some s'" "bOn (b64_flush K p b)" "bWerr (b64_flush K p b) = None"
      using Cons.prems s' assms(1) by (simp_all add: b64_flush_def)
    then show ?thesis using Cons.IH[of "b64_flush K p b" s' "bs @ p"] Cons.prems s' by simp
  qed
qed simp

text \<open>A payload of good bytes, in any chunks and with any white space, is written whole.\<close>

lemma Writes_good:
  assumes "sinkWrite K = put_bytes" and "bSink b = Some s" and "bOn b" and "bWerr b = None" and "took s []"
    and "bQuad b = []" and "\<not> bDone b" and "good data" and "b64_chars (concat ts) = b64_encode data"
  shows "\<exists>b' s'. b64_Writes K ts b = Inr b' \<and> bSink b' = Some s' \<and> took s' data \<and> bWerr b' = None \<and>
    bQuad b' = [] \<and> bTotal b' = bTotal b + int (length data) \<and> bTee b' = map_option (\<lambda>t. t @ data) (bTee b)"
proof -
  have "b64_scan (concat ts) (bQuad b, bDone b, []) = Inr ([], length data mod 3 \<noteq> 0, data)"
    using assms(6,7) b64_scan_encode[of data "[]"] b64_scan_chars[of "concat ts" "([], False, [])"]
    by (simp add: assms(9))
  then obtain b' outs where b': "b64_Writes K ts b = Inr b'" "concat outs = data"
    "same_sink b' (fold (b64_flush K) outs b)" "bQuad b' = []" "bTotal b' = bTotal b + int (length data)"
    "bTee b' = map_option (\<lambda>t. t @ data) (bTee b)"
    using b64_Writes_scan[of ts b _ _ _ K] by blast
  then show ?thesis
    using flushes_good[of K b s "[]" outs] assms by (auto simp: same_sink_def)
qed

text \<open>So does a whole \<open>oneBLOB\<close>: the sink is opened, at once or with the first data, takes the payload
  and is closed.\<close>

lemma readOneBlob_good:
  fixes K :: "'s sink_ops" and inflate device pname ats ts
  defines "info \<equiv> blob_info device pname ats" and "sz \<equiv> TrimSpace (attr_value ats ''size'')"
  assumes K: "sinkWrite K = put_bytes" and o: "sinkOpen K info = Opened (Some s0)" and s0: "took s0 []"
    and "good data" and "b64_chars (concat ts) = b64_encode data" and "data \<noteq> []"
  shows "\<exists>b' s'. readOneBlob (Some K) inflate device pname ats (map BChars ts @ [BEnd]) =
      Some (end_blob K inflate info sz
        (zero_cMember\<lparr>cmName := biMember info, cmFormat := attr_value ats ''format'', cmSize := biSize info\<rparr>) b') \<and>
    bSink b' = Some s' \<and> took s' data \<and> bWerr b' = None \<and> bQuad b' = [] \<and> bTotal b' = int (length data) \<and>
    bTee b' = (if biCompressed info \<and> sz \<noteq> [] \<and> biSize info > 0 then Some data else None)"
proof -
  let ?m = "zero_cMember\<lparr>cmName := biMember info, cmFormat := attr_value ats ''format'', cmSize := biSize info\<rparr>"
  define b0 where "b0 = new_b64Writer\<lparr>bSink := Some s0, bOn := True,
    bTee := (if biCompressed info \<and> sz \<noteq> [] \<and> biSize info > 0 then Some [] else None)\<rparr>"
  have b0: "bSink b0 = Some s0" "bOn b0" "bWerr b0 = None" "bQuad b0 = []" "\<not> bDone b0" "bTotal b0 = 0"
    by (simp_all add: b0_def new_b64Writer_def)
  obtain b' s' where b': "b64_Writes K ts b0 = Inr b'" "bSink b' = Some s'" "took s' data" "bWerr b' = None"
    "bQuad b' = []" "bTotal b' = int (length data)" "bTee b' = map_option (\<lambda>t. t @ data) (bTee b0)"
    using Writes_good[of K b0 s0 data ts] K b0 assms(5-7) by auto
  have "readOneBlob (Some K) inflate device pname ats (map BChars ts @ [BEnd]) = Some (end_blob K inflate info sz ?m b')"
  proof (cases "biSize info > 0")
    case True
    have e: "engage (Some K) info new_b64Writer = Some (new_b64Writer\<lparr>bSink := Some s0, bOn := True\<rparr>)"
      by (simp add: engage_def o)
    have "(if biCompressed info \<and> sz \<noteq> [] \<and> biSize info > 0
        then (new_b64Writer\<lparr>bSink := Some s0, bOn := True\<rparr>)\<lparr>bTee := Some []\<rparr>
        else new_b64Writer\<lparr>bSink := Some s0, bOn := True\<rparr>) = b0"
      by (simp add: b0_def new_b64Writer_def)
    then show ?thesis
      using True blob_loop_Writes[OF b'(1), of inflate info sz ?m]
      unfolding readOneBlob_def info_def[symmetric] sz_def[symmetric] Let_def by (simp add: e)
  next
    case False
    have pre: "blob_loop K inflate info sz ?m (Some K) new_b64Writer (map BChars ts @ [BEnd]) =
        Some (end_blob K inflate info sz ?m b')"
      using b'(1) assms(7)
    proof (induction ts)
      case Nil
      have "b64_encode data \<noteq> []" using assms(8) by (cases data rule: b64_encode.cases) simp_all
      then show ?case using Nil.prems by (simp add: b64_chars_def)
    next
      case (Cons t ts)
      have new: "new_b64Writer\<lparr>bSink := Some s0, bOn := True\<rparr> = b0"
        using False by (simp add: b0_def new_b64Writer_def)
      show ?case
      proof (cases "hasB64Data t")
        case True
        then show ?thesis
          using Cons.prems(1) blob_loop_Writes[of K ts _ b' inflate info sz ?m]
          by (auto simp: Let_def engage_def o new split: sum.splits)
      next
        case blank: False
        then have none: "b64_chars t = []" by (auto simp: b64_chars_def hasB64Data_def)
        have id: "b64_Write K t b = Inr b" for b :: "'s b64Writer"
        proof -
          have "b64_scan t st = Inr st" for st
            using b64_scan_chars[of t st, symmetric] by (simp add: none)
          then show ?thesis by (simp add: b64_Write_def b64_flush_def)
        qed
        have "b64_chars (concat ts) = b64_encode data" "b64_Writes K ts b0 = Inr b'"
          using Cons.prems none by (simp_all add: b64_chars_def id)
        then show ?thesis using Cons.IH blank by (simp add: Let_def id)
      qed
    qed
    then show ?thesis
      using False unfolding readOneBlob_def info_def[symmetric] sz_def[symmetric] Let_def by simp
  qed
  moreover have "bTee b' = (if biCompressed info \<and> sz \<noteq> [] \<and> biSize info > 0 then Some data else None)"
    by (simp add: b'(7) b0_def)
  ultimately show ?thesis using b' by blast
qed

end

interpretation buffered: byte_sink "sinkWrite buffer_sink" "\<lambda>b bs. bbBuf b = bs \<and> bbInfo b = info"
    "\<lambda>bs. True" for info
  by unfold_locales (simp_all add: buffer_sink_def)

section \<open>The store\<close>

lemma blob_property_key [simp]:
  "cpDevice (blob_property s m seen p) = cpDevice p" "cpName (blob_property s m seen p) = cpName p"
  by (simp_all add: blob_property_def Let_def)

lemma cl_Property_applyBlobMeta:
  "cl_Property (applyBlobMeta d0 n0 s m seen c) d n =
     (if d = d0 \<and> n = n0 then map_option (blob_property s m seen) (cl_Property c d n) else cl_Property c d n)"
  by (auto simp: applyBlobMeta_def cl_Property_put split: option.split)
     (auto simp: cl_Property_def split: option.splits)

lemma client_inv_applyBlobMeta: "client_inv c \<Longrightarrow> client_inv (applyBlobMeta d0 n0 s m seen c)"
  unfolding client_inv_def store_inv_def cl_Property_applyBlobMeta
  by (auto simp: applyBlobMeta_def signalLocked_def put_property_def dom_def ring_inv_def
      split: option.splits if_splits)

lemma client_inv_soft: "client_inv (c\<lparr>softErrs := k\<rparr>) = client_inv c"
  by (simp add: client_inv_def store_inv_def ring_inv_def cl_Property_def)

lemma client_inv_vector_loop:
  "client_inv c \<Longrightarrow> client_inv (fst (vector_loop pr k inflate as seen vs c))"
proof (induction pr k inflate as seen vs c rule: vector_loop.induct)
  case (5 pr k inflate as seen bs ts vs c)
  show ?case
  proof (cases "readOneBlob (sinkFor k (attr_value as ''device'')) inflate (attr_value as ''device'')
      (attr_value as ''name'') bs ts")
    case (Some r)
    then show ?thesis
      using 5(1)[OF Some refl _ _ ] 5(2)
      by (cases "brErr r"; cases "brPanic r")
         (auto simp: client_inv_fail client_inv_soft Let_def split: prod.split)
  qed (use 5(2) in simp)
qed (simp_all add: client_inv_fail client_inv_applyBlobMeta)

definition blob_reader :: "(nat \<Rightarrow> bool) \<Rightarrow> 's sinks \<Rightarrow> (byte list \<Rightarrow> int option) \<Rightarrow> xml \<Rightarrow> client \<Rightarrow> client" where
  "blob_reader pr k inflate x c = fst (readBlobVector pr k inflate x c)"

lemma client_inv_blob_reader: "client_inv c \<Longrightarrow> client_inv (blob_reader pr k inflate x c)"
  by (cases x) (simp_all add: blob_reader_def readBlobVector_def client_inv_vector_loop)


section \<open>Facts the properties rest on\<close>

lemma b64_scan_length:
  assumes "b64_scan p (quad, fin, out) = Inr (quad', fin', out')" and "length quad < 4"
  shows "length quad' < 4 \<and> length quad' mod 4 = (length quad + length (b64_chars p)) mod 4"
  using assms
proof (induction p arbitrary: quad fin out)
  case (Cons ch p)
  show ?case
  proof (cases "b64_space ch")
    case False
    then have fin: "\<not> fin" using Cons.prems by (auto split: if_splits)
    show ?thesis
    proof (cases "length quad = 3")
      case True
      then obtain q0 q1 q2 where q: "quad = [q0, q1, q2]"
        by (metis (no_types) length_0_conv length_Suc_conv numeral_3_eq_3)
      then obtain bs where "b64_scan p ([], length bs < 3, out @ bs) = Inr (quad', fin', out')"
        using Cons.prems False fin by (auto split: sum.splits)
      from Cons.IH[OF this] show ?thesis using q False by (simp add: b64_chars_def)
    next
      case n: False
      have "b64_scan (ch # p) (quad, fin, out) = b64_scan p (quad @ [ch], fin, out)"
        using False fin n by (auto split: list.split)
      then show ?thesis
        using Cons.IH[of "quad @ [ch]" fin out] Cons.prems n False by (simp add: b64_chars_def)
    qed
  next
    case True
    then show ?thesis using Cons.IH[of quad fin out] Cons.prems by (simp add: b64_chars_def)
  qed
qed (simp add: b64_chars_def)

lemma b64_Writes_Inr:
  assumes "b64_Writes K ts b = Inr b'"
  shows "\<exists>fin out. b64_scan (concat ts) (bQuad b, bDone b, []) = Inr (bQuad b', fin, out)"
  using assms
proof (induction ts arbitrary: b)
  case (Cons t ts)
  obtain q1 f1 o1 where t: "b64_scan t (bQuad b, bDone b, []) = Inr (q1, f1, o1)"
    using Cons.prems by (auto simp: b64_Write_def split: sum.splits)
  define b1 where "b1 = b64_flush K o1 (b\<lparr>bQuad := q1, bDone := f1, bTotal := bTotal b + int (length o1)\<rparr>)"
  have "b64_Writes K ts b1 = Inr b'" using Cons.prems t by (simp add: b64_Write_def b1_def)
  from Cons.IH[OF this] obtain fin out where "b64_scan (concat ts) (q1, f1, []) = Inr (bQuad b', fin, out)"
    by (auto simp: b1_def)
  then show ?case using b64_scan_out[of "concat ts" q1 f1 o1] by (auto simp: b64_scan_append t)
qed simp

lemma blob_loop_LeftOpen:
  "blob_loop K inflate info sz m fn b (map BChars ts @ [BFail e]) = Some r \<Longrightarrow> brEnd r = LeftOpen"
  by (induction ts arbitrary: fn b)
     (auto simp: Let_def blob_failed_def split: option.splits sum.splits if_splits)

lemma blob_loop_truncated:
  assumes "blob_loop K inflate info sz m fn b (map BChars ts @ [BEnd]) = Some r" and "length (bQuad b) < 4"
    and "(length (bQuad b) + length (b64_chars (concat ts))) mod 4 \<noteq> 0"
  shows "brErr r \<noteq> None \<or> brPanic r"
  using assms
proof (induction ts arbitrary: fn b)
  case Nil
  then have "bQuad b \<noteq> []" by (auto simp: b64_chars_def)
  then show ?case
    using Nil by (auto simp: end_blob_def b64_finish_def firstErr_def Let_def split: prod.splits)
next
  case (Cons t ts)
  let ?start = "fn \<noteq> None \<and> hasB64Data t"
  show ?case
  proof (cases "if ?start then engage fn info b else Some b")
    case None
    then have "r = blob_failed m None True b" using Cons.prems(1) by (simp add: Let_def)
    then show ?thesis by (simp add: blob_failed_def)
  next
    case (Some b1)
    have q: "bQuad b1 = bQuad b"
      using Some by (auto simp: engage_def split: if_splits option.splits opened.splits)
    show ?thesis
    proof (cases "b64_scan t (bQuad b, bDone b1, [])")
      case (Inl e)
      then have "b64_Write K t b1 = Inl e" by (simp add: b64_Write_def q)
      then have "r = blob_failed m (Some e) False b1" using Cons.prems(1) Some by (simp add: Let_def)
      then show ?thesis by (simp add: blob_failed_def)
    next
      case (Inr st)
      obtain q1 f1 o1 where st: "st = (q1, f1, o1)" by (cases st)
      define b2 where "b2 = b64_flush K o1 (b1\<lparr>bQuad := q1, bDone := f1, bTotal := bTotal b1 + int (length o1)\<rparr>)"
      have w: "b64_Write K t b1 = Inr b2" using Inr by (simp add: b64_Write_def q st b2_def)
      have len: "length q1 < 4" "length q1 mod 4 = (length (bQuad b) + length (b64_chars t)) mod 4"
        using b64_scan_length[of t "bQuad b" "bDone b1" "[]" q1 f1 o1] Inr st Cons.prems(2) by auto
      have "(length q1 + length (b64_chars (concat ts))) mod 4 =
          (length (bQuad b) + length (b64_chars t) + length (b64_chars (concat ts))) mod 4"
        using len(2) by (metis mod_add_left_eq)
      also have "\<dots> = (length (bQuad b) + length (b64_chars (concat (t # ts)))) mod 4"
        by (simp add: b64_chars_def add.assoc)
      finally have "(length (bQuad b2) + length (b64_chars (concat ts))) mod 4 \<noteq> 0"
        using Cons.prems(3) by (simp add: b2_def)
      moreover have "blob_loop K inflate info sz m (if ?start then None else fn) b2 (map BChars ts @ [BEnd]) = Some r"
        using Cons.prems(1) Some w by (simp add: Let_def)
      ultimately show ?thesis using Cons.IH len(1) by (simp add: b2_def)
    qed
  qed
qed

lemma readOneBlob_loop:
  "\<exists>K m fn' b. bQuad b = [] \<and> (readOneBlob fn inflate device prop ats ts = Some (blob_failed m None True b) \<or>
     readOneBlob fn inflate device prop ats ts =
       blob_loop K inflate (blob_info device prop ats) (TrimSpace (attr_value ats ''size'')) m fn' b ts)"
proof -
  have new: "bQuad (new_b64Writer :: 'a b64Writer) = []" by (simp add: new_b64Writer_def)
  have e: "bQuad b1 = []" if "engage fn info (new_b64Writer :: 'a b64Writer) = Some b1" for fn info b1
    using that by (auto simp: engage_def new split: option.splits opened.splits)
  show ?thesis
    using new e unfolding readOneBlob_def Let_def
    by (auto split: option.split) (metis b64Writer.select_convs b64Writer.surjective b64Writer.update_convs)+
qed

section \<open>Properties\<close>

definition sample_attrs :: "(string \<times> string) list" where
  "sample_attrs = [(''name'', ''CCD1''), (''size'', ''3''), (''format'', ''.fits'')]"

text \<open>C8: A payload sent to a client that buffers BLOBs is handed over once, complete and in order,
  whatever chunks and white space its base64 text comes in, and is reported only when a declared
  size differs.\<close>

theorem BufferBlobs_delivers:
  assumes "b64_chars (concat ts) = b64_encode data" and "data \<noteq> []"
    and "biSize (blob_info device pname ats) \<le> make_limit"
  shows "\<exists>r. readOneBlob (Some buffer_sink) inflate device pname ats (map BChars ts @ [BEnd]) = Some r \<and>
    brErr r = None \<and> brEnd r = Closed None \<and>
    map_option bbGiven (brSink r) = Some (Some (blob_info device pname ats, data)) \<and>
    (\<not> biCompressed (blob_info device pname ats) \<and> biSize (blob_info device pname ats) = int (length data) \<longrightarrow>
      brSoft r = 0)"
proof -
  let ?info = "blob_info device pname ats"
  have "sinkOpen buffer_sink ?info = Opened (Some \<lparr>bbInfo = ?info, bbBuf = [], bbGiven = None\<rparr>)"
    using assms(3) by (simp add: buffer_sink_def)
  from buffered.readOneBlob_good[OF refl this, where data = data and ts = ts and inflate = inflate] assms
  show ?thesis
    by (auto simp: end_blob_def b64_finish_def firstErr_def size_mismatch_def buffer_sink_def)
qed

theorem BufferBlobs_delivers_witness:
  "\<exists>r. readOneBlob (Some buffer_sink) (\<lambda>b. None) ''CCD'' ''CCD1'' sample_attrs [BChars ''  A'', BChars ''QID'', BEnd] = Some r \<and>
     map_option bbGiven (brSink r) = Some (Some (blob_info ''CCD'' ''CCD1'' sample_attrs, [1, 2, 3]))"
proof -
  have "b64_chars (concat [''  A'', ''QID'']) = b64_encode [1, 2, 3]" by code_simp
  moreover have "biSize (blob_info ''CCD'' ''CCD1'' sample_attrs) = 3" by code_simp
  ultimately show ?thesis
    using BufferBlobs_delivers[of "[''  A'', ''QID'']" "[1, 2, 3]" "''CCD''" "''CCD1''" sample_attrs "\<lambda>b. None"]
    by (auto simp: make_limit_def)
qed

text \<open>Base64 text that does not fill its last quantum ends the connection with an error.\<close>

theorem truncated_payload_fails:
  assumes "readOneBlob fn inflate device pname ats (map BChars ts @ [BEnd]) = Some r"
    and "length (b64_chars (concat ts)) mod 4 \<noteq> 0" and "\<not> brPanic r"
  shows "brErr r \<noteq> None"
  using readOneBlob_loop[of fn inflate device pname ats "map BChars ts @ [BEnd]"] assms
    blob_loop_truncated[of _ inflate _ _ _ _ _ ts r]
  by (auto simp: blob_failed_def)

theorem truncated_payload_fails_witness:
  "map_option brErr (readOneBlob (None :: blobBuf sink_ops option) (\<lambda>b. None) [] [] [] [BChars ''AQI'', BEnd]) \<noteq> Some None"
proof
  assume "map_option brErr (readOneBlob (None :: blobBuf sink_ops option) (\<lambda>b. None) [] [] [] [BChars ''AQI'', BEnd]) = Some None"
  then obtain r where r: "readOneBlob (None :: blobBuf sink_ops option) (\<lambda>b. None) [] [] [] [BChars ''AQI'', BEnd] = Some r"
    "brErr r = None" by auto
  have "length (b64_chars (concat [''AQI''])) mod 4 \<noteq> 0" by code_simp
  moreover have "map_option brPanic (readOneBlob (None :: blobBuf sink_ops option) (\<lambda>b. None) [] [] [] [BChars ''AQI'', BEnd]) = Some False"
    by code_simp
  ultimately show False
    using truncated_payload_fails[of None "\<lambda>b. None" "[]" "[]" "[]" "[''AQI'']" r] r by simp
qed

text \<open>What the decoder makes of a payload does not depend on the sink: a sink that fails neither
  stops the stream nor changes the byte count or what the inflater is fed.\<close>

theorem sink_failure_isolated:
  assumes "b64_Writes K ts b = Inr b1" and "b64_Writes K' ts b = Inr b2"
  shows "bTotal b1 = bTotal b2 \<and> bTee b1 = bTee b2 \<and> bQuad b1 = bQuad b2 \<and>
    (\<forall>K''. \<exists>b3. b64_Writes K'' ts b = Inr b3)"
proof -
  obtain fin out where scan: "b64_scan (concat ts) (bQuad b, bDone b, []) = Inr (bQuad b1, fin, out)"
    using b64_Writes_Inr[OF assms(1)] by blast
  show ?thesis
    using b64_Writes_scan[OF scan, of K] b64_Writes_scan[OF scan, of K'] b64_Writes_scan[OF scan] assms
    by fastforce
qed

definition failing_sink :: "unit sink_ops" where
  "failing_sink = \<lparr>sinkOpen = (\<lambda>i. Opened (Some ())), sinkWrite = (\<lambda>bs s. (Some ''disk full'', s)),
     sinkClose = None, sinkCloseWithError = None\<rparr>"

theorem sink_failure_isolated_witness:
  "\<exists>b1 b2. b64_Writes failing_sink [''AQID''] (new_b64Writer\<lparr>bSink := Some (), bOn := True\<rparr>) = Inr b1 \<and>
     b64_Writes no_sink [''AQID''] (new_b64Writer\<lparr>bSink := Some (), bOn := True\<rparr>) = Inr b2 \<and>
     bTotal b1 = bTotal b2"
proof -
  have "b64_scan (concat [''AQID'']) ([], False, []) = Inr ([], False, [1, 2, 3])" by code_simp
  then have "\<exists>b1. b64_Writes K [''AQID''] (new_b64Writer\<lparr>bSink := Some (), bOn := True\<rparr>) = Inr b1" for K :: "unit sink_ops"
    using b64_Writes_scan[of "[''AQID'']" "new_b64Writer\<lparr>bSink := Some (), bOn := True\<rparr>" "[]" False "[1, 2, 3]" K]
    by (auto simp: new_b64Writer_def)
  then show ?thesis using sink_failure_isolated by blast
qed

text \<open>C40: When the stream breaks off inside a payload the sink is neither closed nor told of the
  error.\<close>

theorem broken_stream_leaves_sink_open:
  assumes "readOneBlob fn inflate device pname ats (map BChars ts @ [BFail e]) = Some r"
  shows "brEnd r = LeftOpen"
  using readOneBlob_loop[of fn inflate device pname ats "map BChars ts @ [BFail e]"] assms
    blob_loop_LeftOpen[of _ inflate _ _ _ _ _ ts e r]
  by (auto simp: blob_failed_def)

theorem broken_stream_leaves_sink_open_witness:
  "\<exists>r. readOneBlob (Some buffer_sink) (\<lambda>b. None) ''CCD'' ''CCD1'' sample_attrs [BChars ''AQID'', BFail ''EOF''] = Some r \<and>
     brSink r \<noteq> None \<and> brEnd r = LeftOpen"
proof -
  have "map_option (\<lambda>r. brSink r \<noteq> None)
      (readOneBlob (Some buffer_sink) (\<lambda>b. None) ''CCD'' ''CCD1'' sample_attrs [BChars ''AQID'', BFail ''EOF'']) = Some True"
    by code_simp
  then show ?thesis
    using broken_stream_leaves_sink_open[of "Some buffer_sink" "\<lambda>b. None" "''CCD''" "''CCD1''" sample_attrs "[''AQID'']" "''EOF''"]
    by auto
qed

text \<open>C38: A declared size beyond what Go can allocate makes a client that buffers BLOBs panic before
  any data has arrived.\<close>

theorem BufferBlobs_panics:
  assumes "biSize (blob_info device pname ats) > make_limit"
  shows "\<exists>r. readOneBlob (Some buffer_sink) inflate device pname ats ts = Some r \<and> brPanic r"
  using assms by (simp add: readOneBlob_def Let_def engage_def buffer_sink_def make_limit_def blob_failed_def)


theorem BufferBlobs_panics_witness:
  "\<exists>r. readOneBlob (Some buffer_sink) (\<lambda>b. None) ''CCD'' ''CCD1'' [(''size'', ''999999999999999'')] [] = Some r \<and> brPanic r"
proof (rule BufferBlobs_panics)
  show "biSize (blob_info ''CCD'' ''CCD1'' [(''size'', ''999999999999999'')]) > make_limit" by code_simp
qed


text \<open>C7: Whatever the server sends, the client's device list has no duplicates and names exactly the
  devices of the store, every property sits under its own device and name, and the message ring
  keeps its shape.\<close>

theorem client_invariant: "client_inv (readLoop (blob_reader pr k inflate) ins newClient)"
  by (intro client_inv_readLoop client_inv_new client_inv_blob_reader)

end
