(* ===== verification/ClientFitsStream.thy ===== *)
theory ClientFitsStream
  imports ClientFits ClientBlob
begin

text \<open>
  \<open>client/fitsstream.go\<close>: \<open>FITSWriter\<close>, which decodes a FITS payload as it arrives. Its fields
  are those of the Go struct; the pixel buffer is None until the header is complete, and the
  partial row holds the bytes of the row begun (\<open>held\<close> is its length). Sizes are computed with
  64-bit wrap-around, and an allocation or a slice that Go would panic on latches \<open>Panicked\<close>.
\<close>

section \<open>State\<close>

record FITSWriter =
  fwHdrBuf :: "byte list"
  fwHdr :: "string \<rightharpoonup> string"
  fwW :: int
  fwH :: int
  fwBitpix :: int
  fwPer :: int
  fwStride :: int
  fwBzero :: float64
  fwBscale :: float64
  fwBottomUp :: bool
  fwPix :: "16 word list option"
  fwRow :: "byte list"
  fwY :: int
  fwErr :: "fits_error option"
  fwDone :: bool

definition NewFITSWriter :: FITSWriter where
  "NewFITSWriter =
     \<lparr>fwHdrBuf = [], fwHdr = Map.empty, fwW = 0, fwH = 0, fwBitpix = 0, fwPer = 0, fwStride = 0,
      fwBzero = Fin 0, fwBscale = Fin 0, fwBottomUp = False, fwPix = None, fwRow = [], fwY = 0,
      fwErr = None, fwDone = False\<rparr>"

definition isFITSMagic :: "byte list \<Rightarrow> bool" where
  "isFITSMagic b \<longleftrightarrow> 6 \<le> length b \<and> chars_of (take 6 b) = ''SIMPLE''"

section \<open>Sizing\<close>

definition size_frame :: "(string \<rightharpoonup> string) \<Rightarrow> FITSWriter \<Rightarrow> fits_error option \<times> FITSWriter" where
  "size_frame hdr f =
     (let naxis = hdrInt hdr ''NAXIS'' 0
      in if naxis \<noteq> 2 \<and> naxis \<noteq> 3 then (Some (BadNaxis naxis), f)
         else let w = hdrInt hdr ''NAXIS1'' 0; h = hdrInt hdr ''NAXIS2'' 0; f1 = f\<lparr>fwW := w, fwH := h\<rparr>
         in if w \<le> 0 \<or> h \<le> 0 then (Some (BadDims w h), f1)
         else let bitpix = hdrInt hdr ''BITPIX'' 0; per = \<bar>go_div bitpix 8\<bar>;
                  f2 = f1\<lparr>fwBitpix := bitpix, fwPer := per\<rparr>
         in if per = 0 \<or> \<not> fitsSupported bitpix then (Some (BadBitpix bitpix), f2)
         else
           let bscale0 = hdrFloat hdr ''BSCALE'' (Fin 1);
               stride = wrap64 (w * per);
               n = wrap64 (w * h);
               f3 = f2\<lparr>fwBzero := hdrFloat hdr ''BZERO'' (Fin 0),
                       fwBscale := (if f64_eq bscale0 (Fin 0) then Fin 1 else bscale0),
                       fwBottomUp := fst (fitsBottomUp hdr), fwStride := stride\<rparr>
           in if \<not> can_make n 2 \<or> \<not> can_make stride 1 then (Some Panicked, f3)
              else (None, f3\<lparr>fwPix := Some (replicate (nat n) 0), fwRow := []\<rparr>))"

section \<open>Rows\<close>

text \<open>\<open>convert\<close>: one source row into its place. The slice bounds wrap like the rest.\<close>

definition convert :: "byte list \<Rightarrow> FITSWriter \<Rightarrow> FITSWriter" where
  "convert src f =
     (let dst = (if fwBottomUp f then fwH f - 1 - fwY f else fwY f);
          pix = (case fwPix f of Some p \<Rightarrow> p | None \<Rightarrow> []);
          lo = wrap64 (dst * fwW f);
          hi = wrap64 ((dst + 1) * fwW f)
      in if 0 \<le> lo \<and> lo \<le> hi \<and> hi \<le> int (length pix) \<and> (hi - lo) * fwPer f \<le> int (length src) then
           f\<lparr>fwPix := Some (take (nat lo) pix @
                           convertFITSRow (nat (hi - lo)) src (fwBitpix f) (fwBzero f) (fwBscale f) @
                           drop (nat hi) pix),
             fwY := fwY f + 1\<rparr>
         else f\<lparr>fwErr := Some Panicked\<rparr>)"

lemma convert_progress:
  "fwErr (convert src f) = Some Panicked \<or> (fwErr (convert src f) = fwErr f \<and> fwY (convert src f) = fwY f + 1)"
  by (simp add: convert_def Let_def)

lemma convert_fields [simp]:
  "fwH (convert src f) = fwH f" "fwW (convert src f) = fwW f" "fwStride (convert src f) = fwStride f"
  "fwRow (convert src f) = fwRow f" "fwPer (convert src f) = fwPer f" "fwBitpix (convert src f) = fwBitpix f"
  "fwBzero (convert src f) = fwBzero f" "fwBscale (convert src f) = fwBscale f"
  "fwBottomUp (convert src f) = fwBottomUp f" "fwHdr (convert src f) = fwHdr f"
  "fwHdrBuf (convert src f) = fwHdrBuf f" "fwDone (convert src f) = fwDone f"
  by (simp_all add: convert_def Let_def)

text \<open>The loop of \<open>Write\<close> once the header is complete.\<close>

function write_rows :: "byte list \<Rightarrow> FITSWriter \<Rightarrow> FITSWriter" where
  "write_rows p f =
     (if p = [] \<or> fwErr f = Some Panicked then f
      else if fwY f \<ge> fwH f then f
      else if fwRow f = [] \<and> int (length p) \<ge> fwStride f
        then write_rows (drop (nat (fwStride f)) p) (convert (take (nat (fwStride f)) p) f)
      else
        let room = fwStride f - int (length (fwRow f));
            n = (if room > int (length p) then length p else nat room);
            f1 = f\<lparr>fwRow := fwRow f @ take n p\<rparr>;
            f2 = (if int (length (fwRow f1)) \<ge> fwStride f1 then (convert (fwRow f1) f1)\<lparr>fwRow := []\<rparr> else f1)
        in write_rows (drop n p) f2)"
  by pat_completeness auto
termination
proof (relation "measures [\<lambda>(p, f). length p, \<lambda>(p, f). if fwErr f = Some Panicked then 0 else 1 + nat (fwH f - fwY f)]",
    goal_cases)
  case (2 p f)
  then show ?case using convert_progress[of "take (nat (fwStride f)) p" f] by auto
next
  case (3 p f room n f1 f2)
  then show ?case using convert_progress[of "fwRow f1" f1] by (auto split: if_splits)
qed simp

declare write_rows.simps [simp del]

section \<open>Write, Close and Frame\<close>

text \<open>\<open>consumeHeader\<close>: an error, or the bytes after a complete header, or None while it is not.\<close>

definition consumeHeader :: "byte list \<Rightarrow> FITSWriter \<Rightarrow> fits_error option \<times> byte list option \<times> FITSWriter" where
  "consumeHeader p f =
     (let f1 = f\<lparr>fwHdrBuf := fwHdrBuf f @ p\<rparr>; buf = fwHdrBuf f1
      in if length buf < fitsBlock then (None, None, f1)
         else case scanFITSHeader buf of
                Inl e \<Rightarrow> if fitsBlock \<le> length buf \<and> \<not> isFITSMagic buf then (Some e, None, f1) else (None, None, f1)
              | Inr (hdr, off) \<Rightarrow>
                 (case size_frame hdr f1 of
                    (Some e, f2) \<Rightarrow> (Some e, None, f2)
                  | (None, f2) \<Rightarrow> (None, Some (drop off buf), f2\<lparr>fwHdr := hdr, fwHdrBuf := []\<rparr>)))"

text \<open>The result of \<open>Write\<close> is its error; it is None exactly when it reports all bytes written.\<close>

definition FITS_Write :: "byte list \<Rightarrow> FITSWriter \<Rightarrow> fits_error option \<times> FITSWriter" where
  "FITS_Write p f =
     (case fwErr f of
        Some e \<Rightarrow> (Some e, f)
      | None \<Rightarrow>
          if p = [] then (None, f)
          else if fwPix f = None then
            (case consumeHeader p f of
               (Some e, _, f1) \<Rightarrow> (Some e, f1\<lparr>fwErr := Some e\<rparr>)
             | (None, None, f1) \<Rightarrow> (None, f1)
             | (None, Some rest, f1) \<Rightarrow> (let f2 = write_rows rest f1 in (fwErr f2, f2)))
          else (let f2 = write_rows p f in (fwErr f2, f2)))"

definition FITS_Close :: "FITSWriter \<Rightarrow> fits_error option \<times> FITSWriter" where
  "FITS_Close f =
     (case fwErr f of
        Some e \<Rightarrow> (Some e, f)
      | None \<Rightarrow>
          let f1 = f\<lparr>fwDone := True\<rparr>
          in if fwPix f1 = None then
               (Some (NotFITS (length (fwHdrBuf f1))), f1\<lparr>fwErr := Some (NotFITS (length (fwHdrBuf f1)))\<rparr>)
             else if fwY f1 < fwH f1 then
               (Some (IncompleteFITS (fwY f1) (fwH f1)), f1\<lparr>fwErr := Some (IncompleteFITS (fwY f1) (fwH f1))\<rparr>)
             else (None, f1))"

definition FITS_Frame :: "FITSWriter \<Rightarrow> fits_error + Frame" where
  "FITS_Frame f =
     (case fwErr f of
        Some e \<Rightarrow> Inl e
      | None \<Rightarrow>
          if \<not> fwDone f then Inl NotComplete
          else
            let fr = \<lparr>frWidth = fwW f, frHeight = fwH f,
                      frPix = (case fwPix f of Some p \<Rightarrow> p | None \<Rightarrow> []), frBayer = False, frBayerX = 0,
                      frBayerY = 0, frBitPix = fwBitpix f, frHeader = fwHdr f\<rparr>
            in Inr (if hdrInt (fwHdr f) ''NAXIS'' 0 = 2 then fitsMosaic fr (fwHdr f) (fwBottomUp f) else fr))"

section \<open>Rows in place\<close>

lemma concat_rows_update:
  assumes "\<And>y. length (g y) = w" and "length r = w" and "d < h"
  shows "take (d * w) (concat (map g [0..<h])) @ r @ drop (Suc d * w) (concat (map g [0..<h])) =
    concat (map (g(d := r)) [0..<h])"
proof -
  have split: "[0..<h] = [0..<d] @ [d] @ [Suc d..<h]"
    using assms(3) by (metis append_Cons append_Nil le_add1 less_imp_le_nat plus_nat.add_0 upt_add_eq_append upt_conv_Cons le_add_diff_inverse)
  have len: "length (concat (map g [0..<d])) = d * w" using assms(1) by (rule concat_rows_length)
  have pre: "map (g(d := r)) [0..<d] = map g [0..<d]" and post: "map (g(d := r)) [Suc d..<h] = map g [Suc d..<h]"
    by auto
  show ?thesis unfolding split map_append concat_append pre post by (simp add: len assms(1))
qed

lemma source_row_less: "d < h \<Longrightarrow> source_row b h d < h"
  by (auto simp: source_row_def)

lemma source_row_place:
  assumes "y < h" and "d < h"
  shows "source_row b h d < Suc y \<longleftrightarrow> d = source_row b h y \<or> source_row b h d < y"
    and "source_row b h (source_row b h y) = y"
  using assms by (auto simp: source_row_def)

text \<open>What has been decoded after the bytes \<open>ds\<close> of the data: the complete rows, each in its place,
  and zeros.\<close>

definition fits_w :: "(string \<rightharpoonup> string) \<Rightarrow> nat" where
  "fits_w hdr = nat (hdrInt hdr ''NAXIS1'' 0)"

definition fits_h :: "(string \<rightharpoonup> string) \<Rightarrow> nat" where
  "fits_h hdr = nat (hdrInt hdr ''NAXIS2'' 0)"

definition fits_stride :: "(string \<rightharpoonup> string) \<Rightarrow> nat" where
  "fits_stride hdr = fits_w hdr * fits_per hdr"

definition rows_done :: "(string \<rightharpoonup> string) \<Rightarrow> byte list \<Rightarrow> nat" where
  "rows_done hdr ds = min (fits_h hdr) (length ds div fits_stride hdr)"

definition partial_pix :: "(string \<rightharpoonup> string) \<Rightarrow> byte list \<Rightarrow> nat \<Rightarrow> 16 word list" where
  "partial_pix hdr ds y =
     concat (map (\<lambda>d. let s = source_row (fst (fitsBottomUp hdr)) (fits_h hdr) d
                      in if s < y then fits_row hdr ds s else replicate (fits_w hdr) 0) [0..<fits_h hdr])"

definition sized :: "(string \<rightharpoonup> string) \<Rightarrow> FITSWriter \<Rightarrow> bool" where
  "sized hdr f \<longleftrightarrow>
     fwHdr f = hdr \<and> fwW f = int (fits_w hdr) \<and> fwH f = int (fits_h hdr) \<and>
     fwBitpix f = hdrInt hdr ''BITPIX'' 0 \<and> fwPer f = int (fits_per hdr) \<and>
     fwStride f = int (fits_stride hdr) \<and> fwBzero f = hdrFloat hdr ''BZERO'' (Fin 0) \<and>
     fwBscale f = fits_scale hdr \<and> fwBottomUp f = fst (fitsBottomUp hdr) \<and> fwErr f = None \<and> \<not> fwDone f"

definition rows_state :: "(string \<rightharpoonup> string) \<Rightarrow> byte list \<Rightarrow> FITSWriter \<Rightarrow> bool" where
  "rows_state hdr ds f \<longleftrightarrow>
     sized hdr f \<and> fwY f = int (rows_done hdr ds) \<and>
     fwRow f = (if rows_done hdr ds < fits_h hdr then drop (rows_done hdr ds * fits_stride hdr) ds else []) \<and>
     fwPix f = Some (partial_pix hdr ds (rows_done hdr ds))"

text \<open>A header whose sizes do not wrap.\<close>

definition fits_small :: "(string \<rightharpoonup> string) \<Rightarrow> bool" where
  "fits_small hdr \<longleftrightarrow> fits_shape_ok hdr \<and> int (fits_w hdr) * int (fits_h hdr) * int (fits_per hdr) \<le> 2 ^ 46"

lemma fits_small_facts:
  assumes "fits_small hdr"
  shows "0 < fits_w hdr" "0 < fits_h hdr" "0 < fits_per hdr" "0 < fits_stride hdr"
    "int (fits_w hdr) * int (fits_h hdr) \<le> 2 ^ 46" "int (fits_w hdr) * int (fits_per hdr) \<le> 2 ^ 46"
    "hdrInt hdr ''NAXIS1'' 0 = int (fits_w hdr)" "hdrInt hdr ''NAXIS2'' 0 = int (fits_h hdr)"
proof -
  show pos: "0 < fits_w hdr" "0 < fits_h hdr" "0 < fits_per hdr"
    and "hdrInt hdr ''NAXIS1'' 0 = int (fits_w hdr)" "hdrInt hdr ''NAXIS2'' 0 = int (fits_h hdr)"
    using assms fits_per_pos by (auto simp: fits_small_def fits_shape_ok_def fits_w_def fits_h_def)
  then show "0 < fits_stride hdr" by (simp add: fits_stride_def)
  have t: "int (fits_w hdr) * int (fits_h hdr) * int (fits_per hdr) \<le> 2 ^ 46"
    using assms by (simp add: fits_small_def)
  have "int (fits_w hdr) * int (fits_h hdr) * 1 \<le> int (fits_w hdr) * int (fits_h hdr) * int (fits_per hdr)"
    using pos by (intro mult_left_mono) auto
  then show "int (fits_w hdr) * int (fits_h hdr) \<le> 2 ^ 46" using t by simp
  have "int (fits_w hdr) * int (fits_per hdr) * 1 \<le> int (fits_w hdr) * int (fits_per hdr) * int (fits_h hdr)"
    using pos by (intro mult_left_mono) auto
  then show "int (fits_w hdr) * int (fits_per hdr) \<le> 2 ^ 46" using t by (simp add: ac_simps)
qed

lemma fits_row_length: "length (fits_row hdr ds s) = fits_w hdr"
  by (simp add: fits_row_def Let_def fits_w_def)

lemma fits_row_alt:
  "fits_row hdr ds s =
     convertFITSRow (fits_w hdr) (take (fits_stride hdr) (drop (s * fits_stride hdr) ds))
       (hdrInt hdr ''BITPIX'' 0) (hdrFloat hdr ''BZERO'' (Fin 0)) (fits_scale hdr)"
  by (simp add: fits_row_def fits_stride_def fits_w_def Let_def)

lemma fits_row_append:
  assumes "Suc s * fits_stride hdr \<le> length ds"
  shows "fits_row hdr (ds @ p) s = fits_row hdr ds s"
proof -
  have "take (fits_stride hdr) (drop (s * fits_stride hdr) (ds @ p)) = take (fits_stride hdr) (drop (s * fits_stride hdr) ds)"
    using assms by simp
  then show ?thesis unfolding fits_row_alt by (rule arg_cong)
qed

lemma partial_pix_append:
  assumes "y * fits_stride hdr \<le> length ds"
  shows "partial_pix hdr (ds @ p) y = partial_pix hdr ds y"
proof -
  have "fits_row hdr (ds @ p) s = fits_row hdr ds s" if "s < y" for s
  proof (rule fits_row_append)
    have "Suc s * fits_stride hdr \<le> y * fits_stride hdr" using that by (intro mult_le_mono1) simp
    then show "Suc s * fits_stride hdr \<le> length ds" using assms by simp
  qed
  then show ?thesis by (simp add: partial_pix_def Let_def cong: if_cong)
qed

lemma rows_done_le: "rows_done hdr ds * fits_stride hdr \<le> length ds"
proof -
  have "rows_done hdr ds * fits_stride hdr \<le> length ds div fits_stride hdr * fits_stride hdr"
    unfolding rows_done_def by (intro mult_le_mono1) simp
  also have "\<dots> \<le> length ds" by simp
  finally show ?thesis .
qed

text \<open>Converting the next row.\<close>

lemma convert_row:
  assumes small: "fits_small hdr" and f: "sized hdr f" "fwY f = int y" "y < fits_h hdr"
    "fwPix f = Some (partial_pix hdr ds y)" and ds: "length ds = y * fits_stride hdr"
    and src: "length src = fits_stride hdr"
  shows "sized hdr (convert src f) \<and> fwY (convert src f) = int (Suc y) \<and>
    fwPix (convert src f) = Some (partial_pix hdr (ds @ src) (Suc y))"
proof -
  note pos = fits_small_facts[OF small]
  let ?w = "fits_w hdr" and ?h = "fits_h hdr" and ?bu = "fst (fitsBottomUp hdr)"
  let ?d = "source_row ?bu ?h y"
  let ?g = "\<lambda>d. let s = source_row ?bu ?h d in if s < y then fits_row hdr ds s else replicate ?w 0"
  have d: "?d < ?h" using f(3) by (rule source_row_less)
  have dst: "(if fwBottomUp f then fwH f - 1 - fwY f else fwY f) = int ?d"
    using f(1,2,3) by (auto simp: sized_def source_row_def)
  have "Suc ?d * ?w \<le> ?h * ?w" using d by (intro mult_le_mono1) simp
  then have hi: "int (Suc ?d * ?w) \<le> int (?h * ?w)" by (rule zle_int[THEN iffD2])
  then have bound: "int (Suc ?d * ?w) < 2 ^ 63" using pos(5) by (simp add: ac_simps)
  have lo: "wrap64 (int ?d * fwW f) = int (?d * ?w)"
  proof -
    have "int (?d * ?w) \<le> int (Suc ?d * ?w)" by simp
    then show ?thesis using bound f(1) by (simp add: sized_def)
  qed
  have hiw: "wrap64 ((int ?d + 1) * fwW f) = int (Suc ?d * ?w)"
    using bound f(1) by (simp add: sized_def algebra_simps)
  have len: "length (partial_pix hdr ds y) = ?h * ?w"
    unfolding partial_pix_def by (rule concat_rows_length) (simp add: fits_row_length Let_def)
  have row: "convertFITSRow ?w src (fwBitpix f) (fwBzero f) (fwBscale f) = fits_row hdr (ds @ src) y"
    using f(1) ds src by (simp add: sized_def fits_row_def Let_def fits_stride_def fits_w_def)
  have pix: "take (?d * ?w) (partial_pix hdr ds y) @ fits_row hdr (ds @ src) y @ drop (Suc ?d * ?w) (partial_pix hdr ds y)
      = partial_pix hdr (ds @ src) (Suc y)"
  proof -
    have "(?g(?d := fits_row hdr (ds @ src) y)) d =
        (let s = source_row ?bu ?h d in if s < Suc y then fits_row hdr (ds @ src) s else replicate ?w 0)"
      if "d < ?h" for d
    proof -
      have old: "fits_row hdr (ds @ src) s = fits_row hdr ds s" if "s < y" for s
      proof (rule fits_row_append)
        have "Suc s * fits_stride hdr \<le> y * fits_stride hdr" using that by (intro mult_le_mono1) simp
        then show "Suc s * fits_stride hdr \<le> length ds" using ds by simp
      qed
      have inj: "source_row ?bu ?h d = y \<longleftrightarrow> d = ?d"
        using that f(3) by (auto simp: source_row_def)
      show ?thesis
        using source_row_place[OF f(3) that, of ?bu] inj old by (auto simp: Let_def)
    qed
    then have m: "map (?g(?d := fits_row hdr (ds @ src) y)) [0..<?h] =
        map (\<lambda>d. let s = source_row ?bu ?h d in if s < Suc y then fits_row hdr (ds @ src) s else replicate ?w 0) [0..<?h]"
      by (intro map_cong) auto
    have "take (?d * ?w) (concat (map ?g [0..<?h])) @ fits_row hdr (ds @ src) y @ drop (Suc ?d * ?w) (concat (map ?g [0..<?h]))
        = concat (map (?g(?d := fits_row hdr (ds @ src) y)) [0..<?h])"
      by (rule concat_rows_update) (simp_all add: fits_row_length d Let_def)
    then show ?thesis unfolding partial_pix_def m .
  qed
  have src_ok: "(int (Suc ?d * ?w) - int (?d * ?w)) * fwPer f \<le> int (length src)"
    using f(1) src by (simp add: sized_def fits_stride_def)
  have width: "nat (int (Suc ?d * ?w) - int (?d * ?w)) = ?w" by simp
  have cond: "0 \<le> int (?d * ?w) \<and> int (?d * ?w) \<le> int (Suc ?d * ?w) \<and> int (Suc ?d * ?w) \<le> int (?h * ?w) \<and>
      (int (Suc ?d * ?w) - int (?d * ?w)) * fwPer f \<le> int (length src)"
    using hi src_ok by simp
  show ?thesis
    using f(1,2)
    unfolding convert_def dst Let_def lo hiw f(4) option.case len width nat_int row pix if_P[OF cond]
    by (simp add: sized_def)
qed

lemma rows_done_exact: "0 < fits_stride hdr \<Longrightarrow> length ds = y * fits_stride hdr \<Longrightarrow> y \<le> fits_h hdr \<Longrightarrow> rows_done hdr ds = y"
  by (simp add: rows_done_def)

lemma rows_state_full:
  assumes small: "fits_small hdr" and st: "rows_state hdr ds f" and full: "rows_done hdr ds = fits_h hdr"
  shows "rows_state hdr (ds @ p) f"
proof -
  have "length ds div fits_stride hdr \<le> (length ds + length p) div fits_stride hdr" by (rule div_le_mono) simp
  then have "rows_done hdr (ds @ p) = fits_h hdr" using full by (simp add: rows_done_def)
  then show ?thesis
    using st full partial_pix_append[of "fits_h hdr" hdr ds p] rows_done_le[of hdr ds] by (simp add: rows_state_def)
qed

text \<open>A row in progress grows, or is completed and converted.\<close>

lemma rows_state_grow:
  assumes small: "fits_small hdr" and st: "rows_state hdr ds f" and y: "rows_done hdr ds < fits_h hdr"
    and short: "length (fwRow f) + length q < fits_stride hdr"
  shows "rows_state hdr (ds @ q) (f\<lparr>fwRow := fwRow f @ q\<rparr>)"
proof -
  let ?S = "fits_stride hdr" and ?y = "rows_done hdr ds"
  have S: "0 < ?S" using small by (rule fits_small_facts)
  have yd: "?y = length ds div ?S" using y by (simp add: rows_done_def)
  have row: "fwRow f = drop (?y * ?S) ds" using st y by (simp add: rows_state_def)
  have "length (fwRow f) = length ds - ?y * ?S" by (simp add: row)
  then have "(length ds + length q) div ?S = ?y"
    using short rows_done_le[of hdr ds] by (intro div_nat_eqI) (auto simp: algebra_simps)
  then have done_eq: "rows_done hdr (ds @ q) = ?y" using y by (simp add: rows_done_def)
  show ?thesis
    using st y row rows_done_le[of hdr ds] partial_pix_append[of ?y hdr ds q]
    by (simp add: rows_state_def done_eq sized_def)
qed

lemma rows_state_complete:
  assumes small: "fits_small hdr" and st: "rows_state hdr ds f" and y: "rows_done hdr ds < fits_h hdr"
    and len: "length (fwRow f) + length q = fits_stride hdr" and g: "sized hdr g" "fwY g = fwY f" "fwPix g = fwPix f"
  shows "rows_state hdr (ds @ q) ((convert (fwRow f @ q) g)\<lparr>fwRow := []\<rparr>)"
proof -
  let ?S = "fits_stride hdr" and ?y = "rows_done hdr ds"
  have S: "0 < ?S" using small by (rule fits_small_facts)
  have row: "fwRow f = drop (?y * ?S) ds" using st y by (simp add: rows_state_def)
  define ds0 where "ds0 = take (?y * ?S) ds"
  have ds: "ds = ds0 @ fwRow f" by (simp add: ds0_def row)
  have l0: "length ds0 = ?y * ?S" using rows_done_le[of hdr ds] by (simp add: ds0_def)
  have pix: "fwPix g = Some (partial_pix hdr ds0 ?y)"
    using st g(3) partial_pix_append[of ?y hdr ds0 "fwRow f"] l0 ds by (simp add: rows_state_def)
  have src: "length (fwRow f @ q) = ?S" using len by simp
  have gy: "fwY g = int ?y" using g(2) st by (simp add: rows_state_def)
  note c = convert_row[OF small g(1) gy y pix l0 src]
  have whole: "ds0 @ fwRow f @ q = ds @ q" using ds by simp
  have "length (ds @ q) = Suc ?y * ?S" using l0 ds len by simp
  then have d: "rows_done hdr (ds @ q) = Suc ?y" using S y by (intro rows_done_exact) auto
  have nil: "drop (Suc ?y * ?S) (ds @ q) = []" using \<open>length (ds @ q) = Suc ?y * ?S\<close> by simp
  show ?thesis
    using c unfolding rows_state_def d whole nil by (simp add: sized_def)
qed

lemma write_rows_state:
  assumes small: "fits_small hdr" and "rows_state hdr ds f"
  shows "rows_state hdr (ds @ p) (write_rows p f)"
  using assms(2)
proof (induction p f arbitrary: ds rule: write_rows.induct)
  case (1 p f)
  let ?S = "fits_stride hdr" and ?y = "rows_done hdr ds"
  note st = "1.prems"
  have S: "0 < ?S" using small by (rule fits_small_facts)
  have sz: "sized hdr f" "fwStride f = int ?S" "fwErr f = None" "fwH f = int (fits_h hdr)" "fwY f = int ?y"
    using st by (auto simp: rows_state_def sized_def)
  show ?case
  proof (cases "p = []")
    case True
    then show ?thesis using st by (simp add: write_rows.simps)
  next
    case p: False
    then have c1: "\<not> (p = [] \<or> fwErr f = Some Panicked)" using sz by simp
    show ?thesis
    proof (cases "fwY f \<ge> fwH f")
      case True
      then have "write_rows p f = f" using p sz by (simp add: write_rows.simps[of p f])
      moreover have "?y = fits_h hdr" using True sz by (simp add: rows_done_def)
      ultimately show ?thesis using rows_state_full[OF small st] by simp
    next
      case c2: False
      then have y: "?y < fits_h hdr" using sz by simp
      show ?thesis
      proof (cases "fwRow f = [] \<and> int (length p) \<ge> fwStride f")
        case c3: True
        let ?q = "take ?S p"
        have q: "length (fwRow f) + length ?q = ?S" using c3 sz by simp
        have nil: "fwRow f = []" using c3 by simp
        have eta: "(convert ?q f)\<lparr>fwRow := []\<rparr> = convert ?q f" using nil by simp
        have st': "rows_state hdr (ds @ ?q) (convert ?q f)"
          using rows_state_complete[OF small st y q sz(1) refl refl] unfolding nil append_Nil eta .
        have e: "nat (fwStride f) = ?S" using sz by simp
        have "write_rows p f = write_rows (drop ?S p) (convert ?q f)"
          using c1 c2 c3 e by (subst write_rows.simps) simp
        moreover have "rows_state hdr ((ds @ ?q) @ drop ?S p) (write_rows (drop ?S p) (convert ?q f))"
          using "1.IH"(1)[OF c1 c2 c3] st' unfolding e by blast
        ultimately show ?thesis by simp
      next
        case c3: False
        define room where "room = fwStride f - int (length (fwRow f))"
        define n where "n = (if room > int (length p) then length p else nat room)"
        define f1 where "f1 = f\<lparr>fwRow := fwRow f @ take n p\<rparr>"
        define f2 where "f2 = (if int (length (fwRow f1)) \<ge> fwStride f1 then (convert (fwRow f1) f1)\<lparr>fwRow := []\<rparr> else f1)"
        have w: "write_rows p f = write_rows (drop n p) f2"
          unfolding write_rows.simps[of p f] if_not_P[OF c1] if_not_P[OF c2] if_not_P[OF c3] Let_def
            f2_def f1_def n_def room_def by (rule refl)
        have row: "fwRow f = drop (?y * ?S) ds" using st y by (simp add: rows_state_def)
        have "length (fwRow f) = length ds mod ?S"
          using y by (simp add: row rows_done_def minus_div_mult_eq_mod)
        then have held: "length (fwRow f) < ?S" using S by simp
        have st': "rows_state hdr (ds @ take n p) f2"
        proof (cases "room > int (length p)")
          case True
          then have "length (fwRow f) + length (take n p) < ?S" "f2 = f1"
            using sz by (auto simp: room_def n_def f2_def f1_def)
          then show ?thesis using rows_state_grow[OF small st y] by (simp add: f1_def)
        next
          case False
          then have q: "length (fwRow f) + length (take n p) = ?S"
            using sz held by (auto simp: room_def n_def)
          have g: "sized hdr f1" "fwY f1 = fwY f" "fwPix f1 = fwPix f" using sz(1) by (simp_all add: f1_def sized_def)
          have "f2 = (convert (fwRow f @ take n p) f1)\<lparr>fwRow := []\<rparr>"
            using q sz by (simp add: f2_def f1_def)
          then show ?thesis using rows_state_complete[OF small st y q g] by simp
        qed
        have "rows_state hdr ((ds @ take n p) @ drop n p) (write_rows (drop n p) f2)"
          using "1.IH"(2)[OF c1 c2 c3 room_def n_def f1_def f2_def st'] .
        then show ?thesis by (simp add: w)
      qed
    qed
  qed
qed

end
