(* ===== verification/ClientFitsSink.thy ===== *)
theory ClientFitsSink
  imports ClientFitsStream
begin

text \<open>
  \<open>FITSWriter\<close> against \<open>DecodeFITS\<close>: what the writer holds after any prefix of a payload, that it
  is a sink in the sense of the BLOB decoder, and that both decoders accept the same payloads
  and give the same frames.
\<close>


section \<open>The header as it arrives\<close>

lemma scan_blocks_append:
  "scan_blocks raw off hdr = Inr (hdr', off') \<Longrightarrow>
     scan_blocks (raw @ p) off hdr = Inr (hdr', off') \<and> off' \<le> length raw"
proof (induction raw off hdr rule: scan_blocks.induct)
  case (1 raw off hdr)
  show ?case
  proof (cases "off + fitsBlock \<le> length raw")
    case True
    then have blk: "take fitsBlock (drop off (raw @ p)) = take fitsBlock (drop off raw)" by simp
    obtain e h1 where s: "scan_cards (fitsBlock div fitsCard) (take fitsBlock (drop off raw)) hdr = (e, h1)"
      by fastforce
    have long: "off + fitsBlock \<le> length (raw @ p)" using True by simp
    have eq: "scan_blocks r off hdr = (if e then Inr (h1, off + fitsBlock) else scan_blocks r (off + fitsBlock) h1)"
      if "off + fitsBlock \<le> length r" "take fitsBlock (drop off r) = take fitsBlock (drop off raw)" for r
      using that s by (subst scan_blocks.simps) (simp split: bool.split)
    show ?thesis
    proof (cases e)
      case True
      then show ?thesis using eq[OF long blk] eq[OF \<open>off + fitsBlock \<le> length raw\<close> refl] "1.prems"
          \<open>off + fitsBlock \<le> length raw\<close> by simp
    next
      case False
      then have "scan_blocks raw (off + fitsBlock) h1 = Inr (hdr', off')"
        using eq[OF \<open>off + fitsBlock \<le> length raw\<close> refl] "1.prems" by simp
      then show ?thesis using "1.IH"[OF True s[symmetric]] False eq[OF long blk] by simp
    qed
  next
    case False
    then show ?thesis using "1.prems" by (subst (asm) scan_blocks.simps) simp
  qed
qed

lemma scanFITSHeader_append:
  assumes "scanFITSHeader ds = Inr (hdr, off)"
  shows "scanFITSHeader (ds @ p) = Inr (hdr, off)" and "off \<le> length ds"
  using assms scan_blocks_append[of ds 0 Map.empty hdr off p]
  by (auto simp: scanFITSHeader_def fitsBlock_def split: if_splits)

lemma scan_needs_magic:
  assumes "scanFITSHeader (ds @ p) = Inr ho" and "fitsBlock \<le> length ds"
  shows "TrimSpace (chars_of (take 6 ds)) = ''SIMPLE''"
  using assms by (simp add: scanFITSHeader_def fitsBlock_def split: if_splits)

lemma magic_iff:
  assumes "fitsBlock \<le> length b"
  shows "isFITSMagic b \<longleftrightarrow> TrimSpace (chars_of (take 6 b)) = ''SIMPLE''"
proof
  assume "TrimSpace (chars_of (take 6 b)) = ''SIMPLE''"
  moreover from this have "TrimSpace (chars_of (take 6 b)) = chars_of (take 6 b)"
    by (intro TrimSpace_full) (simp add: chars_of_def)
  ultimately show "isFITSMagic b" using assms by (simp add: isFITSMagic_def fitsBlock_def)
next
  assume "isFITSMagic b"
  then have c: "chars_of (take 6 b) = ''SIMPLE''" by (simp add: isFITSMagic_def)
  have "TrimSpace ''SIMPLE'' = ''SIMPLE''" by code_simp
  then show "TrimSpace (chars_of (take 6 b)) = ''SIMPLE''" using c by simp
qed

section \<open>A payload in pieces\<close>

text \<open>The state after the bytes \<open>ds\<close> of a payload.\<close>

definition fits_took :: "FITSWriter \<Rightarrow> byte list \<Rightarrow> bool" where
  "fits_took f ds \<longleftrightarrow>
     (case scanFITSHeader ds of
        Inl _ \<Rightarrow> f = NewFITSWriter\<lparr>fwHdrBuf := ds\<rparr>
      | Inr (hdr, off) \<Rightarrow> rows_state hdr (drop off ds) f)"

text \<open>The prefixes of a payload that \<open>DecodeFITS\<close> accepts.\<close>

definition fits_good :: "byte list \<Rightarrow> bool" where
  "fits_good ds \<longleftrightarrow> (\<exists>p fr. DecodeFITS (ds @ p) = Inr fr \<and> length (ds @ p) \<le> 2 ^ 46)"

lemma DecodeFITS_small:
  assumes "DecodeFITS blob = Inr fr" and "length blob \<le> 2 ^ 46"
  shows "\<exists>hdr off. scanFITSHeader blob = Inr (hdr, off) \<and> fits_small hdr \<and>
    fits_h hdr * fits_stride hdr \<le> length (drop off blob) \<and> fr = fits_frame hdr (fits_pix hdr (drop off blob))"
proof -
  obtain hdr off where h: "scanFITSHeader blob = Inr (hdr, off)" "fits_shape_ok hdr"
    "hdrInt hdr ''NAXIS1'' 0 * hdrInt hdr ''NAXIS2'' 0 * int (fits_per hdr) \<le> int (length (drop off blob))"
    "fr = fits_frame hdr (fits_pix hdr (drop off blob))"
    using assms(1) unfolding DecodeFITS_iff by blast
  have n: "hdrInt hdr ''NAXIS1'' 0 = int (fits_w hdr)" "hdrInt hdr ''NAXIS2'' 0 = int (fits_h hdr)"
    using h(2) by (simp_all add: fits_shape_ok_def fits_w_def fits_h_def)
  have "int (length (drop off blob)) \<le> 2 ^ 46"
  proof -
    have "length (drop off blob) \<le> 2 ^ 46" using le_trans[OF diff_le_self assms(2)] by (simp only: length_drop)
    then have "int (length (drop off blob)) \<le> int (2 ^ 46)" by (rule zle_int[THEN iffD2])
    then show ?thesis by (simp only: of_nat_power of_nat_numeral)
  qed
  then have "fits_small hdr" using h(2,3) unfolding fits_small_def n by linarith
  moreover have "int (fits_h hdr * fits_stride hdr) \<le> int (length (drop off blob))"
    using h(3) unfolding n fits_stride_def by (simp only: of_nat_mult ac_simps)
  then have "fits_h hdr * fits_stride hdr \<le> length (drop off blob)" by (rule zle_int[THEN iffD1])
  ultimately show ?thesis using h(1,4) by blast
qed

lemma fits_good_pending: "fits_good ds \<Longrightarrow> fitsBlock \<le> length ds \<Longrightarrow> isFITSMagic ds"
proof -
  assume "fits_good ds" and l: "fitsBlock \<le> length ds"
  then obtain p fr where "DecodeFITS (ds @ p) = Inr fr" unfolding fits_good_def by blast
  then obtain ho where "scanFITSHeader (ds @ p) = Inr ho" unfolding DecodeFITS_iff by blast
  then show ?thesis using scan_needs_magic l by (simp add: magic_iff)
qed

lemma fits_good_header: "fits_good ds \<Longrightarrow> scanFITSHeader ds = Inr (hdr, off) \<Longrightarrow> fits_small hdr"
  unfolding fits_good_def by (metis DecodeFITS_small Inr_inject prod.inject scanFITSHeader_append(1))

lemma size_frame_small:
  assumes small: "fits_small hdr"
  shows "\<exists>f'. size_frame hdr (NewFITSWriter\<lparr>fwHdrBuf := buf\<rparr>) = (None, f') \<and>
    rows_state hdr [] (f'\<lparr>fwHdr := hdr, fwHdrBuf := []\<rparr>)"
proof -
  let ?w = "hdrInt hdr ''NAXIS1'' 0" and ?h = "hdrInt hdr ''NAXIS2'' 0" and ?b = "hdrInt hdr ''BITPIX'' 0"
  note pos = fits_small_facts[OF small]
  have ok: "\<not> (hdrInt hdr ''NAXIS'' 0 \<noteq> 2 \<and> hdrInt hdr ''NAXIS'' 0 \<noteq> 3)" "\<not> (?w \<le> 0 \<or> ?h \<le> 0)"
    "\<not> (\<bar>go_div ?b 8\<bar> = 0 \<or> \<not> fitsSupported ?b)"
    using small pos(3) by (auto simp: fits_small_def fits_shape_ok_def fits_per_def)
  have per: "\<bar>go_div ?b 8\<bar> = int (fits_per hdr)" by (simp add: fits_per_def)
  have st: "wrap64 (?w * \<bar>go_div ?b 8\<bar>) = int (fits_stride hdr)"
    unfolding per pos(7) fits_stride_def using pos(6) by simp
  have n: "wrap64 (?w * ?h) = int (fits_w hdr * fits_h hdr)"
    unfolding pos(7,8) using pos(5) by simp
  have mk: "\<not> (\<not> can_make (int (fits_w hdr * fits_h hdr)) 2 \<or> \<not> can_make (int (fits_stride hdr)) 1)"
    using pos(5,6) by (simp add: can_make_def make_limit_def fits_stride_def ac_simps)
  have zero: "concat (map (\<lambda>d. replicate (fits_w hdr) (0 :: 16 word)) [0..<k]) = replicate (fits_w hdr * k) 0" for k
    by (induction k) (simp_all add: replicate_add[symmetric] algebra_simps)
  show ?thesis
    unfolding size_frame_def Let_def if_not_P[OF ok(1)] if_not_P[OF ok(2)] if_not_P[OF ok(3)] st n if_not_P[OF mk]
    using pos(1,2,3,4)
    by (simp add: rows_state_def sized_def rows_done_def partial_pix_def NewFITSWriter_def fits_scale_def Let_def zero
        pos(7,8) per flip: of_nat_mult)
qed

lemma rows_state_errless: "rows_state hdr ds f \<Longrightarrow> fwErr f = None \<and> fwPix f \<noteq> None"
  by (auto simp: rows_state_def sized_def)

lemma fits_write_good:
  assumes took: "fits_took f ds" and good: "fits_good (ds @ p)"
  shows "\<exists>f'. FITS_Write p f = (None, f') \<and> fits_took f' (ds @ p)"
proof (cases "scanFITSHeader ds")
  case (Inr ho)
  obtain hdr off where ho: "ho = (hdr, off)" by (cases ho)
  have st: "rows_state hdr (drop off ds) f" using took Inr ho by (simp add: fits_took_def)
  note ap = scanFITSHeader_append[OF Inr[unfolded ho]]
  have small: "fits_small hdr" using fits_good_header[OF good ap(1)] .
  have w: "rows_state hdr (drop off (ds @ p)) (write_rows p f)"
    using write_rows_state[OF small st, of p] ap(2) by simp
  show ?thesis
  proof (cases "p = []")
    case True
    then show ?thesis using took rows_state_errless[OF st] by (simp add: FITS_Write_def)
  next
    case False
    then show ?thesis using rows_state_errless[OF st] rows_state_errless[OF w] w ap(1)
      by (auto simp: FITS_Write_def fits_took_def Let_def)
  qed
next
  case (Inl e)
  then have f: "f = NewFITSWriter\<lparr>fwHdrBuf := ds\<rparr>" using took by (simp add: fits_took_def)
  let ?f1 = "NewFITSWriter\<lparr>fwHdrBuf := ds @ p\<rparr>"
  have none: "fwErr f = None" "fwPix f = None" by (simp_all add: f NewFITSWriter_def)
  have buf: "f\<lparr>fwHdrBuf := fwHdrBuf f @ p\<rparr> = ?f1" by (simp add: f)
  show ?thesis
  proof (cases "scanFITSHeader (ds @ p)")
    case (Inl e')
    have "\<not> (fitsBlock \<le> length (ds @ p) \<and> \<not> isFITSMagic (ds @ p))" using fits_good_pending[OF good] by blast
    then have "consumeHeader p f = (None, None, ?f1)"
      unfolding consumeHeader_def Let_def buf by (simp add: Inl)
    then show ?thesis using none Inl f by (auto simp: FITS_Write_def fits_took_def)
  next
    case (Inr ho)
    obtain hdr off where ho: "ho = (hdr, off)" by (cases ho)
    have small: "fits_small hdr" using fits_good_header[OF good] Inr ho by simp
    obtain f2 where f2: "size_frame hdr ?f1 = (None, f2)" "rows_state hdr [] (f2\<lparr>fwHdr := hdr, fwHdrBuf := []\<rparr>)"
      using size_frame_small[OF small] by blast
    have len: "\<not> length (ds @ p) < fitsBlock" using Inr by (auto simp: scanFITSHeader_def split: if_splits)
    have "consumeHeader p f = (None, Some (drop off (ds @ p)), f2\<lparr>fwHdr := hdr, fwHdrBuf := []\<rparr>)"
      unfolding consumeHeader_def Let_def buf using len by (simp add: Inr ho f2)
    moreover have p: "p \<noteq> []" using Inr Inl by auto
    moreover have "rows_state hdr (drop off (ds @ p)) (write_rows (drop off (ds @ p)) (f2\<lparr>fwHdr := hdr, fwHdrBuf := []\<rparr>))"
      using write_rows_state[OF small f2(2), of "drop off (ds @ p)"] by simp
    ultimately show ?thesis using none Inr ho rows_state_errless
      by (auto simp: FITS_Write_def fits_took_def Let_def)
  qed
qed

section \<open>What a complete frame took\<close>

lemma hdrInt_range: "0 < hdrInt h k 0 \<Longrightarrow> hdrInt h k 0 < 2 ^ 63"
  by (auto dest!: digits_int_ge simp: hdrInt_def Atoi_def Let_def split: option.splits if_splits)

text \<open>Whatever the header says: after n bytes of data the rows converted have been paid for, and a
  row has been put at the top of the frame once its turn has come.\<close>

definition fits_placed :: "(string \<rightharpoonup> string) \<Rightarrow> int \<Rightarrow> FITSWriter \<Rightarrow> bool" where
  "fits_placed hdr n f \<longleftrightarrow>
     fits_shape_ok hdr \<and> fwErr f = None \<and>
     fwW f = hdrInt hdr ''NAXIS1'' 0 \<and> fwH f = hdrInt hdr ''NAXIS2'' 0 \<and> fwPer f = int (fits_per hdr) \<and>
     fwStride f = wrap64 (fwW f * fwPer f) \<and> 0 \<le> fwStride f \<and>
     (\<exists>pix. fwPix f = Some pix \<and> int (length pix) \<le> 2 ^ 47 \<and>
        (fwY f > 0 \<and> \<not> fwBottomUp f \<or> fwY f \<ge> fwH f \<longrightarrow> fwW f \<le> int (length pix))) \<and>
     0 \<le> fwY f \<and> fwY f \<le> fwH f \<and> fwY f * fwStride f + int (length (fwRow f)) \<le> n"

lemma fits_placed_more: "fits_placed hdr n f \<Longrightarrow> n \<le> m \<Longrightarrow> fits_placed hdr m f"
  by (auto simp: fits_placed_def)

lemma fits_placed_row:
  assumes "fits_placed hdr n f" and "int (length r) \<le> int (length (fwRow f)) + k"
  shows "fits_placed hdr (n + k) (f\<lparr>fwRow := r\<rparr>)"
  using assms by (auto simp: fits_placed_def)

lemma fits_placed_paid: "fits_placed hdr n f \<Longrightarrow> fwY f * fwStride f + int (length (fwRow f)) \<le> n"
  unfolding fits_placed_def by blast

lemma placed_convert:
  assumes placed: "fits_placed hdr n f" and y: "fwY f < fwH f" and ok: "fwErr (convert src f) = None"
    and m: "(fwY f + 1) * fwStride f \<le> m" and row: "r = []"
  shows "fits_placed hdr m ((convert src f)\<lparr>fwRow := r\<rparr>)"
proof -
  obtain pix where pix: "fwPix f = Some pix" "int (length pix) \<le> 2 ^ 47"
    "fwY f > 0 \<and> \<not> fwBottomUp f \<or> fwY f \<ge> fwH f \<longrightarrow> fwW f \<le> int (length pix)"
    using placed unfolding fits_placed_def by blast
  define dst where "dst = (if fwBottomUp f then fwH f - 1 - fwY f else fwY f)"
  define lo where "lo = wrap64 (dst * fwW f)"
  define hi where "hi = wrap64 ((dst + 1) * fwW f)"
  have w: "0 < fwW f" "fwW f < 2 ^ 63"
    using placed hdrInt_range[of hdr "''NAXIS1''"] by (auto simp: fits_placed_def fits_shape_ok_def)
  have b: "0 \<le> lo \<and> lo \<le> hi \<and> hi \<le> int (length pix) \<and> (hi - lo) * fwPer f \<le> int (length src)"
  proof (rule ccontr)
    assume n: "\<not> ?thesis"
    have "convert src f = f\<lparr>fwErr := Some Panicked\<rparr>"
      unfolding convert_def Let_def pix(1) option.case dst_def[symmetric] lo_def[symmetric] hi_def[symmetric]
      by (rule if_not_P[OF n])
    then show False using ok by simp
  qed
  have c: "convert src f = f\<lparr>fwPix := Some (take (nat lo) pix @
      convertFITSRow (nat (hi - lo)) src (fwBitpix f) (fwBzero f) (fwBscale f) @ drop (nat hi) pix), fwY := fwY f + 1\<rparr>"
    unfolding convert_def Let_def pix(1) option.case dst_def[symmetric] lo_def[symmetric] hi_def[symmetric]
    by (rule if_P[OF b])
  have len: "length (take (nat lo) pix @
      convertFITSRow (nat (hi - lo)) src (fwBitpix f) (fwBzero f) (fwBscale f) @ drop (nat hi) pix) = length pix"
    using b by auto
  have top: "fwW f \<le> int (length pix)" if "\<not> fwBottomUp f \<or> fwH f \<le> fwY f + 1"
  proof (cases "dst = 0")
    case True
    then have "hi = fwW f" using w by (simp add: hi_def)
    then show ?thesis using b by simp
  next
    case False
    then show ?thesis using that pix(3) y placed by (auto simp: dst_def fits_placed_def split: if_splits)
  qed
  show ?thesis
    using placed y m top len pix(2) row unfolding fits_placed_def c by auto
qed

lemma placed_write_rows:
  "fits_placed hdr n f \<Longrightarrow> fwErr (write_rows p f) = None \<Longrightarrow> fits_placed hdr (n + int (length p)) (write_rows p f)"
proof (induction p f arbitrary: n rule: write_rows.induct)
  case (1 p f)
  have placed: "fits_placed hdr n f" and err: "fwErr f = None" using "1.prems" by (auto simp: fits_placed_def)
  have stop: "fits_placed hdr (n + int (length p)) f" using placed by (rule fits_placed_more) simp
  have latched: "write_rows q g = g" if "fwErr g = Some Panicked" for q g
    using that by (subst write_rows.simps) simp
  have conv: "fwErr (convert src g) = None" if "fwErr g = None" "fwErr (write_rows q ((convert src g)\<lparr>fwRow := r\<rparr>)) = None" for src g q r
  proof (rule ccontr)
    assume "fwErr (convert src g) \<noteq> None"
    then have "fwErr ((convert src g)\<lparr>fwRow := r\<rparr>) = Some Panicked"
      using convert_progress[of src g] that(1) by auto
    then show False using that(2) latched[of "(convert src g)\<lparr>fwRow := r\<rparr>" q] by simp
  qed
  show ?case
  proof (cases "p = []")
    case True
    then show ?thesis using stop by (subst write_rows.simps) simp
  next
    case ne: False
    then have c1: "\<not> (p = [] \<or> fwErr f = Some Panicked)" using err by simp
    show ?thesis
    proof (cases "fwY f \<ge> fwH f")
      case True
      then show ?thesis using stop err ne by (subst write_rows.simps) simp
    next
      case c2: False
      show ?thesis
      proof (cases "fwRow f = [] \<and> int (length p) \<ge> fwStride f")
        case c3: True
        let ?g = "convert (take (nat (fwStride f)) p) f"
        have w: "write_rows p f = write_rows (drop (nat (fwStride f)) p) ?g"
          using c1 c2 c3 by (subst write_rows.simps) simp
        have rowg: "?g\<lparr>fwRow := []\<rparr> = ?g" using c3 by (metis FITSWriter.surjective FITSWriter.update_convs(12) convert_fields(4))
        have ok: "fwErr ?g = None"
        proof (rule conv[OF err])
          show "fwErr (write_rows (drop (nat (fwStride f)) p) (?g\<lparr>fwRow := []\<rparr>)) = None"
            using "1.prems"(2) unfolding w rowg .
        qed
        have m: "(fwY f + 1) * fwStride f \<le> n + fwStride f"
          using fits_placed_paid[OF placed] by (simp add: distrib_right)
        have g: "fits_placed hdr (n + fwStride f) ?g"
          using placed_convert[OF placed _ ok m, of "[]"] c2 rowg by simp
        have pos: "0 \<le> fwStride f" using placed unfolding fits_placed_def by blast
        have "fits_placed hdr (n + fwStride f + int (length (drop (nat (fwStride f)) p))) (write_rows (drop (nat (fwStride f)) p) ?g)"
          using "1.IH"(1)[OF c1 c2 c3 g] "1.prems"(2) unfolding w by blast
        then show ?thesis unfolding w
        proof (rule fits_placed_more)
          have "nat (fwStride f) \<le> length p" using c3 by (simp add: nat_le_iff)
          then show "n + fwStride f + int (length (drop (nat (fwStride f)) p)) \<le> n + int (length p)"
            using pos by (simp add: of_nat_diff)
        qed
      next
        case c3: False
        define room where "room = fwStride f - int (length (fwRow f))"
        define k where "k = (if room > int (length p) then length p else nat room)"
        define f1 where "f1 = f\<lparr>fwRow := fwRow f @ take k p\<rparr>"
        define f2 where "f2 = (if int (length (fwRow f1)) \<ge> fwStride f1 then (convert (fwRow f1) f1)\<lparr>fwRow := []\<rparr> else f1)"
        have w: "write_rows p f = write_rows (drop k p) f2"
          unfolding write_rows.simps[of p f] if_not_P[OF c1] if_not_P[OF c2] if_not_P[OF c3] Let_def
            room_def k_def f1_def f2_def by (rule refl)
        have k: "k \<le> length p" by (auto simp: k_def)
        have p1: "fits_placed hdr (n + int k) f1" unfolding f1_def using placed by (rule fits_placed_row) simp
        have g: "fits_placed hdr (n + int k) f2"
        proof (cases "int (length (fwRow f1)) \<ge> fwStride f1")
          case True
          then have f2: "f2 = (convert (fwRow f1) f1)\<lparr>fwRow := []\<rparr>" by (simp add: f2_def)
          have ok: "fwErr (convert (fwRow f1) f1) = None"
          proof (rule conv)
            show "fwErr f1 = None" using err by (simp add: f1_def)
            show "fwErr (write_rows (drop k p) ((convert (fwRow f1) f1)\<lparr>fwRow := []\<rparr>)) = None"
              using "1.prems"(2) unfolding w f2 .
          qed
          have m: "(fwY f1 + 1) * fwStride f1 \<le> n + int k"
            using fits_placed_paid[OF p1] True by (simp add: distrib_right)
          show ?thesis unfolding f2 using placed_convert[OF p1 _ ok m refl] c2 by (simp add: f1_def)
        qed (simp add: f2_def p1)
        have "fits_placed hdr (n + int k + int (length (drop k p))) (write_rows (drop k p) f2)"
          using "1.IH"(2)[OF c1 c2 c3 room_def k_def f1_def f2_def g] "1.prems"(2) unfolding w by blast
        then show ?thesis using k unfolding w by simp
      qed
    qed
  qed
qed

lemma write_rows_hdr: "fwHdr (write_rows p f) = fwHdr f"
proof (induction p f rule: write_rows.induct)
  case (1 p f)
  show ?case
    by (subst write_rows.simps) (use "1.IH" in \<open>auto simp: Let_def\<close>)
qed

text \<open>The whole payload through \<open>Write\<close> and \<open>Close\<close>.\<close>

definition fits_stream :: "byte list list \<Rightarrow> FITSWriter" where
  "fits_stream ps = snd (FITS_Close (fold (\<lambda>p f. snd (FITS_Write p f)) ps NewFITSWriter))"

definition fits_arrived :: "FITSWriter \<Rightarrow> byte list \<Rightarrow> bool" where
  "fits_arrived f ds \<longleftrightarrow>
     fwErr f \<noteq> None \<or>
     (case scanFITSHeader ds of
        Inl _ \<Rightarrow> f = NewFITSWriter\<lparr>fwHdrBuf := ds\<rparr>
      | Inr (hdr, off) \<Rightarrow> fwHdr f = hdr \<and> fits_placed hdr (int (length (drop off ds))) f)"

lemma size_frame_placed:
  assumes "size_frame hdr (NewFITSWriter\<lparr>fwHdrBuf := buf\<rparr>) = (None, f')"
  shows "fits_placed hdr 0 (f'\<lparr>fwHdr := hdr, fwHdrBuf := []\<rparr>)"
proof -
  let ?w = "hdrInt hdr ''NAXIS1'' 0" and ?h = "hdrInt hdr ''NAXIS2'' 0" and ?b = "hdrInt hdr ''BITPIX'' 0"
  have ok1: "\<not> (hdrInt hdr ''NAXIS'' 0 \<noteq> 2 \<and> hdrInt hdr ''NAXIS'' 0 \<noteq> 3)"
  proof
    assume n: "hdrInt hdr ''NAXIS'' 0 \<noteq> 2 \<and> hdrInt hdr ''NAXIS'' 0 \<noteq> 3"
    show False using assms unfolding size_frame_def Let_def if_P[OF n] by simp
  qed
  have ok2: "\<not> (?w \<le> 0 \<or> ?h \<le> 0)"
  proof
    assume n: "?w \<le> 0 \<or> ?h \<le> 0"
    show False using assms unfolding size_frame_def Let_def if_not_P[OF ok1] if_P[OF n] by simp
  qed
  have ok3: "\<not> (\<bar>go_div ?b 8\<bar> = 0 \<or> \<not> fitsSupported ?b)"
  proof
    assume n: "\<bar>go_div ?b 8\<bar> = 0 \<or> \<not> fitsSupported ?b"
    show False using assms unfolding size_frame_def Let_def if_not_P[OF ok1] if_not_P[OF ok2] if_P[OF n] by simp
  qed
  have mk: "\<not> (\<not> can_make (wrap64 (?w * ?h)) 2 \<or> \<not> can_make (wrap64 (?w * \<bar>go_div ?b 8\<bar>)) 1)"
  proof
    assume n: "\<not> can_make (wrap64 (?w * ?h)) 2 \<or> \<not> can_make (wrap64 (?w * \<bar>go_div ?b 8\<bar>)) 1"
    show False using assms
      unfolding size_frame_def Let_def if_not_P[OF ok1] if_not_P[OF ok2] if_not_P[OF ok3] if_P[OF n] by simp
  qed
  note ok = ok1 ok2 ok3
  have shape: "fits_shape_ok hdr" using ok by (auto simp: fits_shape_ok_def)
  show ?thesis
    using assms shape ok(2) mk unfolding size_frame_def Let_def if_not_P[OF ok(1)] if_not_P[OF ok(2)] if_not_P[OF ok(3)]
      if_not_P[OF mk]
    by (auto simp: fits_placed_def NewFITSWriter_def fits_per_def can_make_def make_limit_def)
qed

lemma fits_placed_pix: "fits_placed hdr n f \<Longrightarrow> fwErr f = None \<and> fwPix f \<noteq> None"
  by (auto simp: fits_placed_def)

lemma fits_write_arrived:
  assumes "fits_arrived f ds"
  shows "fits_arrived (snd (FITS_Write p f)) (ds @ p)"
proof (cases "fwErr f = None \<and> p \<noteq> []")
  case False
  then have "snd (FITS_Write p f) = f" by (auto simp: FITS_Write_def split: option.split)
  then show ?thesis using assms False by (cases "fwErr f") (auto simp: fits_arrived_def)
next
  case go: True
  show ?thesis
  proof (cases "scanFITSHeader ds")
    case (Inr ho)
    obtain hdr off where ho: "ho = (hdr, off)" by (cases ho)
    have st: "fwHdr f = hdr" "fits_placed hdr (int (length (drop off ds))) f"
      using assms go Inr ho by (simp_all add: fits_arrived_def)
    note ap = scanFITSHeader_append[OF Inr[unfolded ho]]
    have "snd (FITS_Write p f) = write_rows p f"
      using fits_placed_pix[OF st(2)] go by (auto simp: FITS_Write_def Let_def)
    moreover have "fwHdr (write_rows p f) = hdr" using write_rows_hdr st(1) by simp
    moreover have "int (length (drop off ds)) + int (length p) = int (length (drop off (ds @ p)))"
      using ap(2) by simp
    ultimately show ?thesis
      using placed_write_rows[OF st(2), of p] ap(1) by (auto simp: fits_arrived_def)
  next
    case (Inl e)
    then have f: "f = NewFITSWriter\<lparr>fwHdrBuf := ds\<rparr>" using assms go by (simp add: fits_arrived_def)
    let ?f1 = "NewFITSWriter\<lparr>fwHdrBuf := ds @ p\<rparr>"
    have none: "fwErr f = None" "fwPix f = None" by (simp_all add: f NewFITSWriter_def)
    have buf: "f\<lparr>fwHdrBuf := fwHdrBuf f @ p\<rparr> = ?f1" by (simp add: f)
    consider (bad) e g where "consumeHeader p f = (Some e, None, g)"
      | (pending) e' where "scanFITSHeader (ds @ p) = Inl e'" "consumeHeader p f = (None, None, ?f1)"
      | (ready) hdr off f2 where "scanFITSHeader (ds @ p) = Inr (hdr, off)" "size_frame hdr ?f1 = (None, f2)"
          "consumeHeader p f = (None, Some (drop off (ds @ p)), f2\<lparr>fwHdr := hdr, fwHdrBuf := []\<rparr>)"
    proof (cases "length (ds @ p) < fitsBlock")
      case True
      then have "scanFITSHeader (ds @ p) = Inl (NotFITS (length (ds @ p)))" by (simp add: scanFITSHeader_def)
      moreover have "consumeHeader p f = (None, None, ?f1)"
        unfolding consumeHeader_def Let_def buf using True by simp
      ultimately show ?thesis using that(2) by blast
    next
      case len: False
      show ?thesis
      proof (cases "scanFITSHeader (ds @ p)")
        case (Inl e')
        then show ?thesis using that(1,2) len unfolding consumeHeader_def Let_def buf
          by (cases "isFITSMagic (ds @ p)") auto
      next
        case (Inr ho)
        obtain hdr off where ho: "ho = (hdr, off)" by (cases ho)
        obtain e2 f2 where sz: "size_frame hdr ?f1 = (e2, f2)" by fastforce
        show ?thesis using that(1,3) len unfolding consumeHeader_def Let_def buf
          by (cases e2) (auto simp: Inr ho sz)
      qed
    qed
    then show ?thesis
    proof cases
      case bad
      then show ?thesis using none go by (simp add: FITS_Write_def fits_arrived_def)
    next
      case pending
      then show ?thesis using none go by (simp add: FITS_Write_def fits_arrived_def)
    next
      case ready
      let ?g = "f2\<lparr>fwHdr := hdr, fwHdrBuf := []\<rparr>"
      have "snd (FITS_Write p f) = write_rows (drop off (ds @ p)) ?g"
        using none go ready by (simp add: FITS_Write_def Let_def)
      moreover have "fwHdr (write_rows (drop off (ds @ p)) ?g) = hdr" using write_rows_hdr by simp
      ultimately show ?thesis
        using placed_write_rows[OF size_frame_placed[OF ready(2)], of "drop off (ds @ p)"] ready(1)
        by (auto simp: fits_arrived_def)
    qed
  qed
qed

section \<open>The writer as a sink\<close>

text \<open>The messages of the errors; a panic has none, since it does not return.\<close>

fun fits_error_text :: "fits_error \<Rightarrow> string" where
  "fits_error_text (NotFITS n) =
     ''indi: BLOB of '' @ Itoa (int n) @ '' bytes is not FITS '' @ [CHR 0xE2, CHR 0x80, CHR 0x94] @
     '' is CCD_TRANSFER_FORMAT set to FORMAT_FITS?''"
| "fits_error_text (NoEnd n) = ''indi: FITS header has no END card in '' @ Itoa (int n) @ '' bytes''"
| "fits_error_text (BadNaxis n) = ''indi: FITS NAXIS='' @ Itoa n @ '', want a 2-D mono or 3-D colour image''"
| "fits_error_text (BadDims w h) = ''indi: FITS dimensions '' @ Itoa w @ ''x'' @ Itoa h"
| "fits_error_text (BadBitpix b) = ''indi: unsupported FITS BITPIX '' @ Itoa b"
| "fits_error_text (ShortData n w h b) =
     ''indi: FITS data is short: '' @ Itoa (int n) @ '' bytes for '' @ Itoa w @ ''x'' @ Itoa h @ '' at '' @ Itoa b @ '' bits''"
| "fits_error_text (IncompleteFITS y h) =
     ''indi: FITS payload ended early: '' @ Itoa y @ '' of '' @ Itoa h @ '' rows''"
| "fits_error_text NotComplete = ''indi: FITS payload is not complete''"
| "fits_error_text Panicked = []"

definition fits_sink :: "FITSWriter sink_ops" where
  "fits_sink =
     \<lparr>sinkOpen = (\<lambda>info. Opened (Some NewFITSWriter)),
      sinkWrite = (\<lambda>p f. case FITS_Write p f of (e, f') \<Rightarrow> (map_option fits_error_text e, f')),
      sinkClose = Some (\<lambda>f. case FITS_Close f of (e, f') \<Rightarrow> (map_option fits_error_text e, f')),
      sinkCloseWithError = None\<rparr>"

lemma fits_took_new: "fits_took NewFITSWriter []"
  by (simp add: fits_took_def scanFITSHeader_def fitsBlock_def NewFITSWriter_def)

interpretation fits: byte_sink "sinkWrite fits_sink" fits_took fits_good
proof
  fix f ds p
  assume "fits_took f ds" and "fits_good (ds @ p)"
  then obtain f' where "FITS_Write p f = (None, f')" "fits_took f' (ds @ p)" using fits_write_good by blast
  then show "\<exists>f'. sinkWrite fits_sink p f = (None, f') \<and> fits_took f' (ds @ p)"
    by (simp add: fits_sink_def)
qed (auto simp: fits_good_def)

text \<open>A writer that took the whole of a payload \<open>DecodeFITS\<close> accepts closes with its frame.\<close>

lemma fits_took_Close:
  assumes took: "fits_took f blob" and ok: "DecodeFITS blob = Inr fr" "length blob \<le> 2 ^ 46"
  shows "\<exists>f'. FITS_Close f = (None, f') \<and> FITS_Frame f' = Inr fr"
proof -
  obtain hdr off where h: "scanFITSHeader blob = Inr (hdr, off)" "fits_small hdr"
    "fits_h hdr * fits_stride hdr \<le> length (drop off blob)" "fr = fits_frame hdr (fits_pix hdr (drop off blob))"
    using DecodeFITS_small[OF ok] by blast
  have st: "rows_state hdr (drop off blob) f" using took h(1) by (simp add: fits_took_def)
  have S: "0 < fits_stride hdr" using h(2) by (rule fits_small_facts)
  have "fits_h hdr \<le> length (drop off blob) div fits_stride hdr"
    using h(3) S by (simp only: less_eq_div_iff_mult_less_eq)
  then have all_rows: "rows_done hdr (drop off blob) = fits_h hdr" by (simp add: rows_done_def)
  have "partial_pix hdr (drop off blob) (fits_h hdr) = fits_pix hdr (drop off blob)"
    unfolding partial_pix_def fits_pix_def fits_h_def[symmetric] Let_def
    by (rule arg_cong[where f = concat], rule map_cong) (auto simp: source_row_less)
  then show ?thesis
    using st all_rows fits_small_facts(7,8)[OF h(2)]
    by (simp add: rows_state_def sized_def FITS_Close_def FITS_Frame_def h(4) fits_frame_def Let_def)
qed

lemma fits_stream_took:
  "fits_took f ds \<Longrightarrow> fits_good (ds @ concat ps) \<Longrightarrow>
     fits_took (fold (\<lambda>p f. snd (FITS_Write p f)) ps f) (ds @ concat ps)"
proof (induction ps arbitrary: f ds)
  case (Cons p ps)
  then have "fits_good ((ds @ p) @ concat ps)" by simp
  then have "fits_good (ds @ p)" by (rule fits.good_prefix)
  then obtain f' where "FITS_Write p f = (None, f')" "fits_took f' (ds @ p)"
    using fits_write_good Cons.prems by blast
  then show ?case using Cons.IH[of f' "ds @ p"] Cons.prems(2) by simp
qed simp

lemma fits_stream_arrived:
  "fits_arrived f ds \<Longrightarrow> fits_arrived (fold (\<lambda>p f. snd (FITS_Write p f)) ps f) (ds @ concat ps)"
proof (induction ps arbitrary: f ds)
  case (Cons p ps)
  show ?case using Cons.IH[OF fits_write_arrived[OF Cons.prems, of p]] by simp
qed simp

lemma arrived_accepts:
  assumes arrived: "fits_arrived f blob" and ok: "fst (FITS_Close f) = None" and small: "length blob \<le> 2 ^ 46"
  shows "\<exists>fr. DecodeFITS blob = Inr fr"
proof -
  have c: "fwErr f = None" "fwPix f \<noteq> None" "\<not> fwY f < fwH f"
    using ok by (auto simp: FITS_Close_def Let_def split: option.splits if_splits)
  have "\<exists>hdr off. scanFITSHeader blob = Inr (hdr, off)"
  proof (cases "scanFITSHeader blob")
    case (Inl e)
    then have "f = NewFITSWriter\<lparr>fwHdrBuf := blob\<rparr>" using arrived c(1) by (simp add: fits_arrived_def)
    then show ?thesis using c(2) by (simp add: NewFITSWriter_def)
  qed (metis surj_pair)
  then obtain hdr off where h1: "scanFITSHeader blob = Inr (hdr, off)" by blast
  then have h: "scanFITSHeader blob = Inr (hdr, off)" "fits_placed hdr (int (length (drop off blob))) f"
    using arrived c(1) by (simp_all add: fits_arrived_def)
  have shape: "fits_shape_ok hdr" and f: "fwW f = hdrInt hdr ''NAXIS1'' 0" "fwH f = hdrInt hdr ''NAXIS2'' 0"
    "fwPer f = int (fits_per hdr)" "fwStride f = wrap64 (fwW f * fwPer f)" "fwY f \<le> fwH f"
    using h(2) unfolding fits_placed_def by blast+
  have pix: "fwW f \<le> 2 ^ 47" using h(2) c(3) by (auto simp: fits_placed_def)
  have per: "fwPer f \<in> {1, 2, 4, 8}"
    using supported_per[of "hdrInt hdr ''BITPIX'' 0"] shape unfolding f(3) by (auto simp: fits_shape_ok_def fits_per_def)
  have w: "0 < fwW f" using shape unfolding f(1) by (simp add: fits_shape_ok_def)
  have "fwW f * fwPer f \<le> 2 ^ 47 * 8" using w pix per by (intro mult_mono) auto
  then have "fwStride f = fwW f * fwPer f" using w per unfolding f(4) by (intro wrap64_small) auto
  moreover have "fwY f * fwStride f \<le> int (length (drop off blob))" using fits_placed_paid[OF h(2)] by linarith
  moreover have "fwY f = fwH f" using c(3) f(5) by simp
  ultimately have "fwW f * fwH f * fwPer f \<le> int (length (drop off blob))" by (simp add: ac_simps)
  then show ?thesis using h(1) shape unfolding DecodeFITS_iff f(1-3) by blast
qed

section \<open>Properties\<close>


end
