(* ===== verification/BlobPath.thy ===== *)
theory BlobPath
  imports CcdFits ClientFitsSink
begin

text \<open>
  The path of a camera frame: \<open>encodeFITS\<close> on the server, base64 on the wire, and \<open>FITSWriter\<close> as
  the client's sink.
\<close>

lemma b64_chars_encode [simp]: "b64_chars (b64_encode data) = b64_encode data"
  by (induction data rule: b64_encode.induct) (simp_all add: b64_chars_def sextet_letters pad_not_space)

lemma fits_sink_delivers:
  assumes ok: "DecodeFITS data = Inr fr" "length data \<le> 2 ^ 46" and ts: "b64_chars (concat ts) = b64_encode data"
  shows "\<exists>r f. readOneBlob (Some fits_sink) inflate device pname ats (map BChars ts @ [BEnd]) = Some r \<and>
    brErr r = None \<and> brEnd r = Closed None \<and> brSink r = Some f \<and> FITS_Frame f = Inr fr"
proof -
  have ne: "data \<noteq> []" using ok(1) by (auto simp: DecodeFITS_def scanFITSHeader_def fitsBlock_def)
  have good: "fits_good data" unfolding fits_good_def using ok by (metis append_Nil2)
  have op: "sinkOpen fits_sink (blob_info device pname ats) = Opened (Some NewFITSWriter)" by (simp add: fits_sink_def)
  obtain b' s' where b': "readOneBlob (Some fits_sink) inflate device pname ats (map BChars ts @ [BEnd]) =
      Some (end_blob fits_sink inflate (blob_info device pname ats) (TrimSpace (attr_value ats ''size''))
        (zero_cMember\<lparr>cmName := biMember (blob_info device pname ats), cmFormat := attr_value ats ''format'',
           cmSize := biSize (blob_info device pname ats)\<rparr>) b')"
    "bSink b' = Some s'" "fits_took s' data" "bWerr b' = None" "bQuad b' = []"
    using fits.readOneBlob_good[OF refl op fits_took_new good ts ne] by blast
  obtain f where f: "FITS_Close s' = (None, f)" "FITS_Frame f = Inr fr" using fits_took_Close[OF b'(3) ok] by blast
  then show ?thesis
    using b' by (auto simp: end_blob_def b64_finish_def firstErr_def fits_sink_def)
qed

section \<open>Properties\<close>

text \<open>C10: A frame a camera gives is the frame a client with a FITS sink has once the payload is
  closed: the same dimensions and samples, whatever pieces and white space the base64 text
  arrives in.\<close>

theorem frame_reaches_client:
  assumes "0 < w" and "0 < h" and "w * h \<le> 2 ^ 40"
    and "encodeFITS w h bits pixels = Some blob" and "b64_chars (concat ts) = b64_encode blob"
  shows "\<exists>r f fr. readOneBlob (Some fits_sink) inflate device pname ats (map BChars ts @ [BEnd]) = Some r \<and>
    brErr r = None \<and> brEnd r = Closed None \<and> brSink r = Some f \<and> FITS_Frame f = Inr fr \<and>
    frWidth fr = w \<and> frHeight fr = h \<and> frPix fr = map (frame_pixel bits pixels) [0..<nat (w * h)]"
proof -
  obtain hdr where d: "DecodeFITS blob = Inr \<lparr>frWidth = w, frHeight = h,
      frPix = map (frame_pixel bits pixels) [0..<nat (w * h)], frBayer = False, frBayerX = 0, frBayerY = 0,
      frBitPix = (if bits \<le> 8 then 8 else 16), frHeader = hdr\<rparr>"
    using encode_decoded[OF assms(1-3), of bits pixels] assms(4) by auto
  show ?thesis
    using fits_sink_delivers[OF d encode_length[OF assms(1-4)] assms(5), of inflate device pname ats] by fastforce
qed

theorem frame_reaches_client_witness:
  "\<exists>blob r f fr. encodeFITS 2 1 16 [1, 2, 3, 4] = Some blob \<and>
    readOneBlob (Some fits_sink) (\<lambda>b. None) ''CCD'' ''CCD1'' sample_attrs
      (map BChars [''  '', b64_encode blob] @ [BEnd]) = Some r \<and>
    brSink r = Some f \<and> FITS_Frame f = Inr fr \<and> frPix fr = [0x0201, 0x0403]"
proof -
  obtain blob where blob: "encodeFITS 2 1 16 [1, 2, 3, 4] = Some blob"
    using encode_decoded[of 2 1 16 "[1, 2, 3, 4]"] by auto
  have px: "map (frame_pixel 16 [1, 2, 3, 4]) [0..<nat (2 * 1)] = [0x0201, 0x0403]" by code_simp
  have "b64_chars (concat [''  '', b64_encode blob]) = b64_encode blob"
    using b64_chars_encode[of blob] by (simp add: b64_chars_def b64_space_def)
  then show ?thesis
    using frame_reaches_client[of 2 1 16 "[1, 2, 3, 4]" blob "[''  '', b64_encode blob]" "\<lambda>b. None" "''CCD''" "''CCD1''" sample_attrs]
      blob px by fastforce
qed


lemma encoded_bscale: "hdrFloat (encoded_header w h bitpix bzero) ''BSCALE'' (Fin 1) = Fin 1"
proof -
  have "ParseFloat (TrimSpace (Itoa 1)) = Some (Fin 1)" by code_simp
  then show ?thesis by (simp add: hdrFloat_def encoded_header_def)
qed

text \<open>C37: A FITS header whose dimensions are absurd, without any data, is a plain error to \<open>DecodeFITS\<close>
  and a panic to \<open>FITSWriter\<close>, which allocates the frame the header declares before any of it has
  arrived.\<close>

theorem FITSWriter_panics:
  assumes "0 < w" and "0 < h" and "2 ^ 47 < w * h" and "w * h < 2 ^ 63"
  shows "fst (FITS_Write (fits_header w h 16 32768) NewFITSWriter) = Some Panicked \<and>
    DecodeFITS (fits_header w h 16 32768) = Inl (ShortData 0 w h 16)"
proof -
  have "w * 1 \<le> w * h" "1 * h \<le> w * h" using assms(1,2) by (intro mult_left_mono mult_right_mono; simp)+
  then have w: "w < 2 ^ 63" and h: "h < 2 ^ 63" using assms(4) by simp_all
  let ?H = "fits_header w h 16 32768"
  have scan: "scanFITSHeader ?H = Inr (encoded_header w h 16 32768, 2880)" and len: "length ?H = 2880"
    using scan_fits_header(1)[of w h 16 32768 "[]"] scan_fits_header(2)[of w h 16 32768] assms w h by simp_all
  have f: "hdrInt (encoded_header w h 16 32768) ''NAXIS'' 0 = 2"
    "hdrInt (encoded_header w h 16 32768) ''NAXIS1'' 0 = w" "hdrInt (encoded_header w h 16 32768) ''NAXIS2'' 0 = h"
    "hdrInt (encoded_header w h 16 32768) ''BITPIX'' 0 = 16"
    using encoded_fields(1-4)[of w h 16 32768] assms w h by simp_all
  have "wrap64 (w * h) = w * h" using assms by (intro wrap64_id) simp_all
  then have big: "\<not> can_make (wrap64 (w * h)) 2" using assms(3) by (simp add: can_make_def make_limit_def mult.commute)
  have go: "go_div 16 8 = 2" by (simp add: go_div_def)
  have "DecodeFITS ?H = Inl (ShortData 0 w h 16)"
    unfolding DecodeFITS_def scan using assms(1,2) len
    by (simp add: f go fitsSupported_def Let_def)
  moreover have "?H \<noteq> []" using len by auto
  then have "fst (FITS_Write ?H NewFITSWriter) = Some Panicked"
    unfolding FITS_Write_def consumeHeader_def using assms(1,2) len scan
    by (simp add: NewFITSWriter_def fitsBlock_def size_frame_def f go fitsSupported_def big Let_def encoded_bscale)
  ultimately show ?thesis by simp
qed

theorem FITSWriter_panics_witness:
  "fst (FITS_Write (fits_header 100000000 100000000 16 32768) NewFITSWriter) = Some Panicked"
  using FITSWriter_panics[of 100000000 100000000] by simp

end
