(* ===== verification/ClientWait.thy ===== *)
theory ClientWait
  imports ClientBlob
begin

text \<open>
  Waiting for a property, \<open>WaitRevCtx\<close> and \<open>setAndWaitCtx\<close> of \<open>client/client.go\<close>, beside the
  read loop. A waiter takes the channel \<open>updated\<close> and a snapshot under the mutex, decides,
  and otherwise waits for that channel to be closed or its context to end. The system state
  is the client, the waiter and the context; the read loop and the waiter interleave freely.
\<close>

section \<open>One look\<close>

datatype ctx_state = CtxLive | CtxDeadline | CtxCanceled

text \<open>A returned waiter gives the property and the error, if any.\<close>

datatype waiter = Looking | Blocked nat cProperty | Returned cProperty "string option"

definition snap_of :: "client \<Rightarrow> string \<Rightarrow> string \<Rightarrow> cProperty" where
  "snap_of c device name =
     (case store c device of
        None \<Rightarrow> zero_cProperty
      | Some dm \<Rightarrow> (case dm name of None \<Rightarrow> zero_cProperty | Some p \<Rightarrow> clone p))"

record wait_args =
  waDevice :: string
  waName :: string
  waSince :: "64 word"
  waPred :: "cProperty \<Rightarrow> bool"

definition look :: "wait_args \<Rightarrow> client \<Rightarrow> waiter" where
  "look a c =
     (let ch = updated c;
          dead = cl_closed c;
          derr = (case cl_err c of Some e \<Rightarrow> e | None \<Rightarrow> ''%!w(<nil>)'');
          snap = snap_of c (waDevice a) (waName a)
      in if cpRev snap > waSince a \<and> waPred a snap then Returned snap None
         else if dead then
           Returned snap (Some (''indi client: connection down waiting for '' @ waDevice a @ ''.'' @ waName a @
                                '': '' @ derr))
         else Blocked ch snap)"

definition ctx_error :: "wait_args \<Rightarrow> ctx_state \<Rightarrow> string" where
  "ctx_error a x =
     (if x = CtxDeadline then ''indi client: timeout waiting for '' @ waDevice a @ ''.'' @ waName a
      else ''indi client: waiting for '' @ waDevice a @ ''.'' @ waName a @ '': context canceled'')"

section \<open>Steps\<close>

text \<open>The read loop takes one inbound event; it has returned once the client is closed.\<close>

record system =
  sClient :: client
  sWaiter :: waiter
  sCtx :: ctx_state

datatype wait_event = Read inbound | Look | Wake | GiveUp | CtxEnd ctx_state

inductive wait_step ::
  "(xml \<Rightarrow> client \<Rightarrow> client) \<Rightarrow> wait_args \<Rightarrow> system \<Rightarrow> wait_event \<Rightarrow> system \<Rightarrow> bool" for blob a where
  read: "\<not> cl_closed (sClient s) \<Longrightarrow>
    wait_step blob a s (Read i) (s\<lparr>sClient := read_inbound blob i (sClient s)\<rparr>)"
| look: "sWaiter s = Looking \<Longrightarrow> wait_step blob a s Look (s\<lparr>sWaiter := look a (sClient s)\<rparr>)"
| wake: "sWaiter s = Blocked g p \<Longrightarrow> g < updated (sClient s) \<Longrightarrow>
    wait_step blob a s Wake (s\<lparr>sWaiter := Looking\<rparr>)"
| give_up: "sWaiter s = Blocked g p \<Longrightarrow> sCtx s \<noteq> CtxLive \<Longrightarrow>
    wait_step blob a s GiveUp (s\<lparr>sWaiter := Returned p (Some (ctx_error a (sCtx s)))\<rparr>)"
| ctx_end: "sCtx s = CtxLive \<Longrightarrow> x \<noteq> CtxLive \<Longrightarrow> wait_step blob a s (CtxEnd x) (s\<lparr>sCtx := x\<rparr>)"

inductive wait_run ::
  "(xml \<Rightarrow> client \<Rightarrow> client) \<Rightarrow> wait_args \<Rightarrow> system \<Rightarrow> system \<Rightarrow> bool" for blob a where
  wait_here: "wait_run blob a s s"
| wait_on: "wait_run blob a s t \<Longrightarrow> wait_step blob a t e u \<Longrightarrow> wait_run blob a s u"

section \<open>Setting and waiting\<close>

text \<open>\<open>setAndWaitCtx\<close>: the revision before the command, the predicate, and the result made of what
  the wait returned.\<close>

definition set_wait_args :: "client \<Rightarrow> string \<Rightarrow> string \<Rightarrow> wait_args" where
  "set_wait_args c device name =
     \<lparr>waDevice = device, waName = name,
      waSince = (case cl_Property c device name of Some p \<Rightarrow> cpRev p | None \<Rightarrow> 0),
      waPred = (\<lambda>p. cpState p = ''Ok'' \<or> cpState p = ''Alert'')\<rparr>"

definition set_wait_result :: "string \<Rightarrow> string \<Rightarrow> cProperty \<Rightarrow> string option \<Rightarrow> cProperty \<times> string option" where
  "set_wait_result device name p err =
     (case err of
        Some e \<Rightarrow> (p, Some e)
      | None \<Rightarrow>
          if cpState p = ''Alert'' then
            (p, Some (if cpMessage p \<noteq> []
                      then ''indi client: '' @ device @ ''.'' @ name @ '': Alert: '' @ cpMessage p
                      else ''indi client: '' @ device @ ''.'' @ name @ '': Alert''))
          else (p, None))"

section \<open>Changes are signalled\<close>

text \<open>A notifier: a state with a version, such that the version grows with every change of what a
  watcher sees. A watcher that saw version g has missed nothing while the version is g.\<close>

locale notifier =
  fixes step :: "'e \<Rightarrow> 's \<Rightarrow> 's" and version :: "'s \<Rightarrow> nat" and seen :: "'s \<Rightarrow> 'v"
  assumes version_mono: "version s \<le> version (step e s)"
    and unsignalled: "version (step e s) = version s \<Longrightarrow> seen (step e s) = seen s"
begin

lemma steps_mono: "version s \<le> version (fold step es s)"
proof (induction es arbitrary: s)
  case (Cons e es)
  show ?case using Cons.IH[of "step e s"] version_mono[of s e] by simp
qed simp

lemma steps_unsignalled: "version (fold step es s) = version s \<Longrightarrow> seen (fold step es s) = seen s"
proof (induction es arbitrary: s)
  case (Cons e es)
  have "version (step e s) = version s"
    using Cons.prems version_mono[of s e] steps_mono[of "step e s" es] by simp
  then show ?case using Cons unsignalled[of e s] by simp
qed simp

end

text \<open>What a waiter can see of a client.\<close>

definition watched :: "client \<Rightarrow> (string \<Rightarrow> string \<Rightarrow> cProperty option) \<times> bool" where
  "watched c = (cl_Property c, cl_closed c)"

definition signals :: "client \<Rightarrow> client \<Rightarrow> bool" where
  "signals c c' \<longleftrightarrow> updated c \<le> updated c' \<and> (updated c' = updated c \<longrightarrow> watched c' = watched c)"

lemma signals_refl [simp]: "signals c c"
  by (simp add: signals_def)

lemma signals_signal: "updated c \<le> updated c' \<Longrightarrow> signals c (signalLocked c')"
  by (simp add: signals_def signalLocked_def)

lemma updated_put [simp]: "updated (put_property d n p c) = updated c"
  by (simp add: put_property_def split: option.split)

lemma signals_store:
  "signals c (applyDef elem v c)" "signals c (applySet s c)" "signals c (applyDel l c)"
  "signals c (fail_client e c)" "signals c (applyBlobMeta d n st m seen c)"
  by (auto simp: applyDef_def applySet_def applyDel_def fail_client_def applyBlobMeta_def Let_def
      intro!: signals_signal split: option.split)

lemma signals_quiet:
  "signals c (addMessage m c)" "signals c (softError c)" "signals c (c\<lparr>softErrs := k\<rparr>)"
  by (auto simp: signals_def watched_def addMessage_def softError_def cl_Property_def fun_eq_iff)

lemma signals_trans: "signals a b \<Longrightarrow> signals b c \<Longrightarrow> signals a c"
  by (auto simp: signals_def)

lemma signals_vector_loop: "signals c (fst (vector_loop pr k inflate as seen vs c))"
proof (induction pr k inflate as seen vs c rule: vector_loop.induct)
  case (5 pr k inflate as seen bs ts vs c)
  show ?case
  proof (cases "readOneBlob (sinkFor k (attr_value as ''device'')) inflate (attr_value as ''device'')
      (attr_value as ''name'') bs ts")
    case (Some r)
    have s: "signals c (c\<lparr>softErrs := softErrs c + brSoft r\<rparr>)" by (rule signals_quiet)
    show ?thesis
      using 5[OF Some refl] Some s signals_trans[OF s] signals_store(4)
      by (cases "brErr r"; cases "brPanic r") (auto simp: Let_def split: prod.split)
  qed simp
qed (simp_all add: signals_store)

lemma signals_blob_reader: "signals c (blob_reader pr k inflate x c)"
  by (cases x) (simp_all add: blob_reader_def readBlobVector_def signals_vector_loop)

lemma signals_read_inbound: "signals c (read_inbound (blob_reader pr k inflate) i c)"
  by (auto simp: read_inbound_def read_elem_def Let_def signals_store signals_quiet signals_blob_reader
      split: inbound.split)

interpretation client_notifier: notifier "read_inbound (blob_reader pr k inflate)" updated watched
proof
  show "updated s \<le> updated (read_inbound (blob_reader pr k inflate) e s)" for s e
    using signals_read_inbound[of s pr k inflate e] by (simp add: signals_def)
  show "watched (read_inbound (blob_reader pr k inflate) e s) = watched s"
    if "updated (read_inbound (blob_reader pr k inflate) e s) = updated s" for s e
    using that signals_read_inbound[of s pr k inflate e] by (simp add: signals_def)
qed

section \<open>No wake-up is lost\<close>

lemma snap_of_Property: "snap_of c d n = (case cl_Property c d n of Some p \<Rightarrow> p | None \<Rightarrow> zero_cProperty)"
  by (simp add: snap_of_def cl_Property_def split: option.split)

lemma snap_of_watched: "watched c = watched c' \<Longrightarrow> snap_of c d n = snap_of c' d n"
  by (simp add: watched_def snap_of_Property)

definition satisfied :: "wait_args \<Rightarrow> client \<Rightarrow> bool" where
  "satisfied a c \<longleftrightarrow> cpRev (snap_of c (waDevice a) (waName a)) > waSince a \<and>
     waPred a (snap_of c (waDevice a) (waName a))"

lemma look_cases:
  "look a c = (let snap = snap_of c (waDevice a) (waName a)
     in if satisfied a c then Returned snap None
        else if cl_closed c then look a c else Blocked (updated c) snap)"
  by (simp add: look_def satisfied_def Let_def)

definition wait_inv :: "wait_args \<Rightarrow> system \<Rightarrow> bool" where
  "wait_inv a s \<longleftrightarrow>
     (case sWaiter s of
        Looking \<Rightarrow> True
      | Blocked g p \<Rightarrow>
          g \<le> updated (sClient s) \<and> \<not> (cpRev p > waSince a \<and> waPred a p) \<and>
          (g = updated (sClient s) \<longrightarrow>
            p = snap_of (sClient s) (waDevice a) (waName a) \<and> \<not> satisfied a (sClient s) \<and> \<not> cl_closed (sClient s))
      | Returned p err \<Rightarrow> err = None \<longrightarrow> cpRev p > waSince a \<and> waPred a p)"

lemma wait_inv_look: "wait_inv a (s\<lparr>sWaiter := look a (sClient s)\<rparr>)"
  by (auto simp: wait_inv_def look_def satisfied_def Let_def)

lemma wait_inv_step:
  assumes "wait_step (blob_reader pr k inflate) a s e t" and "wait_inv a s"
  shows "wait_inv a t"
  using assms
proof cases
  case (read i)
  let ?c = "sClient s" and ?c' = "read_inbound (blob_reader pr k inflate) i (sClient s)"
  have m: "updated ?c \<le> updated ?c'" by (rule client_notifier.version_mono)
  have w: "watched ?c' = watched ?c" if "updated ?c' = updated ?c"
    using that by (rule client_notifier.unsignalled)
  show ?thesis
    using assms(2) m w snap_of_watched[of ?c' ?c] read
    by (auto simp: wait_inv_def satisfied_def watched_def split: waiter.splits)
next
  case look
  then show ?thesis by (simp add: wait_inv_look)
qed (auto simp: wait_inv_def split: waiter.splits)

lemma wait_run_inv: "wait_run (blob_reader pr k inflate) a s t \<Longrightarrow> wait_inv a s \<Longrightarrow> wait_inv a t"
  by (induction rule: wait_run.induct) (auto intro: wait_inv_step)

section \<open>Properties\<close>

text \<open>For the witnesses: a client without sinks that learns of a text property while a waiter that
  looked too early is blocked.\<close>

definition no_sinks :: "unit sinks" where
  "no_sinks = \<lparr>blobSink = None, blobSinks = Map.empty\<rparr>"

abbreviation sample_blob :: "xml \<Rightarrow> client \<Rightarrow> client" where
  "sample_blob \<equiv> blob_reader (\<lambda>r. True) no_sinks (\<lambda>b. None)"

definition sample_wait :: wait_args where
  "sample_wait = \<lparr>waDevice = ''D'', waName = ''P'', waSince = 0, waPred = (\<lambda>p. cpState p = ''Ok'' \<or> cpState p = ''Alert'')\<rparr>"

definition sample_def :: xml where
  "sample_def = Elem ''defTextVector'' [(''device'', ''D''), (''name'', ''P''), (''state'', ''Ok'')] []"

definition sample_start :: system where
  "sample_start = \<lparr>sClient = newClient, sWaiter = Looking, sCtx = CtxLive\<rparr>"

definition sample_later :: client where
  "sample_later = applyDef ''defTextVector'' (decode_wDefVector sample_def) newClient"

lemma sample_read: "read_inbound sample_blob (Element sample_def) newClient = sample_later"
  by (simp add: read_inbound_def read_elem_def sample_def_def def_elems_def sample_later_def Let_def)

lemma cl_Property_new: "cl_Property newClient d n = None"
  by (simp add: cl_Property_def newClient_def)

lemma sample_later_facts: "updated sample_later = 1" "\<not> cl_closed sample_later"
  "snap_of sample_later ''D'' ''P'' = (def_property ''defTextVector'' (decode_wDefVector sample_def))\<lparr>cpRev := 1\<rparr>"
  "cpState (def_property ''defTextVector'' (decode_wDefVector sample_def)) = ''Ok''"
proof -
  have dn: "wdDevice (decode_wDefVector sample_def) = ''D''" "wdName (decode_wDefVector sample_def) = ''P''"
    by (simp_all add: decode_wDefVector_def sample_def_def get_attr_def)
  show "updated sample_later = 1" "\<not> cl_closed sample_later"
    by (simp_all add: sample_later_def applyDef_def Let_def newClient_def signalLocked_def)
  show "snap_of sample_later ''D'' ''P'' = (def_property ''defTextVector'' (decode_wDefVector sample_def))\<lparr>cpRev := 1\<rparr>"
    by (simp add: snap_of_Property sample_later_def cl_Property_applyDef dn cl_Property_new)
  show "cpState (def_property ''defTextVector'' (decode_wDefVector sample_def)) = ''Ok''"
    by (simp add: def_property_def decode_wDefVector_def sample_def_def get_attr_def)
qed

lemma sample_blocked:
  "wait_run sample_blob sample_wait sample_start
     \<lparr>sClient = sample_later, sWaiter = Blocked 0 zero_cProperty, sCtx = CtxLive\<rparr>"
proof -
  let ?s1 = "sample_start\<lparr>sWaiter := Blocked 0 zero_cProperty\<rparr>"
  have "look sample_wait newClient = Blocked 0 zero_cProperty"
    by (simp add: look_def sample_wait_def snap_of_def newClient_def zero_cProperty_def)
  then have "wait_step sample_blob sample_wait sample_start Look ?s1"
    using wait_step.look[of sample_start sample_blob sample_wait] by (simp add: sample_start_def)
  moreover have "wait_step sample_blob sample_wait ?s1 (Read (Element sample_def)) (?s1\<lparr>sClient := sample_later\<rparr>)"
    using wait_step.read[of ?s1 sample_blob sample_wait "Element sample_def"]
    by (simp add: sample_read sample_start_def) (simp add: newClient_def)
  ultimately show ?thesis
    using wait_run.wait_on[OF wait_run.wait_on[OF wait_run.wait_here]] by (simp add: sample_start_def)
qed

lemma look_returns:
  "satisfied a c \<Longrightarrow> look a c = Returned (snap_of c (waDevice a) (waName a)) None"
  "\<not> satisfied a c \<Longrightarrow> cl_closed c \<Longrightarrow> \<exists>e. look a c = Returned (snap_of c (waDevice a) (waName a)) (Some e)"
  by (simp_all add: look_def satisfied_def Let_def)

text \<open>C16: No wake-up is lost: however the read loop and a waiter interleave, a waiter that is blocked
  while the property satisfies it has its channel closed already, and returns the property after
  waking and looking once more; when the connection has died it returns an error the same way.\<close>

theorem no_lost_wakeup:
  assumes "wait_run (blob_reader pr k inflate) a s t" and "sWaiter s = Looking"
    and "sWaiter t = Blocked g p" and "satisfied a (sClient t) \<or> cl_closed (sClient t)"
  shows "\<exists>u v q err. wait_step (blob_reader pr k inflate) a t Wake u \<and>
    wait_step (blob_reader pr k inflate) a u Look v \<and> sWaiter v = Returned q err \<and>
    (satisfied a (sClient t) \<longrightarrow> q = snap_of (sClient t) (waDevice a) (waName a) \<and> err = None) \<and>
    (\<not> satisfied a (sClient t) \<longrightarrow> err \<noteq> None)"
proof -
  have "wait_inv a t" using wait_run_inv[OF assms(1)] assms(2) by (simp add: wait_inv_def)
  then have "g < updated (sClient t)" using assms(3,4) by (auto simp: wait_inv_def le_less)
  then have w: "wait_step (blob_reader pr k inflate) a t Wake (t\<lparr>sWaiter := Looking\<rparr>)"
    using assms(3) by (rule wait_step.wake[rotated])
  have l: "wait_step (blob_reader pr k inflate) a (t\<lparr>sWaiter := Looking\<rparr>) Look
      ((t\<lparr>sWaiter := Looking\<rparr>)\<lparr>sWaiter := look a (sClient t)\<rparr>)"
    using wait_step.look[of "t\<lparr>sWaiter := Looking\<rparr>" "blob_reader pr k inflate" a] by simp
  obtain q err where "look a (sClient t) = Returned q err"
    "satisfied a (sClient t) \<longrightarrow> q = snap_of (sClient t) (waDevice a) (waName a) \<and> err = None"
    "\<not> satisfied a (sClient t) \<longrightarrow> err \<noteq> None"
    using look_returns[of a "sClient t"] assms(4) by blast
  then show ?thesis using w l by (metis (no_types, lifting) system.select_convs(2) system.surjective system.update_convs(2))
qed

theorem no_lost_wakeup_witness:
  "\<exists>u v q. wait_step sample_blob sample_wait \<lparr>sClient = sample_later, sWaiter = Blocked 0 zero_cProperty, sCtx = CtxLive\<rparr> Wake u \<and>
     wait_step sample_blob sample_wait u Look v \<and> sWaiter v = Returned q None"
proof -
  have sat: "satisfied sample_wait sample_later"
    using sample_later_facts(3,4) by (simp add: satisfied_def sample_wait_def)
  show ?thesis
    using no_lost_wakeup[OF sample_blocked, of 0 zero_cProperty] sat by (auto simp: sample_start_def)
qed

text \<open>A command that waits for its acknowledgement returns without error only on an update after
  the command, with the property in state Ok; an Alert is an error that carries the device's
  reason.\<close>

theorem setAndWait_acknowledged:
  assumes "a = set_wait_args c0 device name"
    and "wait_run (blob_reader pr k inflate) a \<lparr>sClient = c, sWaiter = Looking, sCtx = x\<rparr> t"
    and "sWaiter t = Returned p err" and "set_wait_result device name p err = (q, None)"
  shows "q = p \<and> cpState q = ''Ok'' \<and>
    cpRev q > (case cl_Property c0 device name of Some old \<Rightarrow> cpRev old | None \<Rightarrow> 0)"
proof -
  have "wait_inv a t" using wait_run_inv[OF assms(2)] by (simp add: wait_inv_def)
  moreover have "err = None" "q = p" "cpState p \<noteq> ''Alert''"
    using assms(4) by (auto simp: set_wait_result_def split: option.splits if_splits)
  ultimately show ?thesis
    using assms(1,3) by (auto simp: wait_inv_def set_wait_args_def)
qed

theorem setAndWait_acknowledged_witness:
  "cpRev (snap_of sample_later ''D'' ''P'') > 0 \<and> cpState (snap_of sample_later ''D'' ''P'') = ''Ok''"
proof -
  let ?p = "snap_of sample_later ''D'' ''P''"
  let ?s = "\<lparr>sClient = sample_later, sWaiter = Looking, sCtx = CtxLive\<rparr>"
  have a: "sample_wait = set_wait_args newClient ''D'' ''P''"
    by (simp add: set_wait_args_def sample_wait_def cl_Property_def newClient_def)
  have "look sample_wait sample_later = Returned ?p None"
    using sample_later_facts by (simp add: look_def sample_wait_def)
  then have "wait_step sample_blob sample_wait ?s Look (?s\<lparr>sWaiter := Returned ?p None\<rparr>)"
    using wait_step.look[of ?s sample_blob sample_wait] by simp
  then have run: "wait_run sample_blob sample_wait ?s (?s\<lparr>sWaiter := Returned ?p None\<rparr>)"
    by (rule wait_run.wait_on[OF wait_run.wait_here])
  have "set_wait_result ''D'' ''P'' ?p None = (?p, None)"
    using sample_later_facts by (simp add: set_wait_result_def)
  then show ?thesis
    using setAndWait_acknowledged[OF a run, of ?p None ?p] by (simp add: cl_Property_def newClient_def)
qed

end
