(* ===== verification/ClientCalls.thy ===== *)
theory ClientCalls
  imports ClientWait
begin

text \<open>
  The blocking calls of \<open>client/client.go\<close>: \<open>Wait\<close>, \<open>WaitRev\<close>, \<open>WaitDevices\<close> and the commands that wait
  for an acknowledgement, as functions of what arrives while they block. A turn is what happens
  during one call: the read loop takes in a chunk of events between two looks of the caller, and
  when the chunks are used up the caller's context ends; what arrives after the caller's last
  look is kept apart. Sending may be refused by the connection.
\<close>

section \<open>The caller's world\<close>

record turn =
  tuChunks :: "inbound list list"
  tuLate :: "inbound list"
  tuPayloads :: "(blobInfo \<times> byte list) list"
  tuCtx :: "string option"

definition idle_turn :: turn where
  "idle_turn = \<lparr>tuChunks = [], tuLate = [], tuPayloads = [], tuCtx = None\<rparr>"

text \<open>The client, what it has sent, how its next writes fare, the turns to come, and the error of
  the context of the run, if it has ended.\<close>

record world =
  cwClient :: client
  cwSent :: "xml list"
  cwRefusals :: "string option list"
  cwTurns :: "turn list"
  cwCtx :: "string option"

definition feed :: "(xml \<Rightarrow> client \<Rightarrow> client) \<Rightarrow> inbound list \<Rightarrow> client \<Rightarrow> client" where
  "feed blob is c = (if cl_closed c then c else readLoop blob is c)"

definition next_turn :: "world \<Rightarrow> turn" where
  "next_turn w = (case cwTurns w of [] \<Rightarrow> idle_turn\<lparr>tuCtx := cwCtx w\<rparr> | t # ts \<Rightarrow> t)"

section \<open>Requests\<close>

definition send_elem :: "xml \<Rightarrow> world \<Rightarrow> string option \<times> world" where
  "send_elem x w =
     (case cwRefusals w of
        Some e # rs \<Rightarrow> (Some e, w\<lparr>cwRefusals := rs\<rparr>)
      | rs \<Rightarrow> (None, w\<lparr>cwRefusals := tl rs, cwSent := cwSent w @ [x]\<rparr>))"

definition GetProperties :: "string \<Rightarrow> string \<Rightarrow> world \<Rightarrow> string option \<times> world" where
  "GetProperties dev name w = send_elem (wGetProperties dev name) w"

definition EnableBLOB :: "string \<Rightarrow> string \<Rightarrow> string \<Rightarrow> world \<Rightarrow> string option \<times> world" where
  "EnableBLOB dev name mode w = send_elem (wEnableBLOB dev name mode) w"

text \<open>\<open>Properties\<close> ranges over a Go map, in an order of the runtime's choosing: \<open>enum\<close>.\<close>

definition map_order :: "((string \<rightharpoonup> cProperty) \<Rightarrow> cProperty list) \<Rightarrow> bool" where
  "map_order enum \<longleftrightarrow> (\<forall>dm. finite (dom dm) \<longrightarrow> set (enum dm) = ran dm \<and> length (enum dm) = card (dom dm))"

definition Properties :: "((string \<rightharpoonup> cProperty) \<Rightarrow> cProperty list) \<Rightarrow> client \<Rightarrow> string \<Rightarrow> cProperty list" where
  "Properties enum c dev = (case store c dev of None \<Rightarrow> [] | Some dm \<Rightarrow> map clone (enum dm))"

section \<open>Blocking\<close>

text \<open>The caller looks, and again after each chunk, until a look decides.\<close>

fun looks ::
  "(xml \<Rightarrow> client \<Rightarrow> client) \<Rightarrow> (client \<Rightarrow> 'r option) \<Rightarrow> inbound list list \<Rightarrow> client \<Rightarrow>
   'r option \<times> client \<times> inbound list list" where
  "looks blob f [] c = (f c, c, [])"
| "looks blob f (ch # chs) c =
     (case f c of Some r \<Rightarrow> (Some r, c, ch # chs) | None \<Rightarrow> looks blob f chs (feed blob ch c))"

text \<open>A call: the result of the look that decides, or else what \<open>late\<close> makes of the client at the last
  look and at the end.\<close>

definition blocking ::
  "(xml \<Rightarrow> client \<Rightarrow> client) \<Rightarrow> (client \<Rightarrow> 'r option) \<Rightarrow> (client \<Rightarrow> client \<Rightarrow> 'r) \<Rightarrow> world \<Rightarrow> 'r \<times> world" where
  "blocking blob f late w =
     (let t = next_turn w
      in case looks blob f (tuChunks t) (cwClient w) of
           (r, c, rest) \<Rightarrow>
             let c' = feed blob (concat rest @ tuLate t) c
             in (case r of Some v \<Rightarrow> v | None \<Rightarrow> late c c',
                 w\<lparr>cwClient := c', cwTurns := tl (cwTurns w), cwCtx := tuCtx t\<rparr>))"

text \<open>\<open>WaitRevCtx\<close> with a context that ends as \<open>x\<close>; \<open>WaitRev\<close>'s ends by its deadline.\<close>

definition WaitRevCtx ::
  "(xml \<Rightarrow> client \<Rightarrow> client) \<Rightarrow> ctx_state \<Rightarrow> wait_args \<Rightarrow> world \<Rightarrow> (cProperty \<times> string option) \<times> world" where
  "WaitRevCtx blob x a w =
     blocking blob (\<lambda>c. case look a c of Returned p e \<Rightarrow> Some (p, e) | _ \<Rightarrow> None)
       (\<lambda>c c'. (snap_of c (waDevice a) (waName a), Some (ctx_error a x))) w"

definition WaitRev ::
  "(xml \<Rightarrow> client \<Rightarrow> client) \<Rightarrow> wait_args \<Rightarrow> world \<Rightarrow> (cProperty \<times> string option) \<times> world" where
  "WaitRev blob a w = WaitRevCtx blob CtxDeadline a w"

text \<open>\<open>Wait\<close> polls: a property that satisfies the predicate, or the last known one and False. \<open>Property\<close>
  of a property that is not there is the zero value.\<close>

definition known :: "client \<Rightarrow> string \<Rightarrow> string \<Rightarrow> cProperty" where
  "known c dev name = (case cl_Property c dev name of Some p \<Rightarrow> p | None \<Rightarrow> zero_cProperty)"

definition WaitCtx ::
  "(xml \<Rightarrow> client \<Rightarrow> client) \<Rightarrow> string \<Rightarrow> string \<Rightarrow> (cProperty \<Rightarrow> bool) \<Rightarrow> world \<Rightarrow> (cProperty \<times> bool) \<times> world" where
  "WaitCtx blob dev name pred w =
     blocking blob
       (\<lambda>c. if (case cl_Property c dev name of Some p \<Rightarrow> pred p | None \<Rightarrow> False) then Some (known c dev name, True)
            else if cl_closed c then Some (known c dev name, False) else None)
       (\<lambda>c c'. (known c' dev name, False)) w"

definition WaitDevicesCtx :: "(xml \<Rightarrow> client \<Rightarrow> client) \<Rightarrow> nat \<Rightarrow> world \<Rightarrow> bool \<times> world" where
  "WaitDevicesCtx blob n w =
     blocking blob
       (\<lambda>c. if length (Devices c) \<ge> n then Some True else if cl_closed c then Some False else None)
       (\<lambda>c c'. length (Devices c') \<ge> n) w"

definition setAndWaitCtx ::
  "(xml \<Rightarrow> client \<Rightarrow> client) \<Rightarrow> ctx_state \<Rightarrow> string \<Rightarrow> string \<Rightarrow> xml \<Rightarrow> world \<Rightarrow> (cProperty \<times> string option) \<times> world" where
  "setAndWaitCtx blob x dev name request w =
     (let a = set_wait_args (cwClient w) dev name
      in case send_elem request w of
           (Some e, w1) \<Rightarrow> ((zero_cProperty, Some e), w1)
         | (None, w1) \<Rightarrow>
             (case WaitRevCtx blob x a w1 of ((p, err), w2) \<Rightarrow> (set_wait_result dev name p err, w2)))"

definition SetSwitchAndWait ::
  "(xml \<Rightarrow> client \<Rightarrow> client) \<Rightarrow> string \<Rightarrow> string \<Rightarrow> (string \<times> bool) list \<Rightarrow> world \<Rightarrow> (cProperty \<times> string option) \<times> world" where
  "SetSwitchAndWait blob dev name states w = setAndWaitCtx blob CtxDeadline dev name (cl_SetSwitch dev name states) w"

definition SetNumberAndWait ::
  "(xml \<Rightarrow> client \<Rightarrow> client) \<Rightarrow> string \<Rightarrow> string \<Rightarrow> (string \<times> float64) list \<Rightarrow> world \<Rightarrow> (cProperty \<times> string option) \<times> world" where
  "SetNumberAndWait blob dev name vals w = setAndWaitCtx blob CtxDeadline dev name (cl_SetNumber dev name vals) w"

definition SetTextAndWait ::
  "(xml \<Rightarrow> client \<Rightarrow> client) \<Rightarrow> string \<Rightarrow> string \<Rightarrow> (string \<times> string) list \<Rightarrow> world \<Rightarrow> (cProperty \<times> string option) \<times> world" where
  "SetTextAndWait blob dev name vals w = setAndWaitCtx blob CtxDeadline dev name (cl_SetText dev name vals) w"

section \<open>A call keeps what the read loop keeps\<close>

lemma feed_keeps:
  assumes "\<And>i c. P c \<Longrightarrow> P (read_inbound blob i c)" and "P c"
  shows "P (feed blob is c)"
proof -
  have "P c \<Longrightarrow> P (readLoop blob is c)" for c
    by (induction "is" arbitrary: c) (auto simp: Let_def assms(1))
  then show ?thesis using assms(2) by (simp add: feed_def)
qed

lemma looks_keeps:
  assumes "\<And>i c. P c \<Longrightarrow> P (read_inbound blob i c)" and "P c"
  shows "P (fst (snd (looks blob f chs c)))"
  using assms(2)
proof (induction chs arbitrary: c)
  case (Cons ch chs)
  then show ?case using feed_keeps[of P blob, OF assms(1)] by (auto split: option.split)
qed simp

lemma blocking_keeps:
  assumes "\<And>i c. P c \<Longrightarrow> P (read_inbound blob i c)" and "P (cwClient w)"
  shows "P (cwClient (snd (blocking blob f late w)))"
proof -
  obtain r c rest where l: "looks blob f (tuChunks (next_turn w)) (cwClient w) = (r, c, rest)"
    by (cases "looks blob f (tuChunks (next_turn w)) (cwClient w)") auto
  have "P c" using looks_keeps[of P blob "cwClient w" f "tuChunks (next_turn w)", OF assms] l by simp
  then show ?thesis using feed_keeps[of P blob, OF assms(1)] by (simp add: blocking_def l Let_def)
qed

lemma blocking_sent: "cwSent (snd (blocking blob f late w)) = cwSent w"
  by (simp add: blocking_def Let_def split: prod.split)

lemma looks_decided: "looks blob f chs c = (Some r, c', rest) \<Longrightarrow> f c' = Some r"
  by (induction chs arbitrary: c) (auto split: option.splits)

lemma looks_undecided: "looks blob f chs c = (None, c', rest) \<Longrightarrow> f c' = None"
  by (induction chs arbitrary: c) (auto split: option.splits)

section \<open>A call is a run of the waiter\<close>

lemma wait_run_trans: "wait_run blob a s t \<Longrightarrow> wait_run blob a t u \<Longrightarrow> wait_run blob a s u"
  by (rotate_tac, induction rule: wait_run.induct) (auto intro: wait_run.wait_on)

lemma feed_Cons: "feed blob (i # is) c = (if cl_closed c then c else feed blob is (read_inbound blob i c))"
  by (simp add: feed_def Let_def)

lemma wait_run_feed: "wait_run blob a s (s\<lparr>sClient := feed blob is (sClient s)\<rparr>)"
proof (induction "is" arbitrary: s)
  case Nil
  show ?case using wait_run.wait_here[of blob a s] by (simp add: feed_def)
next
  case (Cons i "is")
  show ?case
  proof (cases "cl_closed (sClient s)")
    case False
    have "wait_run blob a s (s\<lparr>sClient := read_inbound blob i (sClient s)\<rparr>)"
      by (rule wait_run.wait_on[OF wait_run.wait_here wait_step.read[OF False]])
    then show ?thesis
      using wait_run_trans Cons.IH[of "s\<lparr>sClient := read_inbound blob i (sClient s)\<rparr>"] False by (fastforce simp: feed_Cons)
  qed (use wait_run.wait_here[of blob a s] in \<open>simp add: feed_Cons\<close>)
qed

lemma look_Blocked: "look a c = Blocked g p \<Longrightarrow> g = updated c \<and> \<not> cl_closed c \<and> p = snap_of c (waDevice a) (waName a)"
  by (simp add: look_def Let_def split: if_splits)

lemma look_watched:
  assumes "look a c = Blocked g p" and "watched c' = watched c" and "updated c' = updated c"
  shows "look a c' = Blocked g p"
  using assms snap_of_watched[OF assms(2), of "waDevice a" "waName a"]
  by (simp add: look_def Let_def watched_def split: if_splits)

lemma feed_notifies:
  "updated c \<le> updated (feed (blob_reader pr k inflate) is c)"
  "updated (feed (blob_reader pr k inflate) is c) = updated c \<Longrightarrow> watched (feed (blob_reader pr k inflate) is c) = watched c"
proof -
  have "signals c (feed (blob_reader pr k inflate) is c)"
    by (rule feed_keeps[of "signals c"]) (auto intro: signals_trans signals_read_inbound)
  then show "updated c \<le> updated (feed (blob_reader pr k inflate) is c)"
    "updated (feed (blob_reader pr k inflate) is c) = updated c \<Longrightarrow> watched (feed (blob_reader pr k inflate) is c) = watched c"
    by (simp_all add: signals_def)
qed

definition decided :: "wait_args \<Rightarrow> client \<Rightarrow> (cProperty \<times> string option) option" where
  "decided a c = (case look a c of Returned p e \<Rightarrow> Some (p, e) | _ \<Rightarrow> None)"

lemma looks_run:
  assumes "looks (blob_reader pr k inflate) (decided a) chs c = (r, c', rest)" and "W = Looking \<or> W = look a c"
  shows "wait_run (blob_reader pr k inflate) a \<lparr>sClient = c, sWaiter = W, sCtx = x\<rparr> \<lparr>sClient = c', sWaiter = look a c', sCtx = x\<rparr>"
  using assms
proof (induction chs arbitrary: c W)
  case (Cons ch chs)
  let ?B = "blob_reader pr k inflate" and ?c1 = "feed (blob_reader pr k inflate) ch c"
  have look: "wait_run ?B a \<lparr>sClient = c, sWaiter = W, sCtx = x\<rparr> \<lparr>sClient = c, sWaiter = look a c, sCtx = x\<rparr>"
    using Cons.prems(2) wait_run.wait_here wait_run.wait_on[OF wait_run.wait_here wait_step.look[of "\<lparr>sClient = c, sWaiter = W, sCtx = x\<rparr>"]]
    by auto
  show ?case
  proof (cases "decided a c")
    case (Some v)
    then show ?thesis using Cons.prems(1) look by simp
  next
    case None
    then obtain g p where b: "look a c = Blocked g p" by (auto simp: decided_def look_def Let_def split: if_splits)
    have fed: "wait_run ?B a \<lparr>sClient = c, sWaiter = W, sCtx = x\<rparr> \<lparr>sClient = ?c1, sWaiter = Blocked g p, sCtx = x\<rparr>"
      using wait_run_trans[OF look wait_run_feed[of ?B a _ ch]] by (simp add: b)
    have rest: "looks ?B (decided a) chs ?c1 = (r, c', rest)" using Cons.prems(1) None by simp
    show ?thesis
    proof (cases "updated ?c1 = updated c")
      case True
      then have "look a ?c1 = Blocked g p" using look_watched[OF b] feed_notifies(2) by blast
      then show ?thesis using wait_run_trans[OF fed Cons.IH[OF rest]] by simp
    next
      case False
      then have "g < updated ?c1" using feed_notifies(1)[of c pr k inflate ch] look_Blocked[OF b] by simp
      then have "wait_run ?B a \<lparr>sClient = c, sWaiter = W, sCtx = x\<rparr> \<lparr>sClient = ?c1, sWaiter = Looking, sCtx = x\<rparr>"
        using wait_run.wait_on[OF fed wait_step.wake[of "\<lparr>sClient = ?c1, sWaiter = Blocked g p, sCtx = x\<rparr>" g p]] by simp
      then show ?thesis using wait_run_trans Cons.IH[OF rest] by blast
    qed
  qed
next
  case Nil
  then show ?case
    using wait_run.wait_here wait_run.wait_on[OF wait_run.wait_here wait_step.look[of "\<lparr>sClient = c, sWaiter = W, sCtx = x\<rparr>"]]
    by auto
qed

lemma decided_look: "decided a c = Some (p, e) \<Longrightarrow> look a c = Returned p e"
  by (simp add: decided_def split: waiter.splits)

lemma blocking_decided:
  assumes "blocking blob f late w = (v, w')" and "\<And>c c'. late c c' \<noteq> v"
  shows "\<exists>c. f c = Some v"
proof -
  obtain r c rest where l: "looks blob f (tuChunks (next_turn w)) (cwClient w) = (r, c, rest)"
    by (cases "looks blob f (tuChunks (next_turn w)) (cwClient w)") auto
  then have "r = Some v" using assms by (cases r) (auto simp: blocking_def Let_def)
  then show ?thesis using looks_decided[of blob f "tuChunks (next_turn w)" "cwClient w" v c rest] l by blast
qed

lemma WaitRevCtx_ok:
  assumes "WaitRevCtx blob x a w = ((p, None), w')"
  shows "\<exists>c. p = snap_of c (waDevice a) (waName a) \<and> satisfied a c"
proof -
  obtain c where "decided a c = Some (p, None)"
    using blocking_decided[of blob "decided a" _ w] assms unfolding WaitRevCtx_def decided_def[abs_def] by fastforce
  then have "look a c = Returned p None" by (rule decided_look)
  then show ?thesis by (intro exI[of _ c]) (simp add: look_def satisfied_def Let_def split: if_splits)
qed

section \<open>Properties\<close>


text \<open>For the witnesses: a property that is defined while the caller waits for it.\<close>

definition arriving :: world where
  "arriving = \<lparr>cwClient = newClient, cwSent = [], cwRefusals = [],
     cwTurns = [idle_turn\<lparr>tuChunks := [[], [Element sample_def]]\<rparr>], cwCtx = None\<rparr>"


text \<open>C22: A command that waits for its acknowledgement returns without error only when its request has
  been sent, and with the property in state Ok at a revision later than any known before the
  command.\<close>

theorem set_acknowledged:
  assumes "setAndWaitCtx blob x dev name request w = ((p, None), w')"
  shows "cwSent w' = cwSent w @ [request] \<and> cpState p = ''Ok'' \<and>
    cpRev p > (case cl_Property (cwClient w) dev name of Some old \<Rightarrow> cpRev old | None \<Rightarrow> 0)"
proof -
  let ?a = "set_wait_args (cwClient w) dev name"
  obtain w1 where w1: "send_elem request w = (None, w1)"
    using assms by (cases "send_elem request w") (auto simp: setAndWaitCtx_def Let_def split: option.splits)
  obtain q err w2 where wait: "WaitRevCtx blob x ?a w1 = ((q, err), w2)" by (metis surj_pair)
  have res: "set_wait_result dev name q err = (p, None)" "w2 = w'"
    using assms by (simp_all add: setAndWaitCtx_def Let_def w1 wait)
  then have q: "err = None" "q = p" "cpState p \<noteq> ''Alert''"
    by (auto simp: set_wait_result_def split: option.splits if_splits)
  obtain c where c: "p = snap_of c dev name" "satisfied ?a c"
    using WaitRevCtx_ok[of blob x ?a w1 p w2] wait q by (auto simp: set_wait_args_def)
  have "cwSent w2 = cwSent w1" using blocking_sent wait unfolding WaitRevCtx_def by (metis snd_conv)
  moreover have "cwSent w1 = cwSent w @ [request]"
    using w1 by (auto simp: send_elem_def split: list.splits option.splits)
  ultimately show ?thesis using c q(3) res(2) by (auto simp: satisfied_def set_wait_args_def)
qed

theorem set_acknowledged_witness:
  "\<exists>p w'. SetTextAndWait sample_blob ''D'' ''P'' [] arriving = ((p, None), w') \<and> cpState p = ''Ok'' \<and>
    cwSent w' = [cl_SetText ''D'' ''P'' []]"
proof -
  let ?r = "setAndWaitCtx sample_blob CtxDeadline ''D'' ''P'' (cl_SetText ''D'' ''P'' []) arriving"
  have "snd (fst ?r) = None" by code_simp
  then have r: "?r = ((fst (fst ?r), None), snd ?r)" by (metis prod.collapse)
  from set_acknowledged[OF this] show ?thesis
    using r by (intro exI[of _ "fst (fst ?r)"] exI[of _ "snd ?r"]) (simp add: SetTextAndWait_def arriving_def)
qed

end
