(* ===== verification/Conform.thy ===== *)
theory Conform
  imports ClientCalls "HOL-Library.AList" "HOL-Library.List_Lexorder" "HOL-Library.Char_ord"
begin

text \<open>
  The conformance checker, \<open>conform/conform.go\<close>: its checks as functions from a report and the
  caller's world to both. Time enters through the turns of \<open>ClientCalls\<close>: how long a call may block is
  the length of its turn. The order in which a Go map is ranged over and the inflater are
  parameters.
\<close>

section \<open>Results\<close>

datatype Status = Pass | Fail | Warn | Info

fun Status_String :: "Status \<Rightarrow> string" where
  "Status_String Fail = ''FAIL''"
| "Status_String Warn = ''WARN''"
| "Status_String Info = ''INFO''"
| "Status_String Pass = ''PASS''"

record Result =
  reDevice :: string
  reCheck :: string
  reStatus :: Status
  reDetail :: string

record Options =
  opDevice :: string
  opMutate :: bool

record report =
  rpDev :: string
  rpResults :: "Result list"

definition rp_add :: "string \<Rightarrow> Status \<Rightarrow> string \<Rightarrow> report \<Rightarrow> report" where
  "rp_add check st detail r =
     r\<lparr>rpResults := rpResults r @ [\<lparr>reDevice = rpDev r, reCheck = check, reStatus = st, reDetail = detail\<rparr>]\<rparr>"

definition rp_pass :: "string \<Rightarrow> report \<Rightarrow> report" where
  "rp_pass check r = rp_add check Pass [] r"

definition rp_fail :: "string \<Rightarrow> string \<Rightarrow> report \<Rightarrow> report" where
  "rp_fail check detail r = rp_add check Fail detail r"

definition rp_warn :: "string \<Rightarrow> string \<Rightarrow> report \<Rightarrow> report" where
  "rp_warn check detail r = rp_add check Warn detail r"

definition rp_info :: "string \<Rightarrow> string \<Rightarrow> report \<Rightarrow> report" where
  "rp_info check detail r = rp_add check Info detail r"

definition rp_want :: "string \<Rightarrow> bool \<Rightarrow> string \<Rightarrow> report \<Rightarrow> report" where
  "rp_want check ok detail r = (if ok then rp_pass check r else rp_fail check detail r)"

definition count_status :: "Status \<Rightarrow> Result list \<Rightarrow> nat" where
  "count_status st rs = length (filter (\<lambda>q. reStatus q = st) rs)"

definition Summarize :: "Result list \<Rightarrow> nat \<times> nat \<times> nat \<times> nat" where
  "Summarize rs =
     foldl (\<lambda>(p, f, w, i) q.
        case reStatus q of Pass \<Rightarrow> (p + 1, f, w, i) | Fail \<Rightarrow> (p, f + 1, w, i)
          | Warn \<Rightarrow> (p, f, w + 1, i) | Info \<Rightarrow> (p, f, w, i + 1)) (0, 0, 0, 0) rs"

text \<open>\<open>%v\<close> of a slice of strings.\<close>

fun spaced :: "string list \<Rightarrow> string" where
  "spaced [] = []"
| "spaced [s] = s"
| "spaced (s # t # ss) = s @ '' '' @ spaced (t # ss)"

definition Sprint_list :: "string list \<Rightarrow> string" where
  "Sprint_list ss = ''['' @ spaced ss @ '']''"

section \<open>Properties by name\<close>

text \<open>A Go map from names to properties, its entries in some order.\<close>

type_synonym props = "(string \<times> cProperty) list"

definition byName :: "cProperty list \<Rightarrow> props" where
  "byName ps = foldl (\<lambda>m p. AList.update (cpName p) p m) [] ps"

definition sortedNames :: "props \<Rightarrow> string list" where
  "sortedNames props = sort (map fst props)"

definition missing :: "cProperty \<Rightarrow> string list \<Rightarrow> string list" where
  "missing p names = filter (\<lambda>n. cMember_of p n = None) names"

definition hasAll :: "cProperty \<Rightarrow> string list \<Rightarrow> bool" where
  "hasAll p names \<longleftrightarrow> length (missing p names) = 0"

definition missingMsg :: "cProperty \<Rightarrow> string list \<Rightarrow> string" where
  "missingMsg p names =
     (let ms = missing p names in if length ms > 0 then ''missing '' @ Sprint_list ms else [])"

definition member_on :: "cProperty \<Rightarrow> string \<Rightarrow> bool" where
  "member_on p name = (case cMember_of p name of Some m \<Rightarrow> cmOn m | None \<Rightarrow> False)"

section \<open>Interfaces\<close>

definition ifTelescope :: int where "ifTelescope = 1"
definition ifCCD :: int where "ifCCD = 2"
definition ifGuider :: int where "ifGuider = 4"
definition ifFocuser :: int where "ifFocuser = 8"
definition ifFilter :: int where "ifFilter = 16"
definition ifDome :: int where "ifDome = 32"
definition ifGPS :: int where "ifGPS = 64"
definition ifWeather :: int where "ifWeather = 128"
definition ifAO :: int where "ifAO = 256"
definition ifDustcap :: int where "ifDustcap = 512"
definition ifLightbox :: int where "ifLightbox = 1024"
definition ifDetector :: int where "ifDetector = 2048"
definition ifRotator :: int where "ifRotator = 4096"
definition ifSpectrograph :: int where "ifSpectrograph = 8192"
definition ifCorrelator :: int where "ifCorrelator = 16384"
definition ifAux :: int where "ifAux = 32768"

unbundle bit_operations_syntax

definition contractBits :: int where
  "contractBits =
     ifTelescope OR ifCCD OR ifGuider OR ifFocuser OR ifFilter OR ifDome OR ifGPS OR ifWeather OR ifRotator"

definition has_if :: "int \<Rightarrow> int \<Rightarrow> bool" where
  "has_if iface b \<longleftrightarrow> iface AND b \<noteq> 0"

definition interfaceNames :: "string list" where
  "interfaceNames =
     [''TELESCOPE'', ''CCD'', ''GUIDER'', ''FOCUSER'', ''FILTER'', ''DOME'', ''GPS'', ''WEATHER'',
      ''AO'', ''DUSTCAP'', ''LIGHTBOX'', ''DETECTOR'', ''ROTATOR'', ''SPECTROGRAPH'', ''CORRELATOR'', ''AUX'']"

definition interfaceList :: "int \<Rightarrow> string" where
  "interfaceList iface =
     (if iface = 0 then ''0 [GENERAL]''
      else Itoa iface @ '' '' @
        Sprint_list (map snd (filter (\<lambda>(i, name). has_if iface (push_bit i 1))
          (zip [0..<length interfaceNames] interfaceNames))))"

section \<open>Protocol checks\<close>

definition validState :: "string list" where
  "validState = [''Idle'', ''Ok'', ''Busy'', ''Alert'']"

definition validPerm :: "string list" where
  "validPerm = [''ro'', ''wo'', ''rw'']"

definition validRule :: "string list" where
  "validRule = [''OneOfMany'', ''AtMostOne'', ''AnyOfMany'']"

definition check_range :: "cProperty \<Rightarrow> report \<Rightarrow> cMember \<Rightarrow> report" where
  "check_range p r m =
     (if cmMax m < cmMin m
      then rp_fail (''number range: '' @ cpName p @ ''.'' @ cmName m)
             (''min '' @ FormatG (cmMin m) @ '' > max '' @ FormatG (cmMax m)) r
      else r)"

definition check_vector :: "report \<Rightarrow> cProperty \<Rightarrow> report" where
  "check_vector r p =
     (let r1 = (if cpState p \<notin> set validState then rp_fail (''state valid: '' @ cpName p) (''state='' @ cpState p) r else r);
          r2 = (if cpType p \<noteq> ''Light'' \<and> cpPerm p \<notin> set validPerm
                then rp_fail (''perm valid: '' @ cpName p) (''perm='' @ cpPerm p) r1 else r1);
          r3 = (if cpType p = ''Switch'' \<and> cpRule p \<notin> set validRule
                then rp_fail (''switch rule valid: '' @ cpName p) (''rule='' @ cpRule p) r2 else r2)
      in if cpType p = ''Number'' then foldl (check_range p) r3 (cpMembers p) else r3)"

definition prop_named :: "props \<Rightarrow> string \<Rightarrow> cProperty" where
  "prop_named props name = (case map_of props name of Some p \<Rightarrow> p | None \<Rightarrow> zero_cProperty)"

definition checkProtocol :: "props \<Rightarrow> report \<Rightarrow> report" where
  "checkProtocol props r = foldl (\<lambda>r n. check_vector r (prop_named props n)) r (sortedNames props)"

section \<open>Contracts on properties\<close>

definition requireProp :: "props \<Rightarrow> string \<Rightarrow> string \<Rightarrow> string \<Rightarrow> string list \<Rightarrow> report \<Rightarrow> report" where
  "requireProp props name typ perm members r =
     (case map_of props name of
        None \<Rightarrow> rp_fail (name @ '' present'') ''required property missing'' r
      | Some p \<Rightarrow>
          let r1 = rp_want (name @ '' type/perm'') (cpType p = typ \<and> cpPerm p = perm)
                (''type='' @ cpType p @ '' perm='' @ cpPerm p @ '' (want '' @ typ @ ''/'' @ perm @ '')'') r
          in if length members = 0 then r1
             else let miss = missing p members
                  in if length miss > 0 then rp_fail (name @ '' members'') (''missing '' @ Sprint_list miss) r1
                     else rp_pass (name @ '' members'') r1)"

definition requirePresent :: "props \<Rightarrow> string \<Rightarrow> report \<Rightarrow> report" where
  "requirePresent props name r =
     rp_want (name @ '' present'') (map_of props name \<noteq> None) ''required property missing'' r"

section \<open>Waiting\<close>

text \<open>\<open>waitBudget\<close>: the context's state, the time left before its deadline, if it has one, and the wait
  asked for.\<close>

definition waitBudget :: "bool \<Rightarrow> int option \<Rightarrow> int \<Rightarrow> int" where
  "waitBudget ended remaining d =
     (if ended then 0
      else case remaining of
             Some rem \<Rightarrow> if rem < d then (if rem < 0 then 0 else rem) else d
           | None \<Rightarrow> d)"

record conform_env =
  ceBlob :: "xml \<Rightarrow> client \<Rightarrow> client"
  ceEnum :: "(string \<rightharpoonup> cProperty) \<Rightarrow> cProperty list"
  cePrint :: "nat \<Rightarrow> bool"
  ceInflate :: "byte list \<Rightarrow> string + int"

definition waitForDevice :: "conform_env \<Rightarrow> string \<Rightarrow> world \<Rightarrow> bool \<times> world" where
  "waitForDevice E name w =
     blocking (ceBlob E)
       (\<lambda>c. if name \<in> set (Devices c) then Some True else if Err c \<noteq> None then Some False else None)
       (\<lambda>c c'. False) w"

text \<open>\<open>settle\<close> only waits.\<close>

definition conform_settle :: "conform_env \<Rightarrow> world \<Rightarrow> world" where
  "conform_settle E w = snd (blocking (ceBlob E) (\<lambda>c. None) (\<lambda>c c'. ()) w)"

definition rev_of :: "client \<Rightarrow> string \<Rightarrow> string \<Rightarrow> 64 word" where
  "rev_of c dev name = (case cl_Property c dev name of Some cur \<Rightarrow> cpRev cur | None \<Rightarrow> 0)"

section \<open>Checks that change state\<close>

definition connectCheck :: "conform_env \<Rightarrow> string \<Rightarrow> report \<Rightarrow> world \<Rightarrow> bool \<times> report \<times> world" where
  "connectCheck E dev r w =
     (case SetSwitchAndWait (ceBlob E) dev ''CONNECTION'' [(''CONNECT'', True)] w of
        ((p, Some err), w1) \<Rightarrow> (False, rp_fail ''CONNECT settles Ok'' err r, w1)
      | ((p, None), w1) \<Rightarrow>
          if \<not> member_on p ''CONNECT'' then
            (False, rp_fail ''CONNECT settles Ok'' ''CONNECTION settled Ok but CONNECT is not On'' r, w1)
          else
            (True, rp_want ''CONNECTION OneOfMany invariant'' (member_on p ''CONNECT'' \<noteq> member_on p ''DISCONNECT'')
               ''both or neither of CONNECT/DISCONNECT are On'' (rp_pass ''CONNECT settles Ok'' r), w1))"

definition disconnectCheck :: "conform_env \<Rightarrow> string \<Rightarrow> report \<Rightarrow> world \<Rightarrow> report \<times> world" where
  "disconnectCheck E dev r w =
     (let check = ''DISCONNECT restores initial state''; since = rev_of (cwClient w) dev ''CONNECTION''
      in case send_elem (cl_SetSwitch dev ''CONNECTION'' [(''DISCONNECT'', True)]) w of
           (Some err, w1) \<Rightarrow> (rp_fail check err r, w1)
         | (None, w1) \<Rightarrow>
             (case WaitRev (ceBlob E) \<lparr>waDevice = dev, waName = ''CONNECTION'', waSince = since,
                    waPred = (\<lambda>p. cpState p \<noteq> ''Busy'')\<rparr> w1 of
                ((p, Some err), w2) \<Rightarrow>
                  (rp_warn check (''CONNECTION did not settle after DISCONNECT: '' @ err) r, w2)
              | ((p, None), w2) \<Rightarrow>
                  (if cpState p = ''Alert'' then
                     rp_fail check (''CONNECTION settled Alert after DISCONNECT: '' @ cpMessage p) r
                   else if \<not> member_on p ''DISCONNECT'' then
                     rp_fail check ''CONNECTION settled but DISCONNECT is not On'' r
                   else rp_pass check r, w2)))"

definition pulse_verdict :: "string \<Rightarrow> cProperty \<Rightarrow> string option \<Rightarrow> report \<Rightarrow> report" where
  "pulse_verdict prop p err r =
     (let check = ''pulse guide accepted: '' @ prop
      in case err of
           Some e \<Rightarrow>
             if cpState p = ''Alert'' then rp_fail check e r
             else rp_warn check (prop @ '' was not acknowledged: '' @ e) r
         | None \<Rightarrow>
             if cpState p = ''Alert'' then rp_fail check (prop @ '' refused the pulse: '' @ cpMessage p) r
             else rp_pass check r)"

definition pulseCheck :: "conform_env \<Rightarrow> string \<Rightarrow> string \<Rightarrow> string \<Rightarrow> report \<Rightarrow> world \<Rightarrow> report \<times> world" where
  "pulseCheck E dev prop member r w =
     (let before = length (Messages (cwClient w)); since = rev_of (cwClient w) dev prop
      in case (case send_elem (cl_SetNumber dev prop [(member, Fin 10)]) w of
                 (Some e, w1) \<Rightarrow> ((zero_cProperty, Some e), w1)
               | (None, w1) \<Rightarrow>
                   WaitRev (ceBlob E) \<lparr>waDevice = dev, waName = prop, waSince = since,
                     waPred = (\<lambda>p. cpState p \<noteq> ''Busy'' \<or> member_on p member)\<rparr> w1) of
           ((p, err), w2) \<Rightarrow>
             let r1 = pulse_verdict prop p err r; msgs = Messages (cwClient w2)
             in (if length msgs > before
                 then rp_info (''pulse guide messages: '' @ prop) (Sprint_list (map Message_String (drop before msgs))) r1
                 else r1, w2))"

text \<open>\<open>exposeCheck\<close>. What \<open>BufferBlobs\<close> hands over while the two calls block is what is queued for the
  final \<open>select\<close>, which takes a payload when there is one; a turn without a payload is one whose timer
  or context fires first.\<close>

definition min_exposure :: "props \<Rightarrow> float64" where
  "min_exposure props =
     (let dur = f64_of_rat (1 / 10)
      in case map_of props ''CCD_EXPOSURE'' of
           None \<Rightarrow> dur
         | Some ex \<Rightarrow> (case cMember_of ex ''CCD_EXPOSURE_VALUE'' of
                         Some m \<Rightarrow> if dur < cmMin m then cmMin m else dur | None \<Rightarrow> dur))"

definition size_verdict :: "conform_env \<Rightarrow> blobInfo \<Rightarrow> byte list \<Rightarrow> report \<Rightarrow> report" where
  "size_verdict E info data r =
     (if biSize info \<le> 0 then r
      else case (if biCompressed info then ceInflate E data else Inr (int (length data))) of
             Inl e \<Rightarrow> rp_fail ''CCD BLOB size attr consistent'' (''compressed payload does not inflate: '' @ e) r
           | Inr n \<Rightarrow>
               rp_want ''CCD BLOB size attr consistent'' (n = biSize info)
                 (''size attr '' @ Itoa (biSize info) @ '' != decoded/uncompressed payload '' @ Itoa n @ '' bytes'') r)"

definition blob_verdict :: "conform_env \<Rightarrow> blobInfo \<Rightarrow> byte list \<Rightarrow> report \<Rightarrow> report" where
  "blob_verdict E info data r =
     (let check = ''CCD exposure delivers FITS BLOB''
      in size_verdict E info data
           (if length data = 0 then rp_fail check ''empty BLOB payload'' r
            else if \<not> Contains (ToLower (biFormat info)) ''fits'' then
              rp_fail check (''format '' @ Quote (cePrint E) (biFormat info) @ '' does not look like FITS'') r
            else rp_pass check r))"

definition exposeCheck :: "conform_env \<Rightarrow> string \<Rightarrow> props \<Rightarrow> report \<Rightarrow> world \<Rightarrow> report \<times> world" where
  "exposeCheck E dev props r w =
     (let check = ''CCD exposure delivers FITS BLOB''
      in case map_of props ''CCD_EXPOSURE'' of
           None \<Rightarrow> (r, w)
         | Some ex \<Rightarrow>
             (case EnableBLOB dev [] ''Also'' w of
                (Some e, w1) \<Rightarrow> (rp_fail check (''enableBLOB: '' @ e) r, w1)
              | (None, w1) \<Rightarrow>
                  (case SetNumberAndWait (ceBlob E) dev ''CCD_EXPOSURE'' [(''CCD_EXPOSURE_VALUE'', min_exposure props)] w1 of
                     ((p, Some e), w2) \<Rightarrow> (rp_fail check (''CCD_EXPOSURE did not settle Ok: '' @ e) r, w2)
                   | ((p, None), w2) \<Rightarrow>
                       let w3 = snd (blocking (ceBlob E) (\<lambda>c. None) (\<lambda>c c'. ()) w2)
                       in (case filter (\<lambda>(info, data). biDevice info = dev) (tuPayloads (next_turn w1) @ tuPayloads (next_turn w2)) of
                             (info, data) # others \<Rightarrow> blob_verdict E info data r
                           | [] \<Rightarrow>
                               (case cwCtx w3 of
                                  Some e \<Rightarrow> rp_fail check (''aborted: '' @ e) r
                                | None \<Rightarrow> rp_fail check ''no BLOB delivered after the exposure settled Ok'' r), w3))))"

section \<open>Contracts\<close>

definition blob_name :: "props \<Rightarrow> string" where
  "blob_name props =
     (case map_of props ''CCD1'' of
        Some p \<Rightarrow> if cpType p = ''BLOB'' then ''CCD1''
                  else (case find (\<lambda>n. cpType (prop_named props n) = ''BLOB'') (sortedNames props) of Some n \<Rightarrow> n | None \<Rightarrow> [])
      | None \<Rightarrow> (case find (\<lambda>n. cpType (prop_named props n) = ''BLOB'') (sortedNames props) of Some n \<Rightarrow> n | None \<Rightarrow> []))"

definition checkCCD :: "conform_env \<Rightarrow> string \<Rightarrow> props \<Rightarrow> bool \<Rightarrow> Options \<Rightarrow> report \<Rightarrow> world \<Rightarrow> report \<times> world" where
  "checkCCD E dev props active opts r w =
     (let r1 = requireProp props ''CCD_EXPOSURE'' ''Number'' ''rw'' [''CCD_EXPOSURE_VALUE''] r;
          r2 = requireProp props ''CCD_INFO'' ''Number'' ''ro''
                 [''CCD_PIXEL_SIZE'', ''CCD_PIXEL_SIZE_X'', ''CCD_PIXEL_SIZE_Y'', ''CCD_MAX_X'', ''CCD_MAX_Y''] r1;
          b = blob_name props;
          r3 = (if b = [] then rp_fail ''CCD BLOB vector present'' ''no BLOB property to carry frames (conventionally CCD1)'' r2
                else if b \<noteq> ''CCD1'' then
                  rp_add ''CCD BLOB vector present'' Pass (''property '' @ b @ '' (conventionally CCD1)'') r2
                else rp_pass ''CCD BLOB vector present'' r2)
      in if opMutate opts \<and> active then exposeCheck E dev props r3 w else (r3, w))"

text \<open>The checks of one interface, in the order of the code; those without effects take the report
  only.\<close>

definition telescope_contract :: "props \<Rightarrow> report \<Rightarrow> report" where
  "telescope_contract props r =
     requireProp props ''TELESCOPE_ABORT_MOTION'' ''Switch'' ''rw'' [''ABORT'']
       (requireProp props ''ON_COORD_SET'' ''Switch'' ''rw'' [''SLEW'', ''TRACK'', ''SYNC'']
         (requireProp props ''EQUATORIAL_EOD_COORD'' ''Number'' ''rw'' [''RA'', ''DEC''] r))"

definition guider_contract ::
  "conform_env \<Rightarrow> string \<Rightarrow> props \<Rightarrow> bool \<Rightarrow> Options \<Rightarrow> report \<Rightarrow> world \<Rightarrow> report \<times> world" where
  "guider_contract E dev props active opts r w =
     (let r1 = requireProp props ''TELESCOPE_TIMED_GUIDE_WE'' ''Number'' ''rw'' [''TIMED_GUIDE_W'', ''TIMED_GUIDE_E'']
                 (requireProp props ''TELESCOPE_TIMED_GUIDE_NS'' ''Number'' ''rw'' [''TIMED_GUIDE_N'', ''TIMED_GUIDE_S''] r)
      in if opMutate opts \<and> active then
           (case pulseCheck E dev ''TELESCOPE_TIMED_GUIDE_NS'' ''TIMED_GUIDE_N'' r1 w of
              (r2, w2) \<Rightarrow> pulseCheck E dev ''TELESCOPE_TIMED_GUIDE_WE'' ''TIMED_GUIDE_W'' r2 w2)
         else (r1, w))"

definition other_contracts :: "props \<Rightarrow> int \<Rightarrow> report \<Rightarrow> report" where
  "other_contracts props iface r =
     (let present = (\<lambda>n. map_of props n \<noteq> None);
          r1 = (if has_if iface ifFocuser
                then rp_want ''FOCUSER contract'' (present ''ABS_FOCUS_POSITION'' \<or> present ''FOCUS_MOTION'' \<and> present ''FOCUS_TIMER'')
                       ''need ABS_FOCUS_POSITION or FOCUS_MOTION+FOCUS_TIMER'' r else r);
          r2 = (if has_if iface ifFilter then requireProp props ''FILTER_SLOT'' ''Number'' ''rw'' [] r1 else r1);
          r3 = (if has_if iface ifDome
                then rp_want ''DOME contract'' (present ''DOME_MOTION'' \<or> present ''ABS_DOME_POSITION'')
                       ''need DOME_MOTION or ABS_DOME_POSITION'' r2 else r2);
          r4 = (if has_if iface ifGPS
                then requirePresent props ''TIME_UTC'' (requirePresent props ''GEOGRAPHIC_COORD'' r3) else r3);
          r5 = (if has_if iface ifWeather
                then (case map_of props ''WEATHER_STATUS'' of
                        None \<Rightarrow> rp_fail ''WEATHER_STATUS present'' ''required property missing'' r4
                      | Some p \<Rightarrow> rp_want ''WEATHER_STATUS is Light'' (cpType p = ''Light'') (''type='' @ cpType p)
                                    (rp_pass ''WEATHER_STATUS present'' r4))
                else r4)
      in if has_if iface ifRotator then requireProp props ''ABS_ROTATOR_ANGLE'' ''Number'' ''rw'' [] r5 else r5)"

definition checkContracts ::
  "conform_env \<Rightarrow> string \<Rightarrow> int \<Rightarrow> props \<Rightarrow> bool \<Rightarrow> Options \<Rightarrow> report \<Rightarrow> world \<Rightarrow> report \<times> world" where
  "checkContracts E dev iface props active opts r w =
     (let r1 = (if has_if iface ifTelescope then telescope_contract props r else r)
      in case (if has_if iface ifGuider then guider_contract E dev props active opts r1 w else (r1, w)) of
           (r2, w2) \<Rightarrow>
             (case (if has_if iface ifCCD then checkCCD E dev props active opts r2 w2 else (r2, w2)) of
                (r3, w3) \<Rightarrow> (other_contracts props iface r3, w3)))"

section \<open>One device\<close>

text \<open>The interfaces a device advertises: the mask, and whether there is one.\<close>

definition driver_interface :: "props \<Rightarrow> report \<Rightarrow> int \<times> bool \<times> report" where
  "driver_interface props r =
     (case map_of props ''DRIVER_INFO'' of
        None \<Rightarrow> (0, False, rp_warn ''DRIVER_INFO present'' ''device does not advertise DRIVER_INFO'' r)
      | Some di \<Rightarrow>
          let r1 = rp_pass ''DRIVER_INFO present'' r
          in case cMember_of di ''DRIVER_INTERFACE'' of
               None \<Rightarrow> (0, False, rp_fail ''DRIVER_INTERFACE present'' ''DRIVER_INFO lacks DRIVER_INTERFACE'' r1)
             | Some m \<Rightarrow>
                 (case Atoi (TrimSpace (cmValue m)) of
                    Some n \<Rightarrow> (n, True, rp_info ''DRIVER_INTERFACE'' (interfaceList n) r1)
                  | None \<Rightarrow> (0, False, rp_fail ''DRIVER_INTERFACE numeric'' (''value '' @ cmValue m) r1)))"

definition check_connection :: "props \<Rightarrow> report \<Rightarrow> report" where
  "check_connection props r =
     (case map_of props ''CONNECTION'' of
        None \<Rightarrow> rp_fail ''CONNECTION present'' ''no CONNECTION property'' r
      | Some conn \<Rightarrow>
          rp_want ''CONNECTION rule OneOfMany'' (cpRule conn = ''OneOfMany'') (''rule='' @ cpRule conn)
            (rp_want ''CONNECTION members'' (hasAll conn [''CONNECT'', ''DISCONNECT''])
                (missingMsg conn [''CONNECT'', ''DISCONNECT''])
              (rp_want ''CONNECTION is switch rw'' (cpType conn = ''Switch'' \<and> cpPerm conn = ''rw'')
                (''type='' @ cpType conn @ '' perm='' @ cpPerm conn) r)))"

definition checkDevice :: "conform_env \<Rightarrow> string \<Rightarrow> Options \<Rightarrow> report \<Rightarrow> world \<Rightarrow> report \<times> world" where
  "checkDevice E dev opts r w =
     (let w1 = snd (WaitCtx (ceBlob E) dev ''CONNECTION'' (\<lambda>p. True) w);
          props = byName (Properties (ceEnum E) (cwClient w1) dev)
      in case driver_interface props (checkProtocol props r) of
           (iface, advertised, r2) \<Rightarrow>
             let r3 = check_connection props r2;
                 conn = map_of props ''CONNECTION'';
                 hasConn = (conn \<noteq> None);
                 connected0 = (case conn of Some p \<Rightarrow> member_on p ''CONNECT'' | None \<Rightarrow> False)
             in case (if opMutate opts \<and> hasConn \<and> \<not> connected0 then connectCheck E dev r3 w1 else (False, r3, w1)) of
                  (connectedByUs, r4, w2) \<Rightarrow>
                    let connected = (connected0 \<or> connectedByUs);
                        w3 = (if connected then conform_settle E w2 else w2);
                        props1 = (if connected then byName (Properties (ceEnum E) (cwClient w3) dev) else props)
                    in case (if \<not> advertised then
                               (rp_info ''interface contracts skipped''
                                  ''no DRIVER_INTERFACE advertised; interface contract checks not run'' r4, w3)
                             else if hasConn \<and> \<not> connected \<and> \<not> opMutate opts \<and> has_if iface contractBits then
                               (rp_info ''interface contracts skipped''
                                  (''device not connected; interface properties are typically defined only after CONNECT '' @
                                   [CHR 0xE2, CHR 0x80, CHR 0x94] @ '' re-run with -mutate to connect and check them'') r4, w3)
                             else
                               checkContracts E dev iface props1 (connected \<or> \<not> hasConn) opts
                                 (if hasConn \<and> \<not> connected \<and> opMutate opts \<and> has_if iface contractBits
                                  then rp_info ''interface contracts''
                                         ''device did not connect; contracts evaluated on the pre-connect property set'' r4
                                  else r4) w3) of
                         (r5, w4) \<Rightarrow> if connectedByUs then disconnectCheck E dev r5 w4 else (r5, w4))"

section \<open>A run\<close>

fun run_devices :: "conform_env \<Rightarrow> Options \<Rightarrow> string list \<Rightarrow> report \<Rightarrow> world \<Rightarrow> report \<times> world" where
  "run_devices E opts [] r w =
     (let r1 = r\<lparr>rpDev := []\<rparr>
      in (case cwCtx w of Some e \<Rightarrow> rp_fail ''run'' (''aborted: '' @ e) r1 | None \<Rightarrow> r1, w))"
| "run_devices E opts (dev # devs) r w =
     (if opDevice opts \<noteq> [] \<and> dev \<noteq> opDevice opts then run_devices E opts devs r w
      else case cwCtx w of
             Some e \<Rightarrow> (rp_fail ''run'' (''aborted: '' @ e) (r\<lparr>rpDev := []\<rparr>), w)
           | None \<Rightarrow>
               (case checkDevice E dev opts (r\<lparr>rpDev := dev\<rparr>) w of (r1, w1) \<Rightarrow> run_devices E opts devs r1 w1))"

definition discover :: "conform_env \<Rightarrow> Options \<Rightarrow> world \<Rightarrow> bool \<times> world" where
  "discover E opts w =
     (if opDevice opts \<noteq> [] then waitForDevice E (opDevice opts) w else WaitDevicesCtx (ceBlob E) 1 w)"

definition Run :: "conform_env \<Rightarrow> Options \<Rightarrow> world \<Rightarrow> Result list \<times> world" where
  "Run E opts w =
     (let r = \<lparr>rpDev = [], rpResults = []\<rparr>; w1 = snd (GetProperties [] [] w)
      in case discover E opts w1 of
           (False, w2) \<Rightarrow>
             (rpResults
               (case cwCtx w2 of
                  Some e \<Rightarrow> rp_fail ''run'' (''aborted: '' @ e) r
                | None \<Rightarrow>
                    if opDevice opts \<noteq> [] then
                      rp_fail ''device not found''
                        (''device '' @ Quote (cePrint E) (opDevice opts) @ '' not defined within timeout (devices seen: '' @
                         Sprint_list (Devices (cwClient w2)) @ '')'') r
                    else rp_fail ''discovery'' ''no devices defined after getProperties'' r), w2)
         | (True, w2) \<Rightarrow>
             let w3 = conform_settle E w2; devs = Devices (cwClient w3);
                 r1 = rp_info ''discovery'' (Itoa (int (length devs)) @ '' device(s): '' @ Sprint_list devs) r
             in case run_devices E opts devs r1 w3 of (r2, w4) \<Rightarrow> (rpResults r2, w4))"

section \<open>Counting\<close>

lemma Summarize_counts:
  "Summarize rs = (count_status Pass rs, count_status Fail rs, count_status Warn rs, count_status Info rs)"
proof (induction rs rule: rev_induct)
  case (snoc q rs)
  then show ?case by (cases "reStatus q") (simp_all add: Summarize_def count_status_def)
qed (simp add: Summarize_def count_status_def)

section \<open>What a check adds to a report\<close>

definition adds :: "(Result \<Rightarrow> bool) \<Rightarrow> report \<Rightarrow> report \<Rightarrow> bool" where
  "adds P r r' \<longleftrightarrow> rpDev r' = rpDev r \<and> (\<exists>new. rpResults r' = rpResults r @ new \<and> (\<forall>q\<in>set new. P q))"

lemma adds_refl [simp, intro]: "adds P r r"
  by (simp add: adds_def)

lemma adds_trans: "adds P r r' \<Longrightarrow> adds P r' r'' \<Longrightarrow> adds P r r''"
  by (fastforce simp: adds_def)

lemma adds_add:
  "adds P r0 r \<Longrightarrow> P \<lparr>reDevice = rpDev r, reCheck = check, reStatus = st, reDetail = detail\<rparr> \<Longrightarrow>
    adds P r0 (rp_add check st detail r)"
  by (rule adds_trans) (auto simp: adds_def rp_add_def)

lemmas rp_defs = rp_pass_def rp_fail_def rp_warn_def rp_info_def rp_want_def

lemma rp_dev [simp]: "rpDev (rp_add check st detail r) = rpDev r"
  by (simp add: rp_add_def)

text \<open>The results that do not say that a device was connected.\<close>

definition not_connect :: "Result \<Rightarrow> bool" where
  "not_connect q \<longleftrightarrow> reCheck q \<noteq> ''CONNECT settles Ok'' \<or> reStatus q \<noteq> Pass"

definition not_fail :: "Result \<Rightarrow> bool" where
  "not_fail q \<longleftrightarrow> reStatus q \<noteq> Fail"

lemma not_connect_steps [intro]:
  "adds not_connect r0 r \<Longrightarrow> adds not_connect r0 (rp_fail check detail r)"
  "adds not_connect r0 r \<Longrightarrow> adds not_connect r0 (rp_warn check detail r)"
  "adds not_connect r0 r \<Longrightarrow> adds not_connect r0 (rp_info check detail r)"
  "adds not_connect r0 r \<Longrightarrow> check \<noteq> ''CONNECT settles Ok'' \<Longrightarrow> adds not_connect r0 (rp_pass check r)"
  "adds not_connect r0 r \<Longrightarrow> check \<noteq> ''CONNECT settles Ok'' \<Longrightarrow> adds not_connect r0 (rp_want check b detail r)"
  "adds not_connect r0 r \<Longrightarrow> check \<noteq> ''CONNECT settles Ok'' \<Longrightarrow> adds not_connect r0 (rp_add check st detail r)"
  by (auto simp: rp_defs intro!: adds_add) (simp_all add: not_connect_def)

named_theorems unconnected

lemma foldl_adds:
  assumes "\<And>r x. adds P r (f r x)"
  shows "adds P r (foldl f r xs)"
proof (induction xs arbitrary: r)
  case (Cons x xs)
  show ?case using adds_trans[OF assms[of r x] Cons.IH] by simp
qed simp

lemma check_vector_unconnected: "adds not_connect r (check_vector r p)"
proof -
  have range: "adds not_connect r (foldl (check_range p) r ms)" for r ms
    by (rule foldl_adds) (auto simp: check_range_def)
  show ?thesis
    unfolding check_vector_def Let_def by (auto intro!: adds_trans[OF _ range] not_connect_steps)
qed

lemma checkProtocol_unconnected [unconnected]: "adds not_connect r (checkProtocol props r)"
  unfolding checkProtocol_def by (rule foldl_adds) (rule check_vector_unconnected)

lemma requireProp_unconnected:
  "adds not_connect r0 r \<Longrightarrow> name @ '' type/perm'' \<noteq> ''CONNECT settles Ok'' \<Longrightarrow> name @ '' members'' \<noteq> ''CONNECT settles Ok'' \<Longrightarrow>
    adds not_connect r0 (requireProp props name typ perm members r)"
  by (auto simp: requireProp_def Let_def split: option.split intro!: not_connect_steps)

lemma requirePresent_unconnected:
  "adds not_connect r0 r \<Longrightarrow> name @ '' present'' \<noteq> ''CONNECT settles Ok'' \<Longrightarrow> adds not_connect r0 (requirePresent props name r)"
  by (auto simp: requirePresent_def intro!: not_connect_steps)

lemma pulseCheck_unconnected: "adds not_connect r0 r \<Longrightarrow> adds not_connect r0 (fst (pulseCheck E dev prop member r w))"
  by (auto simp: pulseCheck_def pulse_verdict_def Let_def split: prod.split option.split intro!: not_connect_steps)

lemma blob_verdict_unconnected: "adds not_connect r0 r \<Longrightarrow> adds not_connect r0 (blob_verdict E info data r)"
proof -
  have size: "adds not_connect r0 (size_verdict E info data r)" if "adds not_connect r0 r" for r
    unfolding size_verdict_def using that by (auto split: sum.split intro!: not_connect_steps)
  show "adds not_connect r0 r \<Longrightarrow> adds not_connect r0 (blob_verdict E info data r)"
    unfolding blob_verdict_def Let_def by (intro size) (auto intro!: not_connect_steps)
qed

lemma exposeCheck_unconnected: "adds not_connect r0 r \<Longrightarrow> adds not_connect r0 (fst (exposeCheck E dev props r w))"
  unfolding exposeCheck_def Let_def
  by (simp add: blob_verdict_unconnected not_connect_steps(1) split: prod.split option.split list.split)

lemma checkCCD_unconnected:
  assumes r: "adds not_connect r0 r"
  shows "adds not_connect r0 (fst (checkCCD E dev props active opts r w))"
proof -
  let ?r1 = "requireProp props ''CCD_EXPOSURE'' ''Number'' ''rw'' [''CCD_EXPOSURE_VALUE''] r"
  let ?r2 = "requireProp props ''CCD_INFO'' ''Number'' ''ro''
      [''CCD_PIXEL_SIZE'', ''CCD_PIXEL_SIZE_X'', ''CCD_PIXEL_SIZE_Y'', ''CCD_MAX_X'', ''CCD_MAX_Y''] ?r1"
  have r2: "adds not_connect r0 ?r2" by (intro requireProp_unconnected r) simp_all
  let ?b = "blob_name props"
  let ?r3 = "if ?b = [] then rp_fail ''CCD BLOB vector present'' ''no BLOB property to carry frames (conventionally CCD1)'' ?r2
      else if ?b \<noteq> ''CCD1'' then rp_add ''CCD BLOB vector present'' Pass (''property '' @ ?b @ '' (conventionally CCD1)'') ?r2
      else rp_pass ''CCD BLOB vector present'' ?r2"
  have "adds not_connect r0 ?r3"
    using r2 by (cases "?b = []"; cases "?b = ''CCD1''") (simp_all add: not_connect_steps)
  then show ?thesis unfolding checkCCD_def Let_def using exposeCheck_unconnected by simp
qed

lemma guider_unconnected: "adds not_connect r0 r \<Longrightarrow> adds not_connect r0 (fst (guider_contract E dev props active opts r w))"
proof -
  assume r: "adds not_connect r0 r"
  let ?r1 = "requireProp props ''TELESCOPE_TIMED_GUIDE_WE'' ''Number'' ''rw'' [''TIMED_GUIDE_W'', ''TIMED_GUIDE_E'']
      (requireProp props ''TELESCOPE_TIMED_GUIDE_NS'' ''Number'' ''rw'' [''TIMED_GUIDE_N'', ''TIMED_GUIDE_S''] r)"
  have r1: "adds not_connect r0 ?r1" by (intro requireProp_unconnected r) simp_all
  obtain r2 w2 where p: "pulseCheck E dev ''TELESCOPE_TIMED_GUIDE_NS'' ''TIMED_GUIDE_N'' ?r1 w = (r2, w2)" by fastforce
  have "adds not_connect r0 r2"
    using pulseCheck_unconnected[OF r1, of E dev "''TELESCOPE_TIMED_GUIDE_NS''" "''TIMED_GUIDE_N''" w] by (simp add: p)
  then show ?thesis using r1 pulseCheck_unconnected by (simp add: guider_contract_def p Let_def)
qed

lemma telescope_unconnected: "adds not_connect r0 r \<Longrightarrow> adds not_connect r0 (telescope_contract props r)"
  unfolding telescope_contract_def by (intro requireProp_unconnected) simp_all

text \<open>A chain of steps, one at a time.\<close>

lemma adds_Let: "adds P r0 e \<Longrightarrow> (\<And>x. adds P r0 x \<Longrightarrow> adds P r0 (f x)) \<Longrightarrow> adds P r0 (Let e f)"
  by (simp add: Let_def)

lemma adds_Let_fun: "(\<And>x. adds P r0 (f x)) \<Longrightarrow> adds P r0 (Let (e :: string \<Rightarrow> bool) f)"
  by (simp add: Let_def)

lemma other_unconnected: "adds not_connect r0 r \<Longrightarrow> adds not_connect r0 (other_contracts props iface r)"
  unfolding other_contracts_def
  by (intro adds_Let_fun adds_Let)
     (auto split: option.split intro!: requireProp_unconnected requirePresent_unconnected not_connect_steps)

lemma checkContracts_unconnected:
  assumes r: "adds not_connect r0 r"
  shows "adds not_connect r0 (fst (checkContracts E dev iface props active opts r w))"
proof -
  let ?r1 = "if has_if iface ifTelescope then telescope_contract props r else r"
  have r1: "adds not_connect r0 ?r1" using r telescope_unconnected by simp
  obtain r2 w2 where g: "(if has_if iface ifGuider then guider_contract E dev props active opts ?r1 w else (?r1, w)) = (r2, w2)"
    by fastforce
  have r2: "adds not_connect r0 r2" using r1 guider_unconnected[OF r1, of E dev props active opts w] g by (auto split: if_splits)
  obtain r3 w3 where c: "(if has_if iface ifCCD then checkCCD E dev props active opts r2 w2 else (r2, w2)) = (r3, w3)"
    by fastforce
  have "adds not_connect r0 r3" using r2 checkCCD_unconnected[OF r2, of E dev props active opts w2] c by (auto split: if_splits)
  then show ?thesis unfolding checkContracts_def Let_def g prod.case c by (simp add: other_unconnected)
qed

lemma driver_interface_unconnected: "adds not_connect r0 r \<Longrightarrow> adds not_connect r0 (snd (snd (driver_interface props r)))"
  by (auto simp: driver_interface_def Let_def split: option.split intro!: not_connect_steps)

lemma check_connection_unconnected: "adds not_connect r0 r \<Longrightarrow> adds not_connect r0 (check_connection props r)"
  unfolding check_connection_def by (auto split: option.split intro!: not_connect_steps)

section \<open>What a check sends\<close>

text \<open>Waiting sends nothing, and a connection that refuses nothing goes on so.\<close>

lemma blocking_world [simp]:
  "cwSent (snd (blocking blob f late w)) = cwSent w" "cwRefusals (snd (blocking blob f late w)) = cwRefusals w"
  by (simp_all add: blocking_def Let_def split: prod.split)

lemma waits_world [simp]:
  "cwSent (snd (WaitCtx B dev name P w)) = cwSent w" "cwSent (conform_settle E w) = cwSent w"
  "cwSent (snd (discover E opts w)) = cwSent w" "cwSent (snd (WaitRevCtx B x a w)) = cwSent w"
  "cwRefusals (snd (WaitCtx B dev name P w)) = cwRefusals w" "cwRefusals (conform_settle E w) = cwRefusals w"
  "cwRefusals (snd (discover E opts w)) = cwRefusals w" "cwRefusals (snd (WaitRevCtx B x a w)) = cwRefusals w"
  by (simp_all add: WaitCtx_def conform_settle_def discover_def waitForDevice_def WaitDevicesCtx_def WaitRevCtx_def)

lemma send_willing: "cwRefusals w = [] \<Longrightarrow> send_elem x w = (None, w\<lparr>cwRefusals := [], cwSent := cwSent w @ [x]\<rparr>)"
  by (simp add: send_elem_def)

lemma set_willing [simp]: "cwRefusals w = [] \<Longrightarrow> cwRefusals (snd (setAndWaitCtx B x dev name q w)) = []"
  by (simp add: setAndWaitCtx_def send_willing Let_def case_prod_unfold)

lemma commands_willing:
  "cwRefusals w = [] \<Longrightarrow> cwRefusals (snd (SetSwitchAndWait B dev name states w)) = []"
  "cwRefusals w = [] \<Longrightarrow> cwRefusals (snd (SetNumberAndWait B dev name vals w)) = []"
  "cwRefusals w = [] \<Longrightarrow> cwRefusals (snd (EnableBLOB dev name mode w)) = []"
  by (simp_all add: SetSwitchAndWait_def SetNumberAndWait_def EnableBLOB_def send_willing)

lemma connectCheck_willing:
  assumes "cwRefusals w = []"
  shows "cwRefusals (snd (snd (connectCheck E dev r w))) = []"
  using commands_willing(1)[OF assms, of "ceBlob E" dev "''CONNECTION''" "[(''CONNECT'', True)]"]
  by (auto simp: connectCheck_def split: prod.split option.split)

lemma pulseCheck_willing:
  assumes "cwRefusals w = []"
  shows "cwRefusals (snd (pulseCheck E dev prop member r w)) = []"
proof -
  have "cwRefusals (snd (WaitRev (ceBlob E) a w')) = []" if "cwRefusals w' = []" for a w'
    using that by (simp add: WaitRev_def)
  then show ?thesis
    using assms unfolding pulseCheck_def Let_def send_willing[OF assms] prod.case option.case case_prod_unfold snd_conv by simp
qed

lemma exposeCheck_willing:
  assumes "cwRefusals w = []"
  shows "cwRefusals (snd (exposeCheck E dev props r w)) = []"
proof (cases "map_of props ''CCD_EXPOSURE''")
  case (Some ex)
  obtain e w1 where w1: "EnableBLOB dev [] ''Also'' w = (e, w1)" by fastforce
  obtain p err w2 where w2: "SetNumberAndWait (ceBlob E) dev ''CCD_EXPOSURE'' [(''CCD_EXPOSURE_VALUE'', min_exposure props)] w1 = ((p, err), w2)"
    by (metis surj_pair)
  have r1: "cwRefusals w1 = []" using commands_willing(3)[OF assms, of dev "[]" "''Also''"] w1 by simp
  then have "cwRefusals w2 = []"
    using commands_willing(2)[OF r1, of "ceBlob E" dev "''CCD_EXPOSURE''" "[(''CCD_EXPOSURE_VALUE'', min_exposure props)]"] w2 by simp
  then show ?thesis using r1 Some w1 w2 by (simp add: exposeCheck_def Let_def split: option.split list.split)
qed (simp add: exposeCheck_def assms)

lemma checkCCD_willing: "cwRefusals w = [] \<Longrightarrow> cwRefusals (snd (checkCCD E dev props active opts r w)) = []"
  by (simp add: checkCCD_def Let_def exposeCheck_willing)

lemma guider_willing: "cwRefusals w = [] \<Longrightarrow> cwRefusals (snd (guider_contract E dev props active opts r w)) = []"
  by (simp add: guider_contract_def Let_def pulseCheck_willing case_prod_unfold)

lemma checkContracts_willing:
  assumes "cwRefusals w = []"
  shows "cwRefusals (snd (checkContracts E dev iface props active opts r w)) = []"
  using assms by (simp add: checkContracts_def Let_def case_prod_unfold checkCCD_willing guider_willing)

text \<open>Without \<open>Mutate\<close> nothing is sent.\<close>

lemma checkContracts_silent:
  assumes "\<not> opMutate opts"
  shows "cwSent (snd (checkContracts E dev iface props active opts r w)) = cwSent w"
  using assms by (simp add: checkContracts_def guider_contract_def checkCCD_def Let_def case_prod_unfold)

lemma checkDevice_silent:
  assumes "\<not> opMutate opts"
  shows "cwSent (snd (checkDevice E dev opts r w)) = cwSent w"
  using assms checkContracts_silent[OF assms] by (simp add: checkDevice_def Let_def case_prod_unfold)

lemma run_devices_silent:
  assumes "\<not> opMutate opts"
  shows "cwSent (snd (run_devices E opts devs r w)) = cwSent w"
proof (induction devs arbitrary: r w)
  case (Cons dev devs)
  then show ?case using checkDevice_silent[OF assms] by (simp add: case_prod_unfold split: option.split)
qed (simp add: Let_def)

section \<open>Leaving the device as found\<close>

text \<open>The parts of \<open>checkDevice\<close>: before connecting, the connection if one is made, the contracts, and the
  disconnection that is then owed.\<close>

lemma checkDevice_parts:
  obtains props r2 w1 us r4 w2 r5 w4 where "adds not_connect r r2"
    "if us then connectCheck E dev (check_connection props r2) w1 = (True, r4, w2)
     else adds not_connect (check_connection props r2) r4"
    "adds not_connect r4 r5" "cwRefusals w = [] \<longrightarrow> us \<longrightarrow> cwRefusals w4 = []"
    "checkDevice E dev opts r w = (if us then disconnectCheck E dev r5 w4 else (r5, w4))"
proof -
  let ?w1 = "snd (WaitCtx (ceBlob E) dev ''CONNECTION'' (\<lambda>p. True) w)"
  let ?props = "byName (Properties (ceEnum E) (cwClient ?w1) dev)"
  obtain iface advertised r2 where d: "driver_interface ?props (checkProtocol ?props r) = (iface, advertised, r2)"
    by (metis surj_pair)
  let ?r3 = "check_connection ?props r2"
  let ?has = "map_of ?props ''CONNECTION'' \<noteq> None"
  let ?c0 = "case map_of ?props ''CONNECTION'' of Some p \<Rightarrow> member_on p ''CONNECT'' | None \<Rightarrow> False"
  obtain us r4 w2 where c: "(if opMutate opts \<and> ?has \<and> \<not> ?c0 then connectCheck E dev ?r3 ?w1 else (False, ?r3, ?w1)) = (us, r4, w2)"
    by (metis surj_pair)
  have r2: "adds not_connect r r2"
    using driver_interface_unconnected[OF checkProtocol_unconnected, of r ?props ?props] unfolding d snd_conv .
  let ?w3 = "if ?c0 \<or> us then conform_settle E w2 else w2"
  let ?p1 = "if ?c0 \<or> us then byName (Properties (ceEnum E) (cwClient ?w3) dev) else ?props"
  define rest where "rest = (if \<not> advertised then
        (rp_info ''interface contracts skipped''
           ''no DRIVER_INTERFACE advertised; interface contract checks not run'' r4, ?w3)
      else if ?has \<and> \<not> (?c0 \<or> us) \<and> \<not> opMutate opts \<and> has_if iface contractBits then
        (rp_info ''interface contracts skipped''
           (''device not connected; interface properties are typically defined only after CONNECT '' @
            [CHR 0xE2, CHR 0x80, CHR 0x94] @ '' re-run with -mutate to connect and check them'') r4, ?w3)
      else
        checkContracts E dev iface ?p1 ((?c0 \<or> us) \<or> \<not> ?has) opts
          (if ?has \<and> \<not> (?c0 \<or> us) \<and> opMutate opts \<and> has_if iface contractBits
           then rp_info ''interface contracts''
                  ''device did not connect; contracts evaluated on the pre-connect property set'' r4
           else r4) ?w3)"
  obtain r5 w4 where e: "rest = (r5, w4)" by fastforce
  have all: "checkDevice E dev opts r w = (if us then disconnectCheck E dev r5 w4 else (r5, w4))"
    using e unfolding rest_def checkDevice_def Let_def d prod.case c by simp
  have "adds not_connect r4 (fst rest)"
    unfolding rest_def by (auto intro!: checkContracts_unconnected not_connect_steps)
  then have r5: "adds not_connect r4 r5" using e by simp
  have w4: "cwRefusals w4 = []" if "cwRefusals w2 = []"
  proof -
    have "cwRefusals (snd rest) = []" unfolding rest_def using that by (simp add: checkContracts_willing)
    then show ?thesis using e by simp
  qed
  have cc: "connectCheck E dev ?r3 ?w1 = (True, r4, w2)" if us using c that by (simp split: if_splits)
  have nc: "adds not_connect ?r3 r4" if "\<not> us"
  proof (cases "opMutate opts \<and> ?has \<and> \<not> ?c0")
    case True
    then have "connectCheck E dev ?r3 ?w1 = (False, r4, w2)" using c that by simp
    then show ?thesis
      by (auto simp: connectCheck_def split: prod.splits option.splits if_splits intro!: not_connect_steps)
  qed (use c in auto)
  show ?thesis
  proof (rule that[OF r2 _ r5 _ all])
    show "if us then connectCheck E dev ?r3 ?w1 = (True, r4, w2) else adds not_connect ?r3 r4" using cc nc by simp
    show "cwRefusals w = [] \<longrightarrow> us \<longrightarrow> cwRefusals w4 = []"
      using w4 connectCheck_willing[of ?w1 E dev ?r3] cc by auto
  qed
qed

lemma disconnectCheck_sends:
  assumes "cwRefusals w = []"
  shows "cwSent (snd (disconnectCheck E dev r w)) = cwSent w @ [cl_SetSwitch dev ''CONNECTION'' [(''DISCONNECT'', True)]] \<and>
    reCheck (last (rpResults (fst (disconnectCheck E dev r w)))) = ''DISCONNECT restores initial state''"
proof -
  let ?x = "cl_SetSwitch dev ''CONNECTION'' [(''DISCONNECT'', True)]"
  let ?a = "\<lparr>waDevice = dev, waName = ''CONNECTION'', waSince = rev_of (cwClient w) dev ''CONNECTION'', waPred = (\<lambda>p. cpState p \<noteq> ''Busy'')\<rparr>"
  obtain p err w2 where wait: "WaitRev (ceBlob E) ?a (w\<lparr>cwRefusals := [], cwSent := cwSent w @ [?x]\<rparr>) = ((p, err), w2)"
    by (metis surj_pair)
  have "cwSent (snd (WaitRev (ceBlob E) ?a (w\<lparr>cwRefusals := [], cwSent := cwSent w @ [?x]\<rparr>))) = cwSent w @ [?x]"
    by (simp add: WaitRev_def)
  then have "cwSent w2 = cwSent w @ [?x]" unfolding wait by simp
  then show ?thesis
    unfolding disconnectCheck_def Let_def send_willing[OF assms] prod.case option.case wait
    by (cases err) (simp_all add: rp_defs rp_add_def)
qed

section \<open>Vectors the protocol admits\<close>

definition range_ok :: "cMember \<Rightarrow> bool" where
  "range_ok m \<longleftrightarrow> \<not> cmMax m < cmMin m"

definition vector_ok :: "cProperty \<Rightarrow> bool" where
  "vector_ok p \<longleftrightarrow>
     cpState p \<in> {''Idle'', ''Ok'', ''Busy'', ''Alert''} \<and>
     (cpType p = ''Light'' \<or> cpPerm p \<in> {''ro'', ''wo'', ''rw''}) \<and>
     (cpType p = ''Switch'' \<longrightarrow> cpRule p \<in> {''OneOfMany'', ''AtMostOne'', ''AnyOfMany''}) \<and>
     (cpType p = ''Number'' \<longrightarrow> list_all range_ok (cpMembers p))"

text \<open>A check that is quiet exactly on what it admits.\<close>

definition judged :: "report \<Rightarrow> bool \<Rightarrow> report \<Rightarrow> bool" where
  "judged r ok r' \<longleftrightarrow> (if ok then r' = r else length (rpResults r) < length (rpResults r'))"

definition quiet :: "(report \<Rightarrow> 'a \<Rightarrow> report) \<Rightarrow> ('a \<Rightarrow> bool) \<Rightarrow> bool" where
  "quiet f P \<longleftrightarrow> (\<forall>r x. judged r (P x) (f r x))"

lemma judged_refl: "judged r True r"
  by (simp add: judged_def)

lemma judged_trans: "judged r a r' \<Longrightarrow> judged r' b r'' \<Longrightarrow> judged r (a \<and> b) r''"
  by (auto simp: judged_def split: if_splits)

lemma judged_if: "judged r b (if \<not> b then rp_fail check detail r else r)"
  by (simp add: judged_def rp_defs rp_add_def)

lemma judged_less: "judged r ok r' \<Longrightarrow> (r' = r) = ok"
  by (auto simp: judged_def split: if_splits)

lemma quiet_foldl:
  assumes "quiet f P"
  shows "quiet (foldl f) (list_all P)"
proof -
  have "judged r (list_all P xs) (foldl f r xs)" for r xs
  proof (induction xs arbitrary: r)
    case (Cons x xs)
    show ?case
      using judged_trans[OF assms[unfolded quiet_def, rule_format, of r x] Cons.IH[of "f r x"]] by simp
  qed (simp add: judged_refl)
  then show ?thesis by (simp add: quiet_def)
qed

lemma quiet_range: "quiet (check_range p) range_ok"
  by (simp add: quiet_def judged_def check_range_def range_ok_def rp_defs rp_add_def)

lemma quiet_vector: "quiet check_vector vector_ok"
  unfolding quiet_def
proof (intro allI)
  fix r :: report and p :: cProperty
  let ?a = "cpState p \<in> set validState" and ?b = "cpType p = ''Light'' \<or> cpPerm p \<in> set validPerm"
  let ?c = "cpType p = ''Switch'' \<longrightarrow> cpRule p \<in> set validRule"
  let ?r1 = "if \<not> ?a then rp_fail (''state valid: '' @ cpName p) (''state='' @ cpState p) r else r"
  let ?r2 = "if \<not> ?b then rp_fail (''perm valid: '' @ cpName p) (''perm='' @ cpPerm p) ?r1 else ?r1"
  let ?r3 = "if \<not> ?c then rp_fail (''switch rule valid: '' @ cpName p) (''rule='' @ cpRule p) ?r2 else ?r2"
  let ?d = "cpType p = ''Number'' \<longrightarrow> list_all range_ok (cpMembers p)"
  have "judged ?r3 ?d (if cpType p = ''Number'' then foldl (check_range p) ?r3 (cpMembers p) else ?r3)"
    using quiet_foldl[OF quiet_range, of p] by (simp add: quiet_def judged_refl)
  then have "judged r (((?a \<and> ?b) \<and> ?c) \<and> ?d) (if cpType p = ''Number'' then foldl (check_range p) ?r3 (cpMembers p) else ?r3)"
    by (rule judged_trans[OF judged_trans[OF judged_trans[OF judged_if judged_if] judged_if]])
  moreover have "check_vector r p = (if cpType p = ''Number'' then foldl (check_range p) ?r3 (cpMembers p) else ?r3)"
    unfolding check_vector_def Let_def by simp
  moreover have "vector_ok p = (((?a \<and> ?b) \<and> ?c) \<and> ?d)"
    by (simp add: vector_ok_def validState_def validPerm_def validRule_def conj_assoc)
  ultimately show "judged r (vector_ok p) (check_vector r p)" by (simp only:)
qed

lemma byName_keys: "distinct (map fst (byName ps))"
proof -
  have "distinct (map fst (foldl (\<lambda>m p. AList.update (cpName p) p m) m ps))" if "distinct (map fst m)" for m
    using that by (induction ps arbitrary: m) (simp_all add: distinct_update)
  then show ?thesis by (simp add: byName_def)
qed

lemma checkProtocol_quiet:
  "(checkProtocol (byName ps) r = r) = list_all vector_ok (map snd (byName ps))"
proof -
  let ?m = "byName ps"
  have "quiet (\<lambda>r n. check_vector r (prop_named ?m n)) (\<lambda>n. vector_ok (prop_named ?m n))"
    using quiet_vector by (simp add: quiet_def)
  then have "quiet (foldl (\<lambda>r n. check_vector r (prop_named ?m n))) (list_all (\<lambda>n. vector_ok (prop_named ?m n)))"
    by (rule quiet_foldl)
  then have "(checkProtocol ?m r = r) = list_all (\<lambda>n. vector_ok (prop_named ?m n)) (sortedNames ?m)"
    unfolding quiet_def checkProtocol_def by (intro judged_less) blast
  also have "\<dots> = list_all vector_ok (map snd ?m)"
    using byName_keys[of ps]
    by (auto simp: list_all_iff sortedNames_def prop_named_def map_of_is_SomeI intro: rev_bexI)
  finally show ?thesis .
qed

section \<open>No device is skipped\<close>

text \<open>A report only grows, and every checked device gets a verdict on its \<open>CONNECTION\<close>.\<close>

abbreviation grows :: "report \<Rightarrow> report \<Rightarrow> bool" where
  "grows \<equiv> adds (\<lambda>q. True)"

lemma adds_grows: "adds P r r' \<Longrightarrow> grows r r'"
  by (auto simp: adds_def)

lemma grows_add: "grows r r' \<Longrightarrow> grows r (rp_add check st detail r')"
  by (rule adds_add) simp_all

lemma connecting_grows:
  "grows r (fst (snd (connectCheck E dev r w)))" "grows r (fst (disconnectCheck E dev r w))"
  by (auto simp: connectCheck_def disconnectCheck_def Let_def rp_defs split: prod.split option.split intro!: grows_add)

definition verdict_on :: "string \<Rightarrow> report \<Rightarrow> bool" where
  "verdict_on dev r \<longleftrightarrow>
     (\<exists>q\<in>set (rpResults r). reDevice q = dev \<and> reCheck q \<in> {''CONNECTION present'', ''CONNECTION is switch rw''})"

lemma verdict_grows: "verdict_on dev r \<Longrightarrow> grows r r' \<Longrightarrow> verdict_on dev r'"
  by (fastforce simp: verdict_on_def adds_def)

lemma check_connection_verdict: "verdict_on (rpDev r) (check_connection props r)"
  by (auto simp: verdict_on_def check_connection_def rp_defs rp_add_def split: option.split)

lemma checkDevice_verdict:
  "verdict_on (rpDev r) (fst (checkDevice E dev opts r w))" "grows r (fst (checkDevice E dev opts r w))"
proof -
  obtain props r2 w1 us r4 w2 r5 w4 where parts: "adds not_connect r r2"
    "if us then connectCheck E dev (check_connection props r2) w1 = (True, r4, w2)
     else adds not_connect (check_connection props r2) r4"
    "adds not_connect r4 r5" "cwRefusals w = [] \<longrightarrow> us \<longrightarrow> cwRefusals w4 = []"
    "checkDevice E dev opts r w = (if us then disconnectCheck E dev r5 w4 else (r5, w4))"
    by (rule checkDevice_parts[of r E dev w opts]) (rule that; assumption)
  have r3: "verdict_on (rpDev r) (check_connection props r2)" "grows r (check_connection props r2)"
    using check_connection_verdict[of r2 props] parts(1) adds_grows[OF check_connection_unconnected[OF parts(1)]]
    by (simp_all add: adds_def)
  have "grows (check_connection props r2) r4"
    using parts(2) adds_grows connecting_grows(1)[of "check_connection props r2" E dev w1] by (cases us) simp_all
  then have "grows (check_connection props r2) r5" using adds_trans adds_grows[OF parts(3)] by blast
  then have "grows (check_connection props r2) (fst (checkDevice E dev opts r w))"
    using parts(5) adds_trans connecting_grows(2)[of r5 E dev w4] by (cases us) (auto intro: adds_trans)
  then show "verdict_on (rpDev r) (fst (checkDevice E dev opts r w))" "grows r (fst (checkDevice E dev opts r w))"
    using r3 verdict_grows adds_trans by blast+
qed

definition aborted :: "report \<Rightarrow> bool" where
  "aborted r \<longleftrightarrow> rpResults r \<noteq> [] \<and> reCheck (last (rpResults r)) = ''run'' \<and> reStatus (last (rpResults r)) = Fail"

lemma aborted_fail: "aborted (rp_fail ''run'' detail r)"
  by (simp add: aborted_def rp_defs rp_add_def)

lemma verdict_dev [simp]: "verdict_on dev (r\<lparr>rpDev := d\<rparr>) = verdict_on dev r"
  by (simp add: verdict_on_def)

lemma verdict_fail [simp]: "verdict_on dev r \<Longrightarrow> verdict_on dev (rp_fail check detail r)"
  by (auto simp: verdict_on_def rp_defs rp_add_def)

lemma run_devices_keeps: "verdict_on dev r \<Longrightarrow> verdict_on dev (fst (run_devices E opts devs r w))"
proof (induction devs arbitrary: r w)
  case (Cons d devs)
  then show ?case
    using verdict_grows[OF _ checkDevice_verdict(2)] by (simp add: case_prod_unfold split: option.split)
qed (simp add: Let_def split: option.split)

lemma run_devices_verdict:
  "dev \<in> set devs \<Longrightarrow> opDevice opts = [] \<or> opDevice opts = dev \<Longrightarrow>
    verdict_on dev (fst (run_devices E opts devs r w)) \<or> aborted (fst (run_devices E opts devs r w))"
proof (induction devs arbitrary: r w)
  case (Cons d devs)
  show ?case
  proof (cases "d = dev")
    case True
    then have "verdict_on dev (fst (checkDevice E d opts (r\<lparr>rpDev := d\<rparr>) w))"
      using checkDevice_verdict(1)[of "r\<lparr>rpDev := d\<rparr>" E d opts w] by simp
    then show ?thesis
      using Cons.prems(2) True run_devices_keeps by (auto simp: case_prod_unfold aborted_fail split: option.split)
  next
    case False
    then show ?thesis using Cons by (auto simp: case_prod_unfold aborted_fail split: option.split)
  qed
qed simp

section \<open>Properties\<close>

text \<open>C26: The protocol check finds no fault exactly when every vector, under the last property of its
  name, has a valid state, a valid permission unless it is a light vector, a valid rule if it is
  a switch vector, and no number whose minimum exceeds its maximum.\<close>

theorem protocol_verdict:
  "(checkProtocol (byName ps) r = r) = list_all vector_ok (map snd (byName ps))"
  by (rule checkProtocol_quiet)

text \<open>A run without \<open>Mutate\<close> sends nothing but its request for the properties.\<close>

theorem run_readonly:
  assumes "\<not> opMutate opts"
  shows "cwSent (snd (Run E opts w)) = cwSent (snd (GetProperties [] [] w))"
  using run_devices_silent[OF assms] by (simp add: Run_def Let_def case_prod_unfold split: bool.split)

text \<open>C24: A run skips no device: every discovered device it is to check has a verdict on its connection
  among the results, or the last result says that the run was aborted.\<close>

theorem run_complete:
  assumes "discover E opts (snd (GetProperties [] [] w)) = (True, w2)" and "dev \<in> set (Devices (cwClient (conform_settle E w2)))"
    and "opDevice opts = [] \<or> opDevice opts = dev"
  shows "(\<exists>q\<in>set (fst (Run E opts w)). reDevice q = dev \<and> reCheck q \<in> {''CONNECTION present'', ''CONNECTION is switch rw''}) \<or>
    reCheck (last (fst (Run E opts w))) = ''run'' \<and> reStatus (last (fst (Run E opts w))) = Fail"
  using run_devices_verdict[OF assms(2,3)] assms(1)
  by (fastforce simp: Run_def Let_def case_prod_unfold verdict_on_def aborted_def)

text \<open>C23: When a check has connected a device, the last thing it sends is the request to disconnect it
  and its last result is the verdict on that, whatever happened in between.\<close>

theorem leaves_as_found:
  assumes "cwRefusals w = []" and "rpResults (fst (checkDevice E dev opts r w)) = rpResults r @ new"
    and "\<exists>q\<in>set new. reCheck q = ''CONNECT settles Ok'' \<and> reStatus q = Pass"
  shows "last (cwSent (snd (checkDevice E dev opts r w))) = cl_SetSwitch dev ''CONNECTION'' [(''DISCONNECT'', True)] \<and>
    reCheck (last (rpResults (fst (checkDevice E dev opts r w)))) = ''DISCONNECT restores initial state''"
proof -
  obtain props r2 w1 us r4 w2 r5 w4 where parts: "adds not_connect r r2"
    "if us then connectCheck E dev (check_connection props r2) w1 = (True, r4, w2)
     else adds not_connect (check_connection props r2) r4"
    "adds not_connect r4 r5" "cwRefusals w = [] \<longrightarrow> us \<longrightarrow> cwRefusals w4 = []"
    "checkDevice E dev opts r w = (if us then disconnectCheck E dev r5 w4 else (r5, w4))"
    by (rule checkDevice_parts[of r E dev w opts]) (rule that; assumption)
  show ?thesis
  proof (cases us)
    case True
    then show ?thesis using disconnectCheck_sends[of w4 E dev r5] parts(4,5) assms(1) by simp
  next
    case False
    then have "adds not_connect r r5"
      using parts(2) adds_trans[OF adds_trans[OF check_connection_unconnected[OF parts(1)]] parts(3)] by simp
    then have "\<forall>q\<in>set new. not_connect q" using assms(2) parts(5) False by (auto simp: adds_def)
    then show ?thesis using assms(3) by (auto simp: not_connect_def)
  qed
qed

text \<open>For the witnesses: a device with a \<open>CONNECTION\<close> only, which connects when asked and then falls
  silent.\<close>

definition silent_env :: conform_env where
  "silent_env = \<lparr>ceBlob = sample_blob, ceEnum = (\<lambda>dm. case dm ''CONNECTION'' of Some p \<Rightarrow> [p] | None \<Rightarrow> []),
     cePrint = (\<lambda>n. True), ceInflate = (\<lambda>bs. Inr 0)\<rparr>"

definition sample_switches :: "string \<Rightarrow> string \<Rightarrow> string \<Rightarrow> string \<Rightarrow> xml" where
  "sample_switches vec one a b =
     Elem vec [(''device'', ''D''), (''name'', ''CONNECTION''), (''state'', ''Ok''), (''perm'', ''rw''), (''rule'', ''OneOfMany'')]
       [Elem one [(''name'', ''CONNECT'')] [CharData a], Elem one [(''name'', ''DISCONNECT'')] [CharData b]]"

definition silent_world :: world where
  "silent_world =
     \<lparr>cwClient = read_inbound sample_blob (Element (sample_switches ''defSwitchVector'' ''defSwitch'' ''Off'' ''On'')) newClient,
      cwSent = [], cwRefusals = [],
      cwTurns = [idle_turn, idle_turn\<lparr>tuChunks := [[Element (sample_switches ''setSwitchVector'' ''oneSwitch'' ''On'' ''Off'')]]\<rparr>],
      cwCtx = None\<rparr>"

theorem leaves_as_found_witness:
  "last (cwSent (snd (checkDevice silent_env ''D'' \<lparr>opDevice = [], opMutate = True\<rparr> \<lparr>rpDev = ''D'', rpResults = []\<rparr> silent_world))) =
    cl_SetSwitch ''D'' ''CONNECTION'' [(''DISCONNECT'', True)]"
proof -
  let ?d = "checkDevice silent_env ''D'' \<lparr>opDevice = [], opMutate = True\<rparr> \<lparr>rpDev = ''D'', rpResults = []\<rparr> silent_world"
  have c: "\<exists>q\<in>set (rpResults (fst ?d)). reCheck q = ''CONNECT settles Ok'' \<and> reStatus q = Pass"
    by code_simp
  have w: "cwRefusals silent_world = []" by (simp add: silent_world_def)
  show ?thesis
    by (rule leaves_as_found[OF w, THEN conjunct1, where new1 = "rpResults (fst ?d)"]) (simp, rule c)
qed

theorem run_complete_witness:
  "\<exists>q\<in>set (fst (Run silent_env \<lparr>opDevice = [], opMutate = True\<rparr> silent_world)).
     reDevice q = ''D'' \<and> reCheck q \<in> {''CONNECTION present'', ''CONNECTION is switch rw''}"
proof -
  let ?O = "\<lparr>opDevice = [], opMutate = True\<rparr>"
  let ?d = "discover silent_env ?O (snd (GetProperties [] [] silent_world))"
  have f: "fst ?d" by code_simp
  have dev: "''D'' \<in> set (Devices (cwClient (conform_settle silent_env (snd ?d))))" by code_simp
  have "reCheck (last (fst (Run silent_env ?O silent_world))) \<noteq> ''run''" by code_simp
  moreover have "?d = (True, snd ?d)" using f by (metis prod.collapse)
  ultimately show ?thesis using run_complete[OF _ dev, of ?O silent_world] by auto
qed

theorem run_readonly_witness:
  "cwSent (snd (Run silent_env \<lparr>opDevice = [], opMutate = False\<rparr> silent_world)) = [wGetProperties [] []]"
  by (subst run_readonly) (simp_all add: GetProperties_def send_elem_def silent_world_def)

end
