(* ===== verification/ServerProperty.thy ===== *)
theory ServerProperty
  imports Number
begin

text \<open>
  The property model of \<open>server/property.go\<close>: types, states, permissions and switch rules
  with their INDI spellings, members, vectors, and the accessors and setters of a vector.
  Go's enumerations are integers, so each has a case for a value outside its constants. A
  vector holds pointers to its members; here it holds the members themselves, and a pointer
  is the position of its member, so two positions are never the same member. Each method
  runs under the vector's mutex, so it is one step here.
\<close>

section \<open>Enumerations\<close>

datatype PropType = NumberType | SwitchType | TextType | LightType | BLOBType | UnknownType int

fun PropType_String :: "PropType \<Rightarrow> string" where
  "PropType_String NumberType = ''Number''"
| "PropType_String SwitchType = ''Switch''"
| "PropType_String TextType = ''Text''"
| "PropType_String LightType = ''Light''"
| "PropType_String BLOBType = ''BLOB''"
| "PropType_String (UnknownType n) = ''PropType('' @ Itoa n @ '')''"

datatype State = Idle | Ok | Busy | Alert | UnknownState int

fun State_String :: "State \<Rightarrow> string" where
  "State_String Ok = ''Ok''"
| "State_String Busy = ''Busy''"
| "State_String Alert = ''Alert''"
| "State_String _ = ''Idle''"

datatype Perm = RO | WO | RW | UnknownPerm int

fun Perm_String :: "Perm \<Rightarrow> string" where
  "Perm_String WO = ''wo''"
| "Perm_String RW = ''rw''"
| "Perm_String _ = ''ro''"

datatype SwitchRule = OneOfMany | AtMostOne | AnyOfMany | UnknownRule int

fun SwitchRule_String :: "SwitchRule \<Rightarrow> string" where
  "SwitchRule_String AtMostOne = ''AtMostOne''"
| "SwitchRule_String AnyOfMany = ''AnyOfMany''"
| "SwitchRule_String _ = ''OneOfMany''"

section \<open>Members and vectors\<close>

record Member =
  mName :: string
  mLabel :: string
  mFormat :: string
  mMin :: float64
  mMax :: float64
  mStep :: float64
  mNum :: float64
  mOn :: bool
  mText :: string
  mLight :: State

text \<open>Go's zero value, which a composite literal starts from.\<close>

definition zeroMember :: Member where
  "zeroMember = \<lparr>mName = [], mLabel = [], mFormat = [], mMin = Fin 0, mMax = Fin 0,
     mStep = Fin 0, mNum = Fin 0, mOn = False, mText = [], mLight = Idle\<rparr>"

record Property =
  pDevice :: string
  pName :: string
  pLabel :: string
  pGroup :: string
  pType :: PropType
  pPerm :: Perm
  pRule :: SwitchRule
  pTimeout :: int
  pState :: State
  pMembers :: "Member list"

definition NewProperty :: "string \<Rightarrow> string \<Rightarrow> PropType \<Rightarrow> Perm \<Rightarrow> Member list \<Rightarrow> Property" where
  "NewProperty device name t perm members =
     \<lparr>pDevice = device, pName = name, pLabel = [], pGroup = [], pType = t, pPerm = perm,
      pRule = OneOfMany, pTimeout = 0, pState = Idle, pMembers = members\<rparr>"

definition SetState :: "State \<Rightarrow> Property \<Rightarrow> Property" where
  "SetState s p = p\<lparr>pState := s\<rparr>"

text \<open>The position of the first member of a name: the pointer \<open>member\<close> returns.\<close>

fun member_at :: "string \<Rightarrow> Member list \<Rightarrow> nat option" where
  "member_at name [] = None"
| "member_at name (m # ms) = (if mName m = name then Some 0 else map_option Suc (member_at name ms))"

definition member :: "Property \<Rightarrow> string \<Rightarrow> nat option" where
  "member p name = member_at name (pMembers p)"

definition set_member :: "nat \<Rightarrow> (Member \<Rightarrow> Member) \<Rightarrow> Property \<Rightarrow> Property" where
  "set_member i f p = p\<lparr>pMembers := (pMembers p)[i := f (pMembers p ! i)]\<rparr>"

definition SetNumber :: "string \<Rightarrow> float64 \<Rightarrow> Property \<Rightarrow> Property" where
  "SetNumber name v p =
     (case member p name of Some i \<Rightarrow> set_member i (\<lambda>m. m\<lparr>mNum := v\<rparr>) p | None \<Rightarrow> p)"

definition Number :: "Property \<Rightarrow> string \<Rightarrow> float64" where
  "Number p name = (case member p name of Some i \<Rightarrow> mNum (pMembers p ! i) | None \<Rightarrow> Fin 0)"

text \<open>The loop \<open>o.On = o == m\<close> over the members.\<close>

definition select_only :: "nat \<Rightarrow> Property \<Rightarrow> Property" where
  "select_only i p =
     p\<lparr>pMembers := map (\<lambda>j. (pMembers p ! j)\<lparr>mOn := (j = i)\<rparr>) [0..<length (pMembers p)]\<rparr>"

definition SetSwitch :: "string \<Rightarrow> bool \<Rightarrow> Property \<Rightarrow> Property" where
  "SetSwitch name on p =
     (case member p name of
        None \<Rightarrow> p
      | Some i \<Rightarrow>
         if on \<and> (pRule p = OneOfMany \<or> pRule p = AtMostOne) then select_only i p
         else if \<not> on \<and> pRule p = OneOfMany then
           (if \<exists>j \<in> set [0..<length (pMembers p)]. j \<noteq> i \<and> mOn (pMembers p ! j)
            then set_member i (\<lambda>m. m\<lparr>mOn := False\<rparr>) p else p)
         else set_member i (\<lambda>m. m\<lparr>mOn := on\<rparr>) p)"

definition Switch :: "Property \<Rightarrow> string \<Rightarrow> bool" where
  "Switch p name = (case member p name of Some i \<Rightarrow> mOn (pMembers p ! i) | None \<Rightarrow> False)"

definition SetText :: "string \<Rightarrow> string \<Rightarrow> Property \<Rightarrow> Property" where
  "SetText name s p =
     (case member p name of Some i \<Rightarrow> set_member i (\<lambda>m. m\<lparr>mText := s\<rparr>) p | None \<Rightarrow> p)"

definition snapshot :: "Property \<Rightarrow> State \<times> Member list" where
  "snapshot p = (pState p, pMembers p)"

section \<open>Frames\<close>

lemma member_at_bound: "member_at name ms = Some i \<Longrightarrow> i < length ms \<and> mName (ms ! i) = name"
  by (induction ms arbitrary: i) (auto split: if_splits)

lemma member_bound: "member p name = Some i \<Longrightarrow> i < length (pMembers p)"
  by (simp add: member_def member_at_bound)

lemma member_at_update:
  "(\<And>m. mName (f m) = mName m) \<Longrightarrow> member_at name (ms[i := f (ms ! i)]) = member_at name ms"
proof (induction ms arbitrary: i)
  case (Cons m ms)
  then show ?case by (cases i) auto
qed simp

lemma member_at_names: "map mName ms = map mName ns \<Longrightarrow> member_at name ms = member_at name ns"
proof (induction ms arbitrary: ns)
  case (Cons m ms)
  then show ?case by (cases ns) auto
qed simp

text \<open>The names of the members, in order.\<close>

definition member_names :: "Property \<Rightarrow> string list" where
  "member_names p = map mName (pMembers p)"

lemma set_member_names:
  "(\<And>m. mName (f m) = mName m) \<Longrightarrow> member_names (set_member i f p) = member_names p"
  by (cases "i < length (pMembers p)")
     (simp_all add: member_names_def set_member_def map_update list_update_same_conv list_update_beyond)

lemma SetState_simps [prop_simps]:
  "pState (SetState s p) = s" "pMembers (SetState s p) = pMembers p" "pType (SetState s p) = pType p"
  "pName (SetState s p) = pName p" "pDevice (SetState s p) = pDevice p" "pPerm (SetState s p) = pPerm p"
  "pRule (SetState s p) = pRule p"
  by (simp_all add: SetState_def)

lemma set_member_simps [prop_simps]:
  "pState (set_member i f p) = pState p" "pType (set_member i f p) = pType p"
  "pName (set_member i f p) = pName p" "pDevice (set_member i f p) = pDevice p"
  "pPerm (set_member i f p) = pPerm p" "pRule (set_member i f p) = pRule p"
  "length (pMembers (set_member i f p)) = length (pMembers p)"
  by (simp_all add: set_member_def)

lemma SetNumber_simps [prop_simps]:
  "pState (SetNumber n v p) = pState p" "pType (SetNumber n v p) = pType p"
  "pName (SetNumber n v p) = pName p" "pDevice (SetNumber n v p) = pDevice p"
  "pPerm (SetNumber n v p) = pPerm p" "pRule (SetNumber n v p) = pRule p"
  "member_names (SetNumber n v p) = member_names p"
  by (simp_all add: SetNumber_def prop_simps set_member_names split: option.split)

lemma select_only_simps [prop_simps]:
  "pState (select_only i p) = pState p" "pType (select_only i p) = pType p"
  "pName (select_only i p) = pName p" "pDevice (select_only i p) = pDevice p"
  "pPerm (select_only i p) = pPerm p" "pRule (select_only i p) = pRule p"
  "member_names (select_only i p) = member_names p"
  by (simp_all add: select_only_def member_names_def) (rule nth_equalityI, simp_all)

lemma SetSwitch_simps [prop_simps]:
  "pState (SetSwitch n on p) = pState p" "pType (SetSwitch n on p) = pType p"
  "pName (SetSwitch n on p) = pName p" "pDevice (SetSwitch n on p) = pDevice p"
  "pPerm (SetSwitch n on p) = pPerm p" "pRule (SetSwitch n on p) = pRule p"
  "member_names (SetSwitch n on p) = member_names p"
  by (simp_all add: SetSwitch_def prop_simps set_member_names split: option.split)

section \<open>Named cells\<close>

text \<open>A family of values found under names, set one at a time: what the getters and setters
  of a vector promise the devices. A setter on an unknown name does nothing.\<close>

locale cells =
  fixes get :: "'p \<Rightarrow> string \<Rightarrow> 'v" and put :: "string \<Rightarrow> 'v \<Rightarrow> 'p \<Rightarrow> 'p" and has :: "'p \<Rightarrow> string \<Rightarrow> bool"
  assumes get_put: "has p n \<Longrightarrow> get (put n v p) n = v"
    and get_put_other: "n \<noteq> k \<Longrightarrow> get (put n v p) k = get p k"
    and has_put: "has (put n v p) k = has p k"
    and put_unknown: "\<not> has p n \<Longrightarrow> put n v p = p"
begin

definition put_all :: "(string \<times> 'v) list \<Rightarrow> 'p \<Rightarrow> 'p" where
  "put_all kvs p = fold (\<lambda>kv. put (fst kv) (snd kv)) kvs p"

lemma has_put_all: "has (put_all kvs p) k = has p k"
  unfolding put_all_def by (induction kvs arbitrary: p) (simp_all add: has_put)

lemma get_put_all:
  "has p k \<Longrightarrow> get (put_all kvs p) k = (case map_of (rev kvs) k of Some v \<Rightarrow> v | None \<Rightarrow> get p k)"
  unfolding put_all_def
proof (induction kvs arbitrary: p)
  case (Cons a kvs)
  then show ?case
    by (cases a; cases "fst a = k")
       (auto simp: has_put get_put get_put_other map_add_def split: option.splits)
qed simp

lemma put_all_unknown: "\<forall>k \<in> fst ` set kvs. \<not> has p k \<Longrightarrow> put_all kvs p = p"
  unfolding put_all_def by (induction kvs) (simp_all add: put_unknown)

end

definition has_member :: "Property \<Rightarrow> string \<Rightarrow> bool" where
  "has_member p n \<longleftrightarrow> member p n \<noteq> None"

lemma member_set_member:
  "(\<And>m. mName (f m) = mName m) \<Longrightarrow> member (set_member i f p) n = member p n"
  by (simp add: member_def set_member_def member_at_update)

interpretation numbers: cells ServerProperty.Number SetNumber has_member
proof
  fix p n k and v :: float64
  show "has_member p n \<Longrightarrow> Number (SetNumber n v p) n = v"
    using member_bound [of p n]
    by (auto simp: has_member_def Number_def SetNumber_def member_set_member) (simp add: set_member_def)
  show "Number (SetNumber n v p) k = Number p k" if "n \<noteq> k"
  proof (cases "member p n")
    case (Some i)
    have "i \<noteq> j" if "member p k = Some j" for j
      using \<open>n \<noteq> k\<close> Some that member_at_bound [of n "pMembers p" i] member_at_bound [of k "pMembers p" j]
      by (auto simp: member_def)
    moreover have "member (SetNumber n v p) k = member p k"
      by (simp add: SetNumber_def Some member_set_member)
    ultimately show ?thesis
      using Some by (auto simp: Number_def SetNumber_def set_member_def split: option.split)
  qed (simp add: SetNumber_def)
  show "has_member (SetNumber n v p) k = has_member p k"
    by (simp add: has_member_def SetNumber_def member_set_member split: option.split)
  show "\<not> has_member p n \<Longrightarrow> SetNumber n v p = p"
    by (simp add: has_member_def SetNumber_def)
qed

section \<open>Switch rules\<close>

text \<open>The abstraction of a switch vector: the positions that are On. Setting a switch is a
  set operation on them, by rule.\<close>

definition on_set :: "Property \<Rightarrow> nat set" where
  "on_set p = {i. i < length (pMembers p) \<and> mOn (pMembers p ! i)}"

definition switch_spec :: "SwitchRule \<Rightarrow> nat \<Rightarrow> bool \<Rightarrow> nat set \<Rightarrow> nat set" where
  "switch_spec r i on S =
     (if on then (if r = OneOfMany \<or> r = AtMostOne then {i} else insert i S)
      else if r = OneOfMany \<and> S \<subseteq> {i} then S else S - {i})"

lemma on_set_set_member:
  assumes "i < length (pMembers p)"
  shows "on_set (set_member i (\<lambda>m. m\<lparr>mOn := b\<rparr>) p) = (if b then insert i (on_set p) else on_set p - {i})"
  using assms by (auto simp: on_set_def set_member_def nth_list_update split: if_splits)

lemma on_set_SetSwitch:
  "on_set (SetSwitch n on p) =
     (case member p n of None \<Rightarrow> on_set p | Some i \<Rightarrow> switch_spec (pRule p) i on (on_set p))"
proof (cases "member p n")
  case (Some i)
  note i = member_bound [OF Some]
  have sel: "on_set (select_only i p) = {i}"
    using i by (auto simp: on_set_def select_only_def)
  have other: "(\<exists>j \<in> set [0..<length (pMembers p)]. j \<noteq> i \<and> mOn (pMembers p ! j)) \<longleftrightarrow> \<not> on_set p \<subseteq> {i}"
    by (auto simp: on_set_def)
  show ?thesis
    unfolding SetSwitch_def Some option.case other
    by (auto simp: sel switch_spec_def on_set_set_member [OF i])
qed (simp add: SetSwitch_def)

definition rule_ok :: "Property \<Rightarrow> bool" where
  "rule_ok p \<longleftrightarrow>
     (let n = length (filter mOn (pMembers p))
      in (pRule p = OneOfMany \<longrightarrow> n = 1) \<and> (pRule p = AtMostOne \<longrightarrow> n \<le> 1))"

lemma on_count: "length (filter mOn (pMembers p)) = card (on_set p)"
  by (simp add: on_set_def length_filter_conv_card)

lemma finite_on_set [simp]: "finite (on_set p)"
  by (simp add: on_set_def)

lemma SetSwitch_rule_ok:
  assumes "rule_ok p"
  shows "rule_ok (SetSwitch n on p)"
proof (cases "member p n")
  case (Some i)
  have one: "card (on_set p - {i}) = 1" if c: "card (on_set p) = 1" "\<not> on_set p \<subseteq> {i}"
  proof -
    from c obtain k where "on_set p = {k}" "k \<noteq> i" by (auto simp: card_1_singleton_iff)
    then show ?thesis by simp
  qed
  have "card (on_set p - {i}) \<le> card (on_set p)" by (intro card_mono) auto
  then show ?thesis
    using assms one
    by (cases "pRule p") (auto simp: rule_ok_def on_count on_set_SetSwitch Some switch_spec_def prop_simps)
qed (use assms in \<open>simp add: SetSwitch_def\<close>)

section \<open>Properties\<close>

definition sample_switches :: Property where
  "sample_switches = NewProperty ''CCD'' ''CONNECTION'' SwitchType RW
     [zeroMember\<lparr>mName := ''CONNECT''\<rparr>, zeroMember\<lparr>mName := ''DISCONNECT'', mOn := True\<rparr>]"

text \<open>Setting a switch acts on the set of members that are On as its rule says: selecting under
  OneOfMany and AtMostOne leaves that member alone On, deselecting the last one On under
  OneOfMany does nothing, every other case adds or removes the member, and an unknown name
  changes nothing.\<close>

theorem SetSwitch_refines:
  "on_set (SetSwitch n on p) =
     (case member p n of None \<Rightarrow> on_set p | Some i \<Rightarrow> switch_spec (pRule p) i on (on_set p)) \<and>
   map mName (pMembers (SetSwitch n on p)) = map mName (pMembers p)"
  using SetSwitch_simps(7) [of n on p] by (simp add: on_set_SetSwitch member_names_def)

text \<open>A switch vector that satisfies its rule still does after any sequence of switch settings.\<close>

theorem switch_rule_kept:
  assumes "rule_ok p"
  shows "rule_ok (fold (\<lambda>(n, on). SetSwitch n on) settings p)"
  using assms by (induction settings arbitrary: p) (auto simp: SetSwitch_rule_ok)

theorem switch_rule_kept_witness:
  "rule_ok (fold (\<lambda>(n, on). SetSwitch n on) [(''CONNECT'', True), (''CONNECT'', False)] sample_switches)"
  by (rule switch_rule_kept) code_simp

text \<open>After a sequence of number settings every member holds the last value given for its name,
  or what it held before; a name the vector lacks is ignored.\<close>

theorem SetNumber_last:
  assumes "has_member p k"
  shows "ServerProperty.Number (fold (\<lambda>(n, v). SetNumber n v) settings p) k =
    (case map_of (rev settings) k of Some v \<Rightarrow> v | None \<Rightarrow> ServerProperty.Number p k)"
  using numbers.get_put_all [OF assms, of settings] by (simp add: numbers.put_all_def case_prod_unfold)

theorem SetNumber_last_witness:
  "ServerProperty.Number (fold (\<lambda>(n, v). SetNumber n v) [(''X'', Fin 1), (''Y'', Fin 2), (''X'', Fin 3)]
     (NewProperty ''CCD'' ''FRAME'' NumberType RW [zeroMember\<lparr>mName := ''X''\<rparr>])) ''X'' = Fin 3"
  by (subst SetNumber_last) (simp_all add: has_member_def member_def NewProperty_def zeroMember_def)

end
