(* ===== verification/ServerXml.thy ===== *)
theory ServerXml
  imports ServerProperty GoXml GoBase64
begin

text \<open>
  The wire messages of \<open>server/xml.go\<close>: what \<open>marshalDef\<close> and \<open>marshalSet\<close> build from a
  property, the hand-built BLOB message, and the structs inbound elements decode into. The
  structs that are only marshalled appear as the elements they marshal to.
\<close>

section \<open>Values\<close>

definition numVal :: "float64 \<Rightarrow> string" where
  "numVal f = FormatFixed6 f"

definition numAttr :: "float64 \<Rightarrow> string" where
  "numAttr f = FormatG f"

definition orFmt :: "string \<Rightarrow> string" where
  "orFmt s = (if s = [] then ''%g'' else s)"

section \<open>Inbound structs\<close>

record xoneMember =
  xoName :: string
  xoValue :: string

record xnewVector =
  xnDevice :: string
  xnName :: string
  xnNumbers :: "xoneMember list"
  xnSwitches :: "xoneMember list"
  xnTexts :: "xoneMember list"

record xgetProperties =
  xgDevice :: string
  xgName :: string

record xenableBLOB =
  xeDevice :: string
  xeName :: string
  xeValue :: string

definition decode_one :: "xml \<Rightarrow> xoneMember" where
  "decode_one x = \<lparr>xoName = get_attr ''name'' x, xoValue = get_text x\<rparr>"

definition decode_new :: "xml \<Rightarrow> xnewVector" where
  "decode_new x =
     \<lparr>xnDevice = get_attr ''device'' x, xnName = get_attr ''name'' x,
      xnNumbers = map decode_one (get_children ''oneNumber'' x),
      xnSwitches = map decode_one (get_children ''oneSwitch'' x),
      xnTexts = map decode_one (get_children ''oneText'' x)\<rparr>"

definition decode_get :: "xml \<Rightarrow> xgetProperties" where
  "decode_get x = \<lparr>xgDevice = get_attr ''device'' x, xgName = get_attr ''name'' x\<rparr>"

definition decode_enable :: "xml \<Rightarrow> xenableBLOB" where
  "decode_enable x =
     \<lparr>xeDevice = get_attr ''device'' x, xeName = get_attr ''name'' x, xeValue = get_text x\<rparr>"

section \<open>Definitions\<close>

definition xdefNumber :: "Member \<Rightarrow> xml" where
  "xdefNumber m =
     Elem ''defNumber''
       (attr ''name'' (mName m) @ attr_omitempty ''label'' (mLabel m) @
        attr ''format'' (orFmt (mFormat m)) @ attr ''min'' (numAttr (mMin m)) @
        attr ''max'' (numAttr (mMax m)) @ attr ''step'' (numAttr (mStep m)))
       [CharData (numVal (mNum m))]"

definition xdefSwitch :: "Member \<Rightarrow> xml" where
  "xdefSwitch m =
     Elem ''defSwitch'' (attr ''name'' (mName m) @ attr_omitempty ''label'' (mLabel m))
       [CharData (onoff (mOn m))]"

definition xdefText :: "Member \<Rightarrow> xml" where
  "xdefText m =
     Elem ''defText'' (attr ''name'' (mName m) @ attr_omitempty ''label'' (mLabel m))
       [CharData (mText m)]"

definition xdefBLOB :: "Member \<Rightarrow> xml" where
  "xdefBLOB m = Elem ''defBLOB'' (attr ''name'' (mName m) @ attr_omitempty ''label'' (mLabel m)) []"

definition xdefLight :: "Member \<Rightarrow> xml" where
  "xdefLight m =
     Elem ''defLight'' (attr ''name'' (mName m) @ attr_omitempty ''label'' (mLabel m))
       [CharData (State_String (mLight m))]"

text \<open>\<open>xdefVector\<close> with its element name and members; permission and rule are omitted where
  they are empty.\<close>

definition xdefVector :: "string \<Rightarrow> Property \<Rightarrow> State \<Rightarrow> string \<Rightarrow> string \<Rightarrow> string \<Rightarrow> xml list \<Rightarrow> xml" where
  "xdefVector elem p st perm rule ts ms =
     Elem elem
       (attr ''device'' (pDevice p) @ attr ''name'' (pName p) @
        attr_omitempty ''label'' (pLabel p) @ attr_omitempty ''group'' (pGroup p) @
        attr ''state'' (State_String st) @ attr_omitempty ''perm'' perm @
        attr_omitempty ''rule'' rule @ attr_int_omitempty ''timeout'' (pTimeout p) @
        attr_omitempty ''timestamp'' ts)
       ms"

definition marshalDef :: "Property \<Rightarrow> string \<Rightarrow> string + xml" where
  "marshalDef p ts =
     (let st = fst (snapshot p); members = snd (snapshot p); perm = Perm_String (pPerm p)
      in case pType p of
           NumberType \<Rightarrow> Inr (xdefVector ''defNumberVector'' p st perm [] ts (map xdefNumber members))
         | SwitchType \<Rightarrow>
             Inr (xdefVector ''defSwitchVector'' p st perm (SwitchRule_String (pRule p)) ts
                   (map xdefSwitch members))
         | TextType \<Rightarrow> Inr (xdefVector ''defTextVector'' p st perm [] ts (map xdefText members))
         | BLOBType \<Rightarrow> Inr (xdefVector ''defBLOBVector'' p st perm [] ts (map xdefBLOB members))
         | LightType \<Rightarrow> Inr (xdefVector ''defLightVector'' p st [] [] ts (map xdefLight members))
         | UnknownType n \<Rightarrow> Inl (''indi: cannot define property type '' @ PropType_String (pType p)))"

section \<open>Updates\<close>

definition xone :: "string \<Rightarrow> Member \<Rightarrow> string \<Rightarrow> xml" where
  "xone elem m v = Elem elem (attr ''name'' (mName m)) [CharData v]"

definition xsetVector :: "string \<Rightarrow> Property \<Rightarrow> State \<Rightarrow> string \<Rightarrow> xml list \<Rightarrow> xml" where
  "xsetVector elem p st ts ms =
     Elem elem
       (attr ''device'' (pDevice p) @ attr ''name'' (pName p) @
        attr_omitempty ''state'' (State_String st) @ attr_omitempty ''timestamp'' ts)
       ms"

definition marshalSet :: "Property \<Rightarrow> string \<Rightarrow> string + xml" where
  "marshalSet p ts =
     (let st = fst (snapshot p); members = snd (snapshot p)
      in case pType p of
           NumberType \<Rightarrow>
             Inr (xsetVector ''setNumberVector'' p st ts
                   (map (\<lambda>m. xone ''oneNumber'' m (numVal (mNum m))) members))
         | SwitchType \<Rightarrow>
             Inr (xsetVector ''setSwitchVector'' p st ts
                   (map (\<lambda>m. xone ''oneSwitch'' m (onoff (mOn m))) members))
         | TextType \<Rightarrow>
             Inr (xsetVector ''setTextVector'' p st ts (map (\<lambda>m. xone ''oneText'' m (mText m)) members))
         | LightType \<Rightarrow>
             Inr (xsetVector ''setLightVector'' p st ts
                   (map (\<lambda>m. xone ''oneLight'' m (State_String (mLight m))) members))
         | t \<Rightarrow> Inl (''indi: cannot set property type '' @ PropType_String t))"

section \<open>Messages, deletions and BLOBs\<close>

definition xmessage :: "string \<Rightarrow> string \<Rightarrow> string \<Rightarrow> xml" where
  "xmessage device ts msg =
     Elem ''message''
       (attr_omitempty ''device'' device @ attr_omitempty ''timestamp'' ts @ attr ''message'' msg) []"

definition xdelProperty :: "string \<Rightarrow> string \<Rightarrow> string \<Rightarrow> xml" where
  "xdelProperty device name ts =
     Elem ''delProperty''
       (attr ''device'' device @ attr_omitempty ''name'' name @ attr_omitempty ''timestamp'' ts) []"

fun escape_char :: "char \<Rightarrow> string" where
  "escape_char c =
     (if c = CHR ''&'' then ''&amp;'' else if c = CHR ''<'' then ''&lt;''
      else if c = CHR ''>'' then ''&gt;'' else if c = CHR 0x22 then ''&quot;''
      else if c = CHR 0x27 then ''&apos;'' else [c])"

definition attrEscape :: "string \<Rightarrow> string" where
  "attrEscape s = concat (map escape_char s)"

definition quoted :: "string \<Rightarrow> string" where
  "quoted s = [CHR 0x22] @ s @ [CHR 0x22]"

definition blobSetXML ::
  "string \<Rightarrow> string \<Rightarrow> string \<Rightarrow> string \<Rightarrow> byte list \<Rightarrow> int \<Rightarrow> string \<Rightarrow> string" where
  "blobSetXML device name elem format data sz ts =
     ''<setBLOBVector device='' @ quoted (attrEscape device) @ '' name='' @ quoted (attrEscape name) @
     '' state='' @ quoted ''Ok'' @ '' timestamp='' @ quoted (attrEscape ts) @ ''>'' @
     ''<oneBLOB name='' @ quoted (attrEscape elem) @ '' size='' @ quoted (Itoa sz) @
     '' format='' @ quoted (attrEscape format) @ ''>'' @
     b64_encode data @
     ''</oneBLOB></setBLOBVector>''"

section \<open>The hand-built message keeps its attributes apart\<close>

lemma read_attr_escape_char:
  "c \<noteq> CHR 0x0D \<Longrightarrow> read_attr (escape_char c @ s) = put_text [c] (read_attr s)"
  using named_entities [of s] by (simp split: option.split)

lemma read_attr_attrEscape:
  assumes "CHR 0x0D \<notin> set v"
  shows "read_attr (attrEscape v @ CHR 0x22 # rest) = Some (v, rest)"
  using assms unfolding attrEscape_def
proof (induction v)
  case (Cons c v)
  then have "CHR 0x0D \<noteq> c" "CHR 0x0D \<notin> set v" by auto
  with Cons.IH show ?case by (simp add: read_attr_escape_char not_sym del: escape_char.simps read_attr.simps(2))
qed simp

section \<open>Properties\<close>

text \<open>An attribute of a hand-built BLOB message reads back as the string it was given, and cannot
  end its quotes early, unless the string holds a carriage return, which XML turns into a line
  feed.\<close>

theorem attribute_roundtrip:
  assumes "CHR 0x0D \<notin> set v"
  shows "read_attr (attrEscape v @ CHR 0x22 # rest) = Some (v, rest)"
  by (rule read_attr_attrEscape [OF assms])

theorem attribute_roundtrip_witness:
  "read_attr (attrEscape ''a<b&c'' @ CHR 0x22 # '' x'') = Some (''a<b&c'', '' x'')"
  by (rule attribute_roundtrip) simp

end
