(* ===== verification/ServerConn.thy ===== *)
theory ServerConn
  imports ServerXml "HOL-Library.Sublist"
begin

text \<open>
  One client connection of the hub (\<open>conn\<close> in \<open>server/server.go\<close>): the bounded outbound
  queue with its byte budget, the writer goroutine that empties it, the BLOB policy, and
  the inbound size guard. The queue is a Go channel, which panics on a send or a second
  close after it was closed; the model records such a panic so that its absence can be
  proved. \<open>registered\<close> is the connection's presence in the hub's \<open>conns\<close> map and
  \<open>written\<close> what the peer has been sent.
\<close>

section \<open>State\<close>

text \<open>The bounds are variables in the source; their defaults are 64 messages and 32 MiB.\<close>

record limits =
  outQueueMsgs :: nat
  outQueueBytes :: int

definition default_limits :: limits where
  "default_limits = \<lparr>outQueueMsgs = 64, outQueueBytes = 32 * 2 ^ 20\<rparr>"

datatype blobPolicy = BlobNever | BlobAlso | BlobOnly

definition parseBlobPolicy :: "string \<Rightarrow> blobPolicy option" where
  "parseBlobPolicy s =
     (let t = ToLower (TrimSpace s)
      in if t = ''never'' then Some BlobNever
         else if t = ''also'' then Some BlobAlso
         else if t = ''only'' then Some BlobOnly
         else None)"

datatype msgKind = KindOther | KindBLOBDef | KindBLOBSet

text \<open>Where the writer is: waiting on the channel, holding a message whose bytes still count,
  writing it, or returned.\<close>

datatype writer = WWait | WPopped string | WWriting string | WDone

record conn =
  remote :: string
  queue :: "string list"
  chan_closed :: bool
  qbytes :: int
  closed :: bool
  nc_closed :: bool
  registered :: bool
  writer :: writer
  written :: "string list"
  policy :: "string \<rightharpoonup> blobPolicy"
  panicked :: bool

definition newConn :: "string \<Rightarrow> conn" where
  "newConn addr =
     \<lparr>remote = addr, queue = [], chan_closed = False, qbytes = 0, closed = False, nc_closed = False,
      registered = True, writer = WWait, written = [], policy = Map.empty, panicked = False\<rparr>"

section \<open>Outbound\<close>

text \<open>A send on the channel, which panics once it is closed; the caller has room.\<close>

definition chan_send :: "string \<Rightarrow> conn \<Rightarrow> conn" where
  "chan_send b c = (if chan_closed c then c\<lparr>panicked := True\<rparr> else c\<lparr>queue := queue c @ [b]\<rparr>)"

definition chan_close :: "conn \<Rightarrow> conn" where
  "chan_close c = (if chan_closed c then c\<lparr>panicked := True\<rparr> else c\<lparr>chan_closed := True\<rparr>)"

text \<open>\<open>enqueue\<close> with its results \<open>ok\<close> and \<open>full\<close>.\<close>

definition enqueue :: "limits \<Rightarrow> string \<Rightarrow> conn \<Rightarrow> conn \<times> bool \<times> bool" where
  "enqueue L b c =
     (if closed c then (c, False, False)
      else if qbytes c > 0 \<and> qbytes c + int (length b) > outQueueBytes L then (c, False, True)
      else if length (queue c) < outQueueMsgs L
        then ((chan_send b c)\<lparr>qbytes := qbytes c + int (length b)\<rparr>, True, False)
      else (c, False, True))"

text \<open>\<open>removeConn\<close> in its three critical parts: leaving the hub's map, closing the queue, closing
  the socket. Between them other goroutines may run.\<close>

definition unregister :: "conn \<Rightarrow> conn" where
  "unregister c = c\<lparr>registered := False\<rparr>"

definition close_queue :: "conn \<Rightarrow> conn" where
  "close_queue c = (if \<not> closed c then chan_close (c\<lparr>closed := True\<rparr>) else c)"

definition close_socket :: "conn \<Rightarrow> conn" where
  "close_socket c = c\<lparr>nc_closed := True\<rparr>"

definition removeConn :: "conn \<Rightarrow> conn" where
  "removeConn c = close_socket (close_queue (unregister c))"

text \<open>The hub's \<open>send\<close>: a full queue drops the connection.\<close>

definition send :: "limits \<Rightarrow> string \<Rightarrow> conn \<Rightarrow> conn" where
  "send L msg c =
     (case enqueue L msg c of (c', ok, full) \<Rightarrow> if \<not> ok \<and> full then removeConn c' else c')"

section \<open>Policy\<close>

definition policy_key :: "string \<Rightarrow> string \<Rightarrow> string" where
  "policy_key device name = device @ [CHR 0x00] @ name"

definition setPolicy :: "string \<Rightarrow> string \<Rightarrow> blobPolicy \<Rightarrow> conn \<Rightarrow> conn" where
  "setPolicy device name p c = c\<lparr>policy := (policy c)(policy_key device name \<mapsto> p)\<rparr>"

fun first_policy :: "(string \<rightharpoonup> blobPolicy) \<Rightarrow> string list \<Rightarrow> blobPolicy" where
  "first_policy m [] = BlobNever"
| "first_policy m (k # ks) = (case m k of Some p \<Rightarrow> p | None \<Rightarrow> first_policy m ks)"

definition policyFor :: "conn \<Rightarrow> string \<Rightarrow> string \<Rightarrow> blobPolicy" where
  "policyFor c device name =
     first_policy (policy c) [policy_key device name, policy_key device [], policy_key [] []]"

definition wants :: "conn \<Rightarrow> string \<Rightarrow> string \<Rightarrow> msgKind \<Rightarrow> bool" where
  "wants c device name kind =
     (if kind = KindBLOBDef then True
      else let p = policyFor c device name
           in if kind = KindBLOBSet then p \<noteq> BlobNever else p \<noteq> BlobOnly)"

section \<open>The writer and the interleavings\<close>

text \<open>What can happen to a connection: an enqueue from any goroutine with its outcome, a policy
  change, the parts of \<open>removeConn\<close> (the socket is also closed when the server's context ends),
  and the steps of \<open>writeLoop\<close>, whose failed write is followed by a removal. Every message the
  hub sends ends in a newline, so none is empty.\<close>

datatype event =
  EnqOk string | EnqClosed string | EnqFull string | Policy string string blobPolicy
| Unregister | CloseQueue | CloseSocket
| Pop string | Count | WriteOk string | WriteFail string | LoopEnd

inductive conn_step :: "limits \<Rightarrow> conn \<Rightarrow> event \<Rightarrow> conn \<Rightarrow> bool" for L where
  enq_ok: "b \<noteq> [] \<Longrightarrow> enqueue L b c = (c', True, False) \<Longrightarrow> conn_step L c (EnqOk b) c'"
| enq_closed: "enqueue L b c = (c', False, False) \<Longrightarrow> conn_step L c (EnqClosed b) c'"
| enq_full: "enqueue L b c = (c', False, True) \<Longrightarrow> conn_step L c (EnqFull b) c'"
| set_policy: "conn_step L c (Policy d n p) (setPolicy d n p c)"
| unregister: "conn_step L c Unregister (unregister c)"
| close_queue: "conn_step L c CloseQueue (close_queue c)"
| close_socket: "conn_step L c CloseSocket (close_socket c)"
| pop: "writer c = WWait \<Longrightarrow> queue c = b # q \<Longrightarrow>
    conn_step L c (Pop b) (c\<lparr>queue := q, writer := WPopped b\<rparr>)"
| count: "writer c = WPopped b \<Longrightarrow>
    conn_step L c Count (c\<lparr>qbytes := qbytes c - int (length b), writer := WWriting b\<rparr>)"
| write_ok: "writer c = WWriting b \<Longrightarrow> \<not> nc_closed c \<Longrightarrow>
    conn_step L c (WriteOk b) (c\<lparr>written := written c @ [b], writer := WWait\<rparr>)"
| write_fail: "writer c = WWriting b \<Longrightarrow>
    conn_step L c (WriteFail b) (c\<lparr>writer := WDone\<rparr>)"
| loop_end: "writer c = WWait \<Longrightarrow> queue c = [] \<Longrightarrow> chan_closed c \<Longrightarrow>
    conn_step L c LoopEnd (c\<lparr>writer := WDone\<rparr>)"

inductive conn_run :: "limits \<Rightarrow> string \<Rightarrow> event list \<Rightarrow> conn \<Rightarrow> bool" for L addr where
  start: "conn_run L addr [] (newConn addr)"
| step: "conn_run L addr es c \<Longrightarrow> conn_step L c e c' \<Longrightarrow> conn_run L addr (es @ [e]) c'"

text \<open>The messages the queue took, in order.\<close>

fun accepted :: "event list \<Rightarrow> string list" where
  "accepted [] = []"
| "accepted (EnqOk b # es) = b # accepted es"
| "accepted (_ # es) = accepted es"

section \<open>Inbound\<close>

text \<open>\<open>inboundGuard\<close>: the bytes read since the last complete element. A read either fails with
  \<open>errInboundTooLarge\<close> or hands on what the socket gives, \<open>k\<close> bytes.\<close>

record inboundGuard =
  gn :: int
  gmax :: int

definition guard_Read :: "int \<Rightarrow> inboundGuard \<Rightarrow> string + inboundGuard" where
  "guard_Read k g =
     (if gn g > gmax g then Inl ''indi: inbound element exceeds size limit''
      else Inr (g\<lparr>gn := gn g + k\<rparr>))"

definition guard_reset :: "inboundGuard \<Rightarrow> inboundGuard" where
  "guard_reset g = g\<lparr>gn := 0\<rparr>"

definition maxInbound :: int where
  "maxInbound = 2 ^ 20"

section \<open>The connection invariant\<close>

text \<open>What is in flight to the peer, and the messages the byte count covers.\<close>

fun held :: "writer \<Rightarrow> string list" where
  "held (WPopped b) = [b]"
| "held (WWriting b) = [b]"
| "held _ = []"

fun uncounted :: "writer \<Rightarrow> string list" where
  "uncounted (WPopped b) = [b]"
| "uncounted _ = []"

definition counted :: "conn \<Rightarrow> string list" where
  "counted c = uncounted (writer c) @ queue c"

definition total :: "string list \<Rightarrow> int" where
  "total bs = sum_list (map (\<lambda>b. int (length b)) bs)"

lemma total_simps [simp]:
  "total [] = 0" "total (b # bs) = int (length b) + total bs" "total (as @ bs) = total as + total bs"
  by (simp_all add: total_def)

lemma total_nonneg: "0 \<le> total bs"
  by (induction bs) auto

lemma total_zero: "[] \<notin> set bs \<Longrightarrow> total bs = 0 \<Longrightarrow> bs = []"
proof (induction bs)
  case (Cons b bs)
  have "0 < int (length b)" using Cons.prems by auto
  moreover have "int (length b) + total bs = 0" using Cons.prems(2) by simp
  ultimately have False using total_nonneg[of bs] by linarith
  then show ?case ..
qed simp

definition conn_inv :: "limits \<Rightarrow> event list \<Rightarrow> conn \<Rightarrow> bool" where
  "conn_inv L es c \<longleftrightarrow>
     \<not> panicked c \<and> closed c = chan_closed c \<and> [] \<notin> set (counted c) \<and>
     length (queue c) \<le> outQueueMsgs L \<and> qbytes c = total (counted c) \<and>
     (qbytes c \<le> outQueueBytes L \<or> length (counted c) \<le> 1) \<and>
     (if writer c = WDone then prefix (written c) (accepted es)
      else accepted es = written c @ held (writer c) @ queue c)"

lemma accepted_append: "accepted (es @ fs) = accepted es @ accepted fs"
  by (induction es rule: accepted.induct) simp_all

lemma conn_inv_new: "conn_inv L [] (newConn addr)"
  by (simp add: conn_inv_def newConn_def counted_def)

lemma enqueue_ok_iff:
  "enqueue L b c = (c', True, False) \<longleftrightarrow>
     \<not> closed c \<and> (qbytes c \<le> 0 \<or> qbytes c + int (length b) \<le> outQueueBytes L) \<and>
     length (queue c) < outQueueMsgs L \<and>
     c' = (chan_send b c)\<lparr>qbytes := qbytes c + int (length b)\<rparr>"
  by (auto simp: enqueue_def)

lemma enqueue_refused:
  "enqueue L b c = (c', False, f) \<Longrightarrow> c' = c \<and> f = (\<not> closed c)"
  by (auto simp: enqueue_def split: if_splits)

lemmas conn_defs = chan_send_def chan_close_def unregister_def close_queue_def close_socket_def
  setPolicy_def

lemma conn_inv_enqueue:
  assumes inv: "conn_inv L es c" and b: "b \<noteq> []" and e: "enqueue L b c = (c', True, False)"
  shows "conn_inv L (es @ [EnqOk b]) c'"
proof -
  have open_c: "\<not> chan_closed c" and room: "length (queue c) < outQueueMsgs L"
    and fits: "qbytes c \<le> 0 \<or> qbytes c + int (length b) \<le> outQueueBytes L"
    and c': "c' = c\<lparr>queue := queue c @ [b], qbytes := qbytes c + int (length b)\<rparr>"
    using e inv by (auto simp: enqueue_ok_iff conn_inv_def chan_send_def)
  have cnt: "counted c' = counted c @ [b]" by (simp add: c' counted_def)
  have "qbytes c \<le> 0 \<Longrightarrow> counted c = []"
    using inv total_nonneg[of "counted c"] by (intro total_zero) (auto simp: conn_inv_def)
  then have bound: "qbytes c' \<le> outQueueBytes L \<or> length (counted c') \<le> 1"
    using fits cnt c' by auto
  show ?thesis
    using inv b room open_c bound unfolding conn_inv_def cnt
    by (auto simp: c' accepted_append)
qed

lemma conn_inv_step:
  assumes "conn_step L c e c'" and "conn_inv L es c"
  shows "conn_inv L (es @ [e]) c'"
  using assms
proof cases
  case (enq_ok b)
  then show ?thesis using assms(2) by (simp add: conn_inv_enqueue)
next
  case (pop b q)
  then show ?thesis using assms(2) by (auto simp: conn_inv_def counted_def accepted_append)
next
  case (count b)
  then show ?thesis using assms(2) by (auto simp: conn_inv_def counted_def accepted_append)
qed (use assms(2) in \<open>auto simp: conn_inv_def counted_def conn_defs accepted_append
       dest!: enqueue_refused split: if_splits\<close>)

lemma conn_run_inv: "conn_run L addr es c \<Longrightarrow> conn_inv L es c"
  by (induction rule: conn_run.induct) (auto intro: conn_inv_new conn_inv_step)

section \<open>The writer\<close>

text \<open>What \<open>writeLoop\<close> does to a healthy connection: the queue reaches the peer.\<close>

lemma conn_run_append:
  "conn_run L addr es c \<Longrightarrow> conn_step L c e c' \<Longrightarrow> conn_step L c' f c'' \<Longrightarrow>
   conn_run L addr (es @ [e, f]) c''"
  using conn_run.step[of L addr "es @ [e]" c' f c''] conn_run.step by fastforce

fun healthy :: "conn \<Rightarrow> bool" where
  "healthy c \<longleftrightarrow> \<not> nc_closed c \<and> writer c \<noteq> WDone"

lemma finish_held:
  assumes "conn_run L addr es c" and "healthy c"
  shows "\<exists>fs c'. conn_run L addr (es @ fs) c' \<and> accepted fs = [] \<and> writer c' = WWait \<and>
    \<not> nc_closed c' \<and> queue c' = queue c"
proof (cases "writer c")
  case WWait
  then show ?thesis using assms by (intro exI[of _ "[]"] exI[of _ c]) simp
next
  case (WPopped b)
  let ?c1 = "c\<lparr>qbytes := qbytes c - int (length b), writer := WWriting b\<rparr>"
  let ?c2 = "?c1\<lparr>written := written ?c1 @ [b], writer := WWait\<rparr>"
  have "conn_step L c Count ?c1" using WPopped by (rule conn_step.count)
  moreover have "conn_step L ?c1 (WriteOk b) ?c2"
    using assms(2) by (intro conn_step.write_ok) simp_all
  ultimately have "conn_run L addr (es @ [Count, WriteOk b]) ?c2"
    using assms(1) by (rule conn_run_append[rotated])
  then show ?thesis using assms(2) by (intro exI[of _ "[Count, WriteOk b]"] exI[of _ ?c2]) simp
next
  case (WWriting b)
  let ?c2 = "c\<lparr>written := written c @ [b], writer := WWait\<rparr>"
  have "conn_step L c (WriteOk b) ?c2" using WWriting assms(2) by (intro conn_step.write_ok) simp_all
  then have "conn_run L addr (es @ [WriteOk b]) ?c2" using assms(1) by (rule conn_run.step[rotated])
  then show ?thesis using assms(2) by (intro exI[of _ "[WriteOk b]"] exI[of _ ?c2]) simp
qed (use assms in simp)

lemma drain:
  assumes "conn_run L addr es c" and "healthy c"
  shows "\<exists>fs c'. conn_run L addr (es @ fs) c' \<and> accepted fs = [] \<and> writer c' = WWait \<and> queue c' = []"
  using assms
proof (induction "queue c" arbitrary: es c)
  case Nil
  then show ?case using finish_held[of L addr es c] by fastforce
next
  case (Cons b q)
  obtain fs c1 where c1: "conn_run L addr (es @ fs) c1" "accepted fs = []" "writer c1 = WWait"
    "\<not> nc_closed c1" "queue c1 = b # q"
    using finish_held[OF Cons.prems] Cons.hyps(2) by metis
  let ?c2 = "c1\<lparr>queue := q, writer := WPopped b\<rparr>"
  have "conn_step L c1 (Pop b) ?c2" using c1 by (intro conn_step.pop) simp_all
  then have "conn_run L addr ((es @ fs) @ [Pop b]) ?c2" using c1(1) by (rule conn_run.step[rotated])
  moreover have "healthy ?c2" using c1 by simp
  ultimately obtain gs c' where "conn_run L addr (((es @ fs) @ [Pop b]) @ gs) c'" "accepted gs = []"
    "writer c' = WWait" "queue c' = []"
    using Cons.hyps(1)[of ?c2 "(es @ fs) @ [Pop b]"] by auto
  then show ?case
    using c1(2) by (intro exI[of _ "fs @ Pop b # gs"] exI[of _ c']) (simp add: accepted_append)
qed

section \<open>Policies\<close>

text \<open>A device or property name read from XML holds no NUL.\<close>

definition name_ok :: "string \<Rightarrow> bool" where
  "name_ok s \<longleftrightarrow> CHR 0x00 \<notin> set s"

lemma policy_key_inj:
  assumes "name_ok d" and "name_ok d'" and "policy_key d n = policy_key d' n'"
  shows "d = d' \<and> n = n'"
  using assms
proof (induction d arbitrary: d')
  case Nil
  then show ?case by (cases d') (auto simp: policy_key_def name_ok_def)
next
  case (Cons c d)
  then show ?case by (cases d') (auto simp: policy_key_def name_ok_def)
qed

lemma setPolicy_lookup:
  assumes "name_ok d" and "name_ok d'"
  shows "policy (setPolicy d n p c) (policy_key d' n') =
    (if d = d' \<and> n = n' then Some p else policy c (policy_key d' n'))"
  using policy_key_inj[OF assms, of n n'] by (auto simp: setPolicy_def)

section \<open>Messages one after the other\<close>

text \<open>The hub hands a connection its messages one at a time through \<open>send\<close>. Seen from there a
  connection is an outbox: while it is open each message is appended or the connection is
  dropped for good, so what a client gets is an initial segment of what was sent to it.\<close>

locale outbox =
  fixes put :: "'m \<Rightarrow> 's \<Rightarrow> 's"
    and is_open :: "'s \<Rightarrow> bool"
    and items :: "'s \<Rightarrow> 'm list"
  assumes put_open: "is_open (put m s) \<Longrightarrow> is_open s \<and> items (put m s) = items s @ [m]"
    and put_closed: "\<not> is_open (put m s) \<Longrightarrow> items (put m s) = items s"
begin

lemma puts_open:
  "is_open (fold put ms s) \<Longrightarrow> is_open s \<and> items (fold put ms s) = items s @ ms"
proof (induction ms arbitrary: s)
  case (Cons m ms)
  then show ?case using put_open[of m s] by force
qed simp

lemma puts_closed:
  "\<not> is_open s \<Longrightarrow> items (fold put ms s) = items s \<and> \<not> is_open (fold put ms s)"
proof (induction ms arbitrary: s)
  case (Cons m ms)
  have "\<not> is_open (put m s)" using Cons.prems put_open by blast
  then show ?case using Cons.IH[of "put m s"] put_closed[of m s] by simp
qed simp

lemma puts_prefix: "\<exists>k. items (fold put ms s) = items s @ take k ms \<and>
   (is_open (fold put ms s) \<longrightarrow> k = length ms)"
proof (induction ms arbitrary: s)
  case (Cons m ms)
  show ?case
  proof (cases "is_open (put m s)")
    case True
    obtain k where k: "items (fold put ms (put m s)) = items (put m s) @ take k ms"
      "is_open (fold put ms (put m s)) \<longrightarrow> k = length ms"
      using Cons.IH[of "put m s"] by blast
    then show ?thesis using put_open[OF True] by (intro exI[of _ "Suc k"]) simp
  next
    case False
    then show ?thesis using puts_closed[OF False] put_closed[OF False] by (intro exI[of _ 0]) simp
  qed
qed simp

end

definition conn_open :: "conn \<Rightarrow> bool" where
  "conn_open c \<longleftrightarrow> \<not> closed c \<and> \<not> chan_closed c"

definition conn_items :: "conn \<Rightarrow> string list" where
  "conn_items c = written c @ held (writer c) @ queue c"

lemma removeConn_closed [simp]:
  "\<not> conn_open (removeConn c)" "conn_items (removeConn c) = conn_items c"
  by (auto simp: removeConn_def conn_defs conn_open_def conn_items_def)

lemma send_cases:
  "send L m c = (if closed c then c
     else if (qbytes c \<le> 0 \<or> qbytes c + int (length m) \<le> outQueueBytes L) \<and>
       length (queue c) < outQueueMsgs L
     then (chan_send m c)\<lparr>qbytes := qbytes c + int (length m)\<rparr> else removeConn c)"
  by (auto simp: send_def enqueue_def)

interpretation conn_outbox: outbox "send L" conn_open conn_items
proof
  show "conn_open (send L m s) \<Longrightarrow> conn_open s \<and> conn_items (send L m s) = conn_items s @ [m]" for m s
    by (auto simp: send_cases conn_open_def conn_items_def chan_send_def removeConn_def conn_defs
        split: if_splits)
  show "\<not> conn_open (send L m s) \<Longrightarrow> conn_items (send L m s) = conn_items s" for m s
    by (auto simp: send_cases conn_open_def conn_items_def chan_send_def removeConn_def conn_defs
        split: if_splits)
qed

section \<open>The inbound guard\<close>

fun guard_reads :: "int list \<Rightarrow> inboundGuard \<Rightarrow> string + inboundGuard" where
  "guard_reads [] g = Inr g"
| "guard_reads (k # ks) g = (case guard_Read k g of Inl e \<Rightarrow> Inl e | Inr g' \<Rightarrow> guard_reads ks g')"

lemma guard_reads_bound:
  assumes "guard_reads ks g = Inr g'" and "\<forall>k\<in>set ks. 0 \<le> k \<and> k \<le> B" and "gn g \<le> gmax g + B" and "0 \<le> B"
  shows "gmax g' = gmax g \<and> gn g' = gn g + sum_list ks \<and> gn g' \<le> gmax g + B"
  using assms
proof (induction ks arbitrary: g)
  case (Cons k ks)
  then show ?case
    by (fastforce simp: guard_Read_def split: if_splits)
qed simp


section \<open>Properties\<close>

text \<open>A short run, for the witnesses: two messages accepted, the first one being written.\<close>

definition sample_events :: "event list" where
  "sample_events = [EnqOk ''one'', EnqOk ''two'', Pop ''one'', Count]"

definition sample_conn :: conn where
  "sample_conn = (newConn ''peer'')\<lparr>queue := [''two''], qbytes := 3, writer := WWriting ''one''\<rparr>"

lemma sample_run: "conn_run default_limits ''peer'' sample_events sample_conn"
proof -
  let ?c0 = "newConn ''peer''"
  let ?c1 = "?c0\<lparr>queue := [''one''], qbytes := 3\<rparr>"
  let ?c2 = "?c0\<lparr>queue := [''one'', ''two''], qbytes := 6\<rparr>"
  let ?c3 = "?c0\<lparr>queue := [''two''], qbytes := 6, writer := WPopped ''one''\<rparr>"
  have s1: "conn_step default_limits ?c0 (EnqOk ''one'') ?c1"
    by (rule conn_step.enq_ok) (simp_all add: enqueue_ok_iff newConn_def chan_send_def default_limits_def)
  have s2: "conn_step default_limits ?c1 (EnqOk ''two'') ?c2"
    by (rule conn_step.enq_ok) (simp_all add: enqueue_ok_iff newConn_def chan_send_def default_limits_def)
  have s3: "conn_step default_limits ?c2 (Pop ''one'') ?c3"
    using conn_step.pop[of ?c2 "''one''" "[''two'']"] by (simp add: newConn_def)
  have s4: "conn_step default_limits ?c3 Count sample_conn"
    using conn_step.count[of ?c3 "''one''"] by (simp add: newConn_def sample_conn_def)
  have "conn_run default_limits ''peer'' ((([] @ [EnqOk ''one'']) @ [EnqOk ''two'']) @ [Pop ''one''] @ [Count]) sample_conn"
    using conn_run.step[OF conn_run.step[OF conn_run.step[OF conn_run.step[OF conn_run.start s1] s2] s3] s4]
    by simp
  then show ?thesis by (simp add: sample_events_def)
qed

text \<open>C2: Whatever the interleaving of enqueues, removals, policy changes and writer steps, the
  closed channel is never sent to or closed twice, the queue holds at most its number of
  messages, and the bytes counted against the budget are those of the waiting messages: within
  the budget, or of one message admitted to an empty queue.\<close>

theorem conn_queue_safe:
  assumes "conn_run L addr es c"
  shows "\<not> panicked c \<and> closed c = chan_closed c \<and> length (queue c) \<le> outQueueMsgs L \<and>
    qbytes c = total (counted c) \<and> (qbytes c \<le> outQueueBytes L \<or> length (counted c) \<le> 1)"
  using conn_run_inv[OF assms] unfolding conn_inv_def by auto

theorem conn_queue_safe_witness: "qbytes sample_conn = total (counted sample_conn)"
  using conn_queue_safe[OF sample_run] by simp

text \<open>C4: The peer of a connection is sent the accepted messages in order and without a gap; while
  the writer runs the rest is the message in flight followed by the queue.\<close>

theorem conn_in_order:
  assumes "conn_run L addr es c"
  shows "prefix (written c) (accepted es) \<and>
    (writer c \<noteq> WDone \<longrightarrow> accepted es = written c @ held (writer c) @ queue c)"
  using conn_run_inv[OF assms] by (auto simp: conn_inv_def split: if_splits)

theorem conn_in_order_witness:
  "accepted sample_events = written sample_conn @ held (writer sample_conn) @ queue sample_conn"
  using conn_in_order[OF sample_run] by (simp add: sample_conn_def)

text \<open>C18: From every reachable state with an open socket and a running writer, the writer can go on
  until everything accepted has been written: no message is lost in the queue, even after the
  channel was closed.\<close>

theorem conn_drains:
  assumes "conn_run L addr es c" and "\<not> nc_closed c" and "writer c \<noteq> WDone"
  shows "\<exists>fs c'. conn_run L addr (es @ fs) c' \<and> accepted fs = [] \<and> written c' = accepted es"
proof -
  obtain fs c' where c': "conn_run L addr (es @ fs) c'" "accepted fs = []" "writer c' = WWait" "queue c' = []"
    using drain[OF assms(1)] assms(2,3) by auto
  then have "written c' = accepted es"
    using conn_run_inv[OF c'(1)] by (simp add: conn_inv_def accepted_append)
  then show ?thesis using c' by blast
qed

theorem conn_drains_witness:
  "\<exists>fs c'. conn_run default_limits ''peer'' (sample_events @ fs) c' \<and> accepted fs = [] \<and>
     written c' = accepted sample_events"
  by (rule conn_drains[OF sample_run]) (simp_all add: sample_conn_def newConn_def)

text \<open>Seen from the hub's \<open>send\<close>, a connection takes an initial segment of the messages sent to
  it, all of them unless it was dropped, and a message is refused only by dropping the
  connection.\<close>

theorem sends_prefix:
  "\<exists>k. conn_items (fold (send L) ms c) = conn_items c @ take k ms \<and>
     (conn_open (fold (send L) ms c) \<longrightarrow> k = length ms)"
  by (rule conn_outbox.puts_prefix)

theorem sends_prefix_witness:
  "\<exists>k. conn_items (fold (send default_limits) [''a'', ''b''] (newConn ''p'')) = take k [''a'', ''b'']"
  using sends_prefix[of default_limits "[''a'', ''b'']" "newConn ''p''"]
  by (auto simp: conn_items_def newConn_def)

text \<open>The BLOB policy of a property is the one set for it, else the one of its device, else the
  one of the whole server, else Never; setting one scope changes no other.\<close>

theorem policyFor_setPolicy:
  assumes "name_ok d" and "name_ok d'"
  shows "policyFor (setPolicy d n p c) d' n' =
    (if d = d' \<and> n = n' then p
     else case policy c (policy_key d' n') of Some q \<Rightarrow> q
     | None \<Rightarrow> if d = d' \<and> n = [] then p
     else case policy c (policy_key d' []) of Some q \<Rightarrow> q
     | None \<Rightarrow> if d = [] \<and> n = [] then p
     else case policy c (policy_key [] []) of Some q \<Rightarrow> q | None \<Rightarrow> BlobNever)"
proof -
  have nul: "name_ok []" by (simp add: name_ok_def)
  show ?thesis
    unfolding policyFor_def first_policy.simps setPolicy_lookup[OF assms] setPolicy_lookup[OF assms(1) nul]
    by (auto split: option.splits)
qed

theorem policyFor_setPolicy_witness:
  "policyFor (setPolicy ''CCD'' [] BlobAlso (newConn ''p'')) ''CCD'' ''CCD1'' = BlobAlso"
  using policyFor_setPolicy[of "''CCD''" "''CCD''" "[]" BlobAlso "newConn ''p''" "''CCD1''"]
  by (simp add: name_ok_def newConn_def)

text \<open>The guard of the read loop admits at most its limit and one read more between two
  complete elements, whatever the sizes of the reads.\<close>

theorem guard_bound:
  assumes "guard_reads ks \<lparr>gn = 0, gmax = maxInbound\<rparr> = Inr g" and "\<forall>k\<in>set ks. 0 \<le> k \<and> k \<le> B"
    and "0 \<le> B"
  shows "sum_list ks \<le> maxInbound + B"
  using guard_reads_bound[OF assms(1,2)] assms(3) by (simp add: maxInbound_def)

theorem guard_bound_witness: "sum_list [4096, 4096] \<le> maxInbound + 4096"
proof (rule guard_bound[of "[4096, 4096]" "\<lparr>gn = 8192, gmax = maxInbound\<rparr>" 4096])
  show "guard_reads [4096, 4096] \<lparr>gn = 0, gmax = maxInbound\<rparr> = Inr \<lparr>gn = 8192, gmax = maxInbound\<rparr>"
    by (simp add: guard_Read_def maxInbound_def)
qed simp_all

end
