(* ===== verification/ServerHub.thy ===== *)
theory ServerHub
  imports ServerConn
begin

text \<open>
  The hub of \<open>server/server.go\<close>: registered devices, client connections, the publisher that
  pushes property changes to every client, and the handling of inbound elements with the
  validation of \<open>dispatchNew\<close>. A device is a value of the type \<open>'d\<close> with the operations of
  the \<open>Device\<close> interface in a record; a Go pointer to a device, to one of its properties or
  to a connection is its position in a list. One operation runs at a time; what goes on
  between goroutines within one connection is in \<open>ServerConn\<close>. Logging is left out.
\<close>

section \<open>State\<close>

text \<open>What an operation reads from its surroundings: the queue bounds, which runes \<open>%q\<close> prints
  as they are, the inflated length of a zlib stream (None when it does not inflate), the time.\<close>

record env =
  eLimits :: limits
  ePrint :: "nat \<Rightarrow> bool"
  eInflate :: "byte list \<Rightarrow> int option"
  eNow :: string

text \<open>What a device does with its publisher, each property as it is at that moment.\<close>

datatype publication =
  PDefine Property
| PUpdate Property
| PMessage string string
| PDelete string string
| PSendBLOB string string string string "byte list"
| PSendBLOBSized string string string string "byte list" int

text \<open>The interface \<open>Device\<close>, with a write through the pointer to the i-th property, and whether
  the device is a \<open>Starter\<close>. \<open>dHandle\<close> gives the publications of \<open>HandleNew\<close> until it returns
  and the device then.\<close>

record 'd device_ops =
  dName :: "'d \<Rightarrow> string"
  dProps :: "'d \<Rightarrow> Property list"
  dPut :: "'d \<Rightarrow> nat \<Rightarrow> Property \<Rightarrow> 'd"
  dHandle :: "'d \<Rightarrow> string \<Rightarrow> NewMember list \<Rightarrow> publication list \<times> 'd"
  dStarter :: "'d \<Rightarrow> bool"

record 'd hub =
  hDevices :: "string \<rightharpoonup> nat"
  hOrder :: "'d list"
  hConns :: "conn list"
  hServing :: bool
  hStarted :: "nat list"

definition New :: "'d hub" where
  "New = \<lparr>hDevices = Map.empty, hOrder = [], hConns = [], hServing = False, hStarted = []\<rparr>"

section \<open>Devices\<close>

definition AddDevice :: "env \<Rightarrow> 'd device_ops \<Rightarrow> 'd \<Rightarrow> 'd hub \<Rightarrow> string + 'd hub" where
  "AddDevice E ops d h =
     (case hDevices h (dName ops d) of
        Some _ \<Rightarrow> Inl (''indi: duplicate device name '' @ Quote (ePrint E) (dName ops d))
      | None \<Rightarrow>
          (let i = length (hOrder h);
               h1 = h\<lparr>hDevices := (hDevices h)(dName ops d \<mapsto> i), hOrder := hOrder h @ [d]\<rparr>
           in Inr (if hServing h1 \<and> dStarter ops d then h1\<lparr>hStarted := hStarted h1 @ [i]\<rparr> else h1)))"

text \<open>The part of \<open>Serve\<close> between listening and the accept loop.\<close>

definition Serve_start :: "'d device_ops \<Rightarrow> 'd hub \<Rightarrow> 'd hub" where
  "Serve_start ops h =
     h\<lparr>hServing := True,
       hStarted := hStarted h @ filter (\<lambda>i. dStarter ops (hOrder h ! i)) [0..<length (hOrder h)]\<rparr>"

definition device :: "'d hub \<Rightarrow> string \<Rightarrow> nat option" where
  "device h name = hDevices h name"

section \<open>The accept loop\<close>

text \<open>The outcome of one \<open>Accept\<close>: a connection, or an error with the context done, the
  listener closed, or neither, and whether the context ends while waiting to retry.\<close>

datatype accept = Accepted string | CtxDone | ListenerClosed | Transient bool

text \<open>Durations in nanoseconds.\<close>

definition next_backoff :: "int \<Rightarrow> int" where
  "next_backoff b =
     (if b = 0 then 5 * 10 ^ 6
      else if b < 10 ^ 9 then (if b * 2 > 10 ^ 9 then 10 ^ 9 else b * 2)
      else b)"

text \<open>The loop over a list of outcomes: the hub, the delays waited, and how it returned, if the
  outcomes made it return.\<close>

fun acceptLoop :: "int \<Rightarrow> accept list \<Rightarrow> 'd hub \<Rightarrow> 'd hub \<times> int list \<times> string option option" where
  "acceptLoop b [] h = (h, [], None)"
| "acceptLoop b (CtxDone # as) h = (h, [], Some None)"
| "acceptLoop b (ListenerClosed # as) h = (h, [], Some (Some ''indi: accept: ''))"
| "acceptLoop b (Transient stop # as) h =
     (let b' = next_backoff b
      in if stop then (h, [b'], Some None)
         else (case acceptLoop b' as h of (h', ds, r) \<Rightarrow> (h', b' # ds, r)))"
| "acceptLoop b (Accepted addr # as) h =
     acceptLoop 0 as (h\<lparr>hConns := hConns h @ [newConn addr]\<rparr>)"

section \<open>Publishing\<close>

definition frame :: "string \<Rightarrow> string" where
  "frame b = b @ [CHR 0x0A]"

definition broadcast :: "env \<Rightarrow> string \<Rightarrow> string \<Rightarrow> string \<Rightarrow> msgKind \<Rightarrow> conn list \<Rightarrow> conn list" where
  "broadcast E b dev name kind cs =
     map (\<lambda>c. if registered c \<and> wants c dev name kind then send (eLimits E) (frame b) c else c) cs"

definition def_kind :: "Property \<Rightarrow> msgKind" where
  "def_kind p = (if pType p = BLOBType then KindBLOBDef else KindOther)"

definition Define :: "env \<Rightarrow> Property \<Rightarrow> conn list \<Rightarrow> conn list" where
  "Define E p cs =
     (case marshalDef p (eNow E) of
        Inr x \<Rightarrow> broadcast E (xml_bytes x) (pDevice p) (pName p) (def_kind p) cs
      | Inl _ \<Rightarrow> cs)"

definition Update :: "env \<Rightarrow> Property \<Rightarrow> conn list \<Rightarrow> conn list" where
  "Update E p cs =
     (case marshalSet p (eNow E) of
        Inr x \<Rightarrow> broadcast E (xml_bytes x) (pDevice p) (pName p) KindOther cs
      | Inl _ \<Rightarrow> cs)"

definition Message :: "env \<Rightarrow> string \<Rightarrow> string \<Rightarrow> conn list \<Rightarrow> conn list" where
  "Message E dev msg cs = broadcast E (xml_bytes (xmessage dev (eNow E) msg)) dev [] KindOther cs"

definition Delete :: "env \<Rightarrow> string \<Rightarrow> string \<Rightarrow> conn list \<Rightarrow> conn list" where
  "Delete E dev name cs = broadcast E (xml_bytes (xdelProperty dev name (eNow E))) dev name KindOther cs"

definition blobSize :: "env \<Rightarrow> string \<Rightarrow> byte list \<Rightarrow> int" where
  "blobSize E format data =
     (if \<not> HasSuffix format ''.z'' then int (length data)
      else case eInflate E data of Some n \<Rightarrow> n | None \<Rightarrow> int (length data))"

definition sendBLOB ::
  "env \<Rightarrow> string \<Rightarrow> string \<Rightarrow> string \<Rightarrow> string \<Rightarrow> byte list \<Rightarrow> int \<Rightarrow> conn list \<Rightarrow> conn list" where
  "sendBLOB E dev name elem format data sz cs =
     (let msg = frame (blobSetXML dev name elem format data sz (eNow E))
      in map (\<lambda>c. if registered c \<and> wants c dev name KindBLOBSet then send (eLimits E) msg c else c) cs)"

definition SendBLOB ::
  "env \<Rightarrow> string \<Rightarrow> string \<Rightarrow> string \<Rightarrow> string \<Rightarrow> byte list \<Rightarrow> conn list \<Rightarrow> conn list" where
  "SendBLOB E dev name elem format data cs =
     sendBLOB E dev name elem format data (blobSize E format data) cs"

definition SendBLOBSized ::
  "env \<Rightarrow> string \<Rightarrow> string \<Rightarrow> string \<Rightarrow> string \<Rightarrow> byte list \<Rightarrow> int \<Rightarrow> conn list \<Rightarrow> conn list" where
  "SendBLOBSized E dev name elem format data uncompressedSize cs =
     sendBLOB E dev name elem format data uncompressedSize cs"

fun publish :: "env \<Rightarrow> publication \<Rightarrow> conn list \<Rightarrow> conn list" where
  "publish E (PDefine p) cs = Define E p cs"
| "publish E (PUpdate p) cs = Update E p cs"
| "publish E (PMessage dev msg) cs = Message E dev msg cs"
| "publish E (PDelete dev name) cs = Delete E dev name cs"
| "publish E (PSendBLOB dev name elem format data) cs = SendBLOB E dev name elem format data cs"
| "publish E (PSendBLOBSized dev name elem format data sz) cs =
     SendBLOBSized E dev name elem format data sz cs"

definition messageTo :: "env \<Rightarrow> string \<Rightarrow> string \<Rightarrow> conn \<Rightarrow> conn" where
  "messageTo E dev msg c = send (eLimits E) (frame (xml_bytes (xmessage dev (eNow E) msg))) c"

section \<open>Inbound elements\<close>

text \<open>\<open>snapshot\<close>: the definitions of the requested properties to one connection.\<close>

fun snapshot_props :: "env \<Rightarrow> string \<Rightarrow> Property list \<Rightarrow> conn \<Rightarrow> conn" where
  "snapshot_props E name [] c = c"
| "snapshot_props E name (p # ps) c =
     snapshot_props E name ps
       (if name \<noteq> [] \<and> pName p \<noteq> name then c
        else case marshalDef p (eNow E) of
               Inl _ \<Rightarrow> c
             | Inr x \<Rightarrow>
                 if wants c (pDevice p) (pName p) (def_kind p)
                 then send (eLimits E) (frame (xml_bytes x)) c else c)"

fun snapshot_devices :: "env \<Rightarrow> 'd device_ops \<Rightarrow> string \<Rightarrow> string \<Rightarrow> 'd list \<Rightarrow> conn \<Rightarrow> conn" where
  "snapshot_devices E ops dev name [] c = c"
| "snapshot_devices E ops dev name (d # ds) c =
     snapshot_devices E ops dev name ds
       (if dev \<noteq> [] \<and> dName ops d \<noteq> dev then c else snapshot_props E name (dProps ops d) c)"

definition hub_snapshot :: "env \<Rightarrow> 'd device_ops \<Rightarrow> nat \<Rightarrow> string \<Rightarrow> string \<Rightarrow> 'd hub \<Rightarrow> 'd hub" where
  "hub_snapshot E ops i dev name h =
     h\<lparr>hConns := (hConns h)[i := snapshot_devices E ops dev name (hOrder h) (hConns h ! i)]\<rparr>"

definition newVecType :: "string \<Rightarrow> PropType" where
  "newVecType elem =
     (if elem = ''newNumberVector'' then NumberType
      else if elem = ''newSwitchVector'' then SwitchType else TextType)"

text \<open>The position of the first property of a name.\<close>

fun find_prop :: "string \<Rightarrow> Property list \<Rightarrow> nat option" where
  "find_prop name [] = None"
| "find_prop name (p # ps) = (if pName p = name then Some 0 else map_option Suc (find_prop name ps))"

definition count_on :: "xoneMember list \<Rightarrow> nat" where
  "count_on ms = length (filter (\<lambda>m. EqualFoldOn (TrimSpace (xoValue m))) ms)"

definition member_limits :: "Member list \<Rightarrow> string \<rightharpoonup> Member" where
  "member_limits ms = map_of (rev (map (\<lambda>m. (mName m, m)) ms))"

text \<open>The loop over the numbers of a vector: the reason of the first rejection.\<close>

fun check_numbers :: "(nat \<Rightarrow> bool) \<Rightarrow> (string \<rightharpoonup> Member) \<Rightarrow> xoneMember list \<Rightarrow> string option" where
  "check_numbers pr lims [] = None"
| "check_numbers pr lims (n # ns) =
     (case ParseNumber (xoValue n) of
        None \<Rightarrow> Some (xoName n @ '': not a number: '' @ Quote pr (TrimSpace (xoValue n)))
      | Some val \<Rightarrow>
         (case lims (xoName n) of
            Some m \<Rightarrow>
              if mMin m < mMax m \<and> (val < mMin m \<or> mMax m < val)
              then Some (xoName n @ '': '' @ FormatG val @ '' out of range ['' @ FormatG (mMin m) @ '', '' @
                     FormatG (mMax m) @ '']'')
              else check_numbers pr lims ns
          | None \<Rightarrow> check_numbers pr lims ns))"

definition new_members :: "xnewVector \<Rightarrow> NewMember list" where
  "new_members v =
     map (\<lambda>m. \<lparr>nm_name = xoName m, nm_value = xoValue m\<rparr>) (xnNumbers v @ xnSwitches v @ xnTexts v)"

text \<open>The branches of \<open>dispatchNew\<close> once the device is known: ignored with a message to the
  client, rejected with an alert, or handed to the device.\<close>

datatype verdict = Dropped string | Rejected nat string | Handed "NewMember list"

definition judge :: "(nat \<Rightarrow> bool) \<Rightarrow> Property list \<Rightarrow> string \<Rightarrow> xnewVector \<Rightarrow> verdict" where
  "judge pr ps elem v =
     (case find_prop (xnName v) ps of
        None \<Rightarrow> Dropped ''no such property''
      | Some j \<Rightarrow>
         let p = ps ! j
         in if pPerm p = RO then Dropped ''property is read-only''
            else if pType p \<noteq> newVecType elem
              then Dropped (''property is a '' @ PropType_String (pType p) @ '' vector'')
            else if pType p = SwitchType \<and> pRule p \<noteq> AnyOfMany \<and> count_on (xnSwitches v) > 1
              then Dropped (''rule '' @ SwitchRule_String (pRule p) @ '' allows at most one On member'')
            else case (if pType p = NumberType
                       then check_numbers pr (member_limits (snd (snapshot p))) (xnNumbers v) else None) of
                   Some why \<Rightarrow> Rejected j why
                 | None \<Rightarrow> Handed (new_members v))"

definition drop_message :: "(nat \<Rightarrow> bool) \<Rightarrow> string \<Rightarrow> xnewVector \<Rightarrow> string \<Rightarrow> string" where
  "drop_message pr elem v why = elem @ '' '' @ Quote pr (xnName v) @ '' ignored: '' @ why"

text \<open>\<open>rejectNumber\<close> on property j of device k.\<close>

definition rejectNumber :: "env \<Rightarrow> 'd device_ops \<Rightarrow> nat \<Rightarrow> nat \<Rightarrow> string \<Rightarrow> 'd hub \<Rightarrow> 'd hub" where
  "rejectNumber E ops k j why h =
     (let d = hOrder h ! k;
          p = SetState Alert (dProps ops d ! j);
          h1 = h\<lparr>hOrder := (hOrder h)[k := dPut ops d j p]\<rparr>
      in h1\<lparr>hConns := Message E (pDevice p) (pName p @ '': '' @ why) (Update E p (hConns h1))\<rparr>)"

definition dispatchNew :: "env \<Rightarrow> 'd device_ops \<Rightarrow> nat \<Rightarrow> string \<Rightarrow> xnewVector \<Rightarrow> 'd hub \<Rightarrow> 'd hub" where
  "dispatchNew E ops i elem v h =
     (case device h (xnDevice v) of
        None \<Rightarrow> h
      | Some k \<Rightarrow>
         let d = hOrder h ! k
         in case judge (ePrint E) (dProps ops d) elem v of
              Dropped why \<Rightarrow>
                h\<lparr>hConns := (hConns h)[i :=
                    messageTo E (xnDevice v) (drop_message (ePrint E) elem v why) (hConns h ! i)]\<rparr>
            | Rejected j why \<Rightarrow> rejectNumber E ops k j why h
            | Handed ms \<Rightarrow>
                (case dHandle ops d (xnName v) ms of
                   (acts, d') \<Rightarrow> h\<lparr>hOrder := (hOrder h)[k := d'], hConns := fold (publish E) acts (hConns h)\<rparr>))"

text \<open>One complete top-level element in the read loop of connection i.\<close>

definition handle_elem :: "env \<Rightarrow> 'd device_ops \<Rightarrow> nat \<Rightarrow> xml \<Rightarrow> 'd hub \<Rightarrow> 'd hub" where
  "handle_elem E ops i x h =
     (if elem_name x = ''getProperties''
        then let v = decode_get x in hub_snapshot E ops i (xgDevice v) (xgName v) h
      else if elem_name x \<in> {''newNumberVector'', ''newSwitchVector'', ''newTextVector''}
        then dispatchNew E ops i (elem_name x) (decode_new x) h
      else if elem_name x = ''enableBLOB''
        then let v = decode_enable x
             in (case parseBlobPolicy (TrimSpace (xeValue v)) of
                   Some pol \<Rightarrow>
                     h\<lparr>hConns := (hConns h)[i := setPolicy (xeDevice v) (xeName v) pol (hConns h ! i)]\<rparr>
                 | None \<Rightarrow> h)
      else h)"

section \<open>What one connection is sent\<close>

text \<open>A publication as the message it amounts to, with its scope and kind.\<close>

fun pub_message :: "env \<Rightarrow> publication \<Rightarrow> (string \<times> string \<times> string \<times> msgKind) option" where
  "pub_message E (PDefine p) =
     (case marshalDef p (eNow E) of
        Inr x \<Rightarrow> Some (frame (xml_bytes x), pDevice p, pName p, def_kind p) | Inl _ \<Rightarrow> None)"
| "pub_message E (PUpdate p) =
     (case marshalSet p (eNow E) of
        Inr x \<Rightarrow> Some (frame (xml_bytes x), pDevice p, pName p, KindOther) | Inl _ \<Rightarrow> None)"
| "pub_message E (PMessage dev msg) =
     Some (frame (xml_bytes (xmessage dev (eNow E) msg)), dev, [], KindOther)"
| "pub_message E (PDelete dev name) =
     Some (frame (xml_bytes (xdelProperty dev name (eNow E))), dev, name, KindOther)"
| "pub_message E (PSendBLOB dev name elem format data) =
     Some (frame (blobSetXML dev name elem format data (blobSize E format data) (eNow E)), dev, name, KindBLOBSet)"
| "pub_message E (PSendBLOBSized dev name elem format data sz) =
     Some (frame (blobSetXML dev name elem format data sz (eNow E)), dev, name, KindBLOBSet)"

text \<open>Sending to a connection while the hub has it, and the messages of a list of publications
  it is sent.\<close>

definition deliver :: "limits \<Rightarrow> string \<Rightarrow> conn \<Rightarrow> conn" where
  "deliver L m c = (if registered c then send L m c else c)"

definition pub_for :: "env \<Rightarrow> conn \<Rightarrow> publication \<Rightarrow> string list" where
  "pub_for E c a =
     (case pub_message E a of
        Some (m, dev, name, kind) \<Rightarrow> if wants c dev name kind then [m] else []
      | None \<Rightarrow> [])"

definition messages_for :: "env \<Rightarrow> conn \<Rightarrow> publication list \<Rightarrow> string list" where
  "messages_for E c acts = concat (map (pub_for E c) acts)"

lemma publish_map: "publish E a cs = map (\<lambda>c. fold (deliver (eLimits E)) (pub_for E c a) c) cs"
  by (cases a)
     (auto simp: Define_def Update_def Message_def Delete_def SendBLOB_def SendBLOBSized_def
        sendBLOB_def broadcast_def pub_for_def deliver_def Let_def split: sum.split)

lemma policy_send [conn_simps]: "policy (send L m c) = policy c"
  by (simp add: send_cases removeConn_def conn_defs)

lemma policy_delivers [conn_simps]: "policy (fold (deliver L) ms c) = policy c"
  by (induction ms arbitrary: c) (simp_all add: deliver_def conn_simps)

lemma wants_policy: "policy c = policy c' \<Longrightarrow> wants c dev name kind = wants c' dev name kind"
  by (simp add: wants_def policyFor_def Let_def)

lemma pub_for_policy: "policy c = policy c' \<Longrightarrow> pub_for E c = pub_for E c'"
  by (rule ext) (auto simp: pub_for_def wants_policy[of c c'] split: option.split)

lemma messages_for_policy: "policy c = policy c' \<Longrightarrow> messages_for E c = messages_for E c'"
  by (rule ext) (simp add: messages_for_def pub_for_policy[of c c'])

lemma publishes_map:
  "fold (publish E) acts cs = map (\<lambda>c. fold (deliver (eLimits E)) (messages_for E c acts) c) cs"
proof (induction acts arbitrary: cs)
  case Nil
  show ?case by (simp add: messages_for_def)
next
  case (Cons a acts)
  have "messages_for E (fold (deliver (eLimits E)) (pub_for E c a) c) acts = messages_for E c acts" for c
    by (rule messages_for_policy[THEN fun_cong]) (simp add: conn_simps)
  moreover have "messages_for E c (a # acts) = pub_for E c a @ messages_for E c acts" for c
    by (simp add: messages_for_def)
  ultimately show ?case
    unfolding fold_simps Cons.IH by (simp add: publish_map)
qed

lemma registered_send: "conn_open (send L m c) \<Longrightarrow> registered (send L m c) = registered c"
  by (auto simp: send_cases chan_send_def)

definition live :: "conn \<Rightarrow> bool" where
  "live c \<longleftrightarrow> registered c \<and> conn_open c"

interpretation hub_outbox: outbox "deliver L" live conn_items
proof
  show "live s \<and> conn_items (deliver L m s) = conn_items s @ [m]" if "live (deliver L m s)" for m s
    using that conn_outbox.put_open[of L m s] registered_send[of L m s]
    by (auto simp: live_def deliver_def split: if_splits)
  show "conn_items (deliver L m s) = conn_items s" if "\<not> live (deliver L m s)" for m s
    using that conn_outbox.put_closed[of L m s] registered_send[of L m s]
    by (auto simp: live_def deliver_def split: if_splits)
qed

section \<open>Snapshots\<close>

definition snapshot_msg :: "env \<Rightarrow> string \<Rightarrow> conn \<Rightarrow> Property \<Rightarrow> string list" where
  "snapshot_msg E name c p =
     (if name = [] \<or> pName p = name then pub_for E c (PDefine p) else [])"

lemma snapshot_props_sends:
  "snapshot_props E name ps c = fold (send (eLimits E)) (concat (map (snapshot_msg E name c) ps)) c"
proof (induction ps arbitrary: c)
  case (Cons p ps)
  have same: "snapshot_msg E name (send L m c) = snapshot_msg E name c" for L m
    by (rule ext) (auto simp: snapshot_msg_def pub_for_def conn_simps wants_policy[of "send L m c" c]
        split: option.split)
  show ?case
    by (auto simp: Cons.IH same snapshot_msg_def[of E name c p] pub_for_def split: sum.split)
qed simp

definition snapshot_all :: "env \<Rightarrow> 'd device_ops \<Rightarrow> string \<Rightarrow> string \<Rightarrow> conn \<Rightarrow> 'd list \<Rightarrow> string list" where
  "snapshot_all E ops dev name c ds =
     concat (map (\<lambda>d. if dev = [] \<or> dName ops d = dev
                      then concat (map (snapshot_msg E name c) (dProps ops d)) else []) ds)"

lemma policy_sends [conn_simps]: "policy (fold (send L) ms c) = policy c"
  by (induction ms arbitrary: c) (simp_all add: conn_simps)

lemma snapshot_devices_sends:
  "snapshot_devices E ops dev name ds c =
     fold (send (eLimits E)) (snapshot_all E ops dev name c ds) c"
proof (induction ds arbitrary: c)
  case (Cons d ds)
  have same: "snapshot_all E ops dev name (fold (send L) ms c) ds = snapshot_all E ops dev name c ds" for L ms
    by (auto simp: snapshot_all_def snapshot_msg_def pub_for_def conn_simps
        wants_policy[of "fold (send L) ms c" c] split: option.split intro!: arg_cong[where f = concat])
  show ?case
    by (simp add: Cons.IH snapshot_props_sends same) (simp add: snapshot_all_def)
qed (simp add: snapshot_all_def)

section \<open>Validation\<close>

definition in_bounds :: "Member \<Rightarrow> float64 \<Rightarrow> bool" where
  "in_bounds m v \<longleftrightarrow> \<not> (mMin m < mMax m) \<or> (\<not> v < mMin m \<and> \<not> mMax m < v)"

definition number_ok :: "(string \<rightharpoonup> Member) \<Rightarrow> xoneMember \<Rightarrow> bool" where
  "number_ok lims n \<longleftrightarrow>
     (case ParseNumber (xoValue n) of
        None \<Rightarrow> False
      | Some v \<Rightarrow> (case lims (xoName n) of Some m \<Rightarrow> in_bounds m v | None \<Rightarrow> True))"

lemma check_numbers_iff: "check_numbers pr lims ns = None \<longleftrightarrow> (\<forall>n\<in>set ns. number_ok lims n)"
  by (induction ns) (auto simp: number_ok_def in_bounds_def split: option.splits)

text \<open>What the hub demands of a vector for a property.\<close>

definition writable :: "Property \<Rightarrow> string \<Rightarrow> bool" where
  "writable p elem \<longleftrightarrow> pPerm p \<noteq> RO \<and> pType p = newVecType elem"

definition switches_ok :: "Property \<Rightarrow> xnewVector \<Rightarrow> bool" where
  "switches_ok p v \<longleftrightarrow> (pType p = SwitchType \<and> pRule p \<noteq> AnyOfMany \<longrightarrow> count_on (xnSwitches v) \<le> 1)"

definition numbers_ok :: "Property \<Rightarrow> xnewVector \<Rightarrow> bool" where
  "numbers_ok p v \<longleftrightarrow>
     (pType p = NumberType \<longrightarrow> (\<forall>n\<in>set (xnNumbers v). number_ok (member_limits (pMembers p)) n))"

definition admissible :: "Property \<Rightarrow> string \<Rightarrow> xnewVector \<Rightarrow> bool" where
  "admissible p elem v \<longleftrightarrow> writable p elem \<and> switches_ok p v \<and> numbers_ok p v"

lemma judge_found:
  assumes "find_prop (xnName v) ps = Some j"
  shows "(admissible (ps ! j) elem v \<longrightarrow> judge pr ps elem v = Handed (new_members v)) \<and>
    (writable (ps ! j) elem \<and> \<not> numbers_ok (ps ! j) v \<longrightarrow> (\<exists>why. judge pr ps elem v = Rejected j why)) \<and>
    (\<not> writable (ps ! j) elem \<or> \<not> switches_ok (ps ! j) v \<longrightarrow> (\<exists>why. judge pr ps elem v = Dropped why))"
  using assms
  by (auto simp: judge_def Let_def admissible_def writable_def switches_ok_def numbers_ok_def snapshot_def
      not_less check_numbers_iff[of pr, symmetric] split: option.splits)

lemma find_prop_Some: "find_prop n ps = Some j \<Longrightarrow> j < length ps \<and> pName (ps ! j) = n"
  by (induction ps arbitrary: j) (auto split: if_splits)

lemma find_prop_None: "find_prop n ps = None \<longleftrightarrow> n \<notin> pName ` set ps"
  by (induction ps) auto

section \<open>Registration\<close>

definition hub_inv :: "'d device_ops \<Rightarrow> 'd hub \<Rightarrow> bool" where
  "hub_inv ops h \<longleftrightarrow>
     (\<forall>n i. hDevices h n = Some i \<longleftrightarrow> i < length (hOrder h) \<and> dName ops (hOrder h ! i) = n) \<and>
     distinct (hStarted h) \<and>
     set (hStarted h) = (if hServing h then {i. i < length (hOrder h) \<and> dStarter ops (hOrder h ! i)} else {})"

lemma hub_inv_New: "hub_inv ops New"
  by (simp add: hub_inv_def New_def)

lemma hub_inv_AddDevice:
  assumes inv: "hub_inv ops h" and add: "AddDevice E ops d h = Inr h'"
  shows "hub_inv ops h'"
proof -
  have fresh: "hDevices h (dName ops d) = None"
    using add by (auto simp: AddDevice_def split: option.splits)
  have names: "hDevices h' n = Some i \<longleftrightarrow> i < length (hOrder h') \<and> dName ops (hOrder h' ! i) = n" for n i
    using inv fresh add
    by (auto simp: AddDevice_def hub_inv_def Let_def nth_append less_Suc_eq split: if_splits)
       (metis option.distinct(1))+
  moreover have "distinct (hStarted h') \<and> set (hStarted h') =
      (if hServing h' then {i. i < length (hOrder h') \<and> dStarter ops (hOrder h' ! i)} else {})"
    using inv add
    by (auto simp: AddDevice_def hub_inv_def Let_def nth_append less_Suc_eq split: if_splits option.splits)
  ultimately show ?thesis by (simp add: hub_inv_def)
qed

lemma hub_inv_Serve:
  assumes "hub_inv ops h" and "\<not> hServing h"
  shows "hub_inv ops (Serve_start ops h)"
  using assms by (auto simp: hub_inv_def Serve_start_def)

text \<open>Registrations, refused or not, around one call of \<open>Serve\<close>.\<close>

inductive registering :: "env \<Rightarrow> 'd device_ops \<Rightarrow> 'd hub \<Rightarrow> bool" for E ops where
  new: "registering E ops New"
| add: "registering E ops h \<Longrightarrow> AddDevice E ops d h = Inr h' \<Longrightarrow> registering E ops h'"
| serve: "registering E ops h \<Longrightarrow> \<not> hServing h \<Longrightarrow> registering E ops (Serve_start ops h)"

lemma registering_inv: "registering E ops h \<Longrightarrow> hub_inv ops h"
  by (induction rule: registering.induct) (auto intro: hub_inv_New hub_inv_AddDevice hub_inv_Serve)

section \<open>The accept loop\<close>

lemma next_backoff_bounds:
  "b = 0 \<or> 5 * 10 ^ 6 \<le> b \<and> b \<le> 10 ^ 9 \<Longrightarrow> 5 * 10 ^ 6 \<le> next_backoff b \<and> next_backoff b \<le> 10 ^ 9"
  by (auto simp: next_backoff_def)

lemma acceptLoop_delays:
  assumes "acceptLoop b as h = (h', ds, r)" and "b = 0 \<or> 5 * 10 ^ 6 \<le> b \<and> b \<le> 10 ^ 9"
  shows "\<forall>d\<in>set ds. 5 * 10 ^ 6 \<le> d \<and> d \<le> 10 ^ 9"
  using assms
proof (induction b as h arbitrary: h' ds r rule: acceptLoop.induct)
  case (4 b stop as h)
  then show ?case
    using next_backoff_bounds[of b] by (fastforce simp: Let_def split: if_splits prod.splits)
qed auto

text \<open>The delay after k failures in a row.\<close>

definition backoff :: "nat \<Rightarrow> int" where
  "backoff k = (if k = 0 then 0 else min (5 * 10 ^ 6 * 2 ^ (k - 1)) (10 ^ 9))"

lemma next_backoff_backoff: "next_backoff (backoff k) = backoff (Suc k)"
proof (cases k)
  case 0
  then show ?thesis by (simp add: backoff_def next_backoff_def)
next
  case (Suc j)
  have "(0::int) < 2 ^ j" by simp
  then show ?thesis using Suc by (auto simp: backoff_def next_backoff_def min_def)
qed

lemma acceptLoop_retries:
  "fst (snd (acceptLoop (backoff k) (replicate n (Transient False) @ as) h)) =
     map backoff [Suc k..<Suc (k + n)] @ fst (snd (acceptLoop (backoff (k + n)) as h))"
proof (induction n arbitrary: k)
  case (Suc n)
  then show ?case using Suc.IH[of "Suc k"]
    by (cases "acceptLoop (backoff (Suc k)) (replicate n (Transient False) @ as) h")
      (simp add: next_backoff_backoff Let_def upt_conv_Cons del: upt_Suc)
qed simp


section \<open>Properties\<close>

text \<open>For the witnesses: a device with one writable number, which takes what the hub hands it and
  publishes the property.\<close>

definition sample_member :: Member where
  "sample_member = zeroMember\<lparr>mName := ''VALUE'', mMax := Fin 10\<rparr>"

definition sample_property :: Property where
  "sample_property = NewProperty ''Focuser'' ''POS'' NumberType RW [sample_member]"

definition sample_ops :: "Property device_ops" where
  "sample_ops =
     \<lparr>dName = pDevice, dProps = (\<lambda>p. [p]), dPut = (\<lambda>p j q. q),
      dHandle = (\<lambda>p name ms.
        let q = fold (\<lambda>m r. case Float m of Some f \<Rightarrow> SetNumber (nm_name m) f r | None \<Rightarrow> r) ms p
        in ([PUpdate q], q)),
      dStarter = (\<lambda>p. True)\<rparr>"

definition sample_env :: env where
  "sample_env = \<lparr>eLimits = default_limits, ePrint = (\<lambda>r. True), eInflate = (\<lambda>bs. None), eNow = ''T''\<rparr>"

definition sample_hub :: "Property hub" where
  "sample_hub = New\<lparr>hDevices := [''Focuser'' \<mapsto> 0], hOrder := [sample_property], hConns := [newConn ''a'']\<rparr>"

definition sample_vector :: "string \<Rightarrow> xnewVector" where
  "sample_vector s =
     \<lparr>xnDevice = ''Focuser'', xnName = ''POS'', xnNumbers = [\<lparr>xoName = ''VALUE'', xoValue = s\<rparr>],
      xnSwitches = [], xnTexts = []\<rparr>"

lemmas sample_defs = sample_member_def sample_property_def sample_ops_def sample_env_def sample_hub_def
  sample_vector_def NewProperty_def zeroMember_def New_def device_def

text \<open>C5: Every client sees a sequence of publications as an initial segment of the messages its BLOB
  policy admits, in the order published and each once; all of them while the hub keeps the
  client. No client's stream depends on another's.\<close>

theorem publish_stream:
  assumes "i < length cs"
  shows "\<exists>k. conn_items (fold (publish E) acts cs ! i) =
      conn_items (cs ! i) @ take k (messages_for E (cs ! i) acts) \<and>
    (live (fold (publish E) acts cs ! i) \<longrightarrow> k = length (messages_for E (cs ! i) acts))"
  using hub_outbox.puts_prefix[of "eLimits E" "messages_for E (cs ! i) acts" "cs ! i"] assms
  by (simp add: publishes_map)

theorem publish_stream_witness:
  "\<exists>k. conn_items (fold (publish sample_env) [PMessage ''Focuser'' ''hi''] [newConn ''a''] ! 0) =
     take k (messages_for sample_env (newConn ''a'') [PMessage ''Focuser'' ''hi''])"
  using publish_stream[of 0 "[newConn ''a'']" sample_env "[PMessage ''Focuser'' ''hi'']"]
  by (auto simp: conn_items_def newConn_def)

text \<open>A \<open>getProperties\<close> is answered to the asking client alone: with the definitions of the
  devices and properties it names (an empty name naming all) that its policy admits, in
  registration and property order.\<close>

theorem getProperties_reply:
  assumes "elem_name x = ''getProperties''" and "i < length (hConns h)"
  shows "\<exists>k. conn_items (hConns (handle_elem E ops i x h) ! i) = conn_items (hConns h ! i) @
      take k (snapshot_all E ops (get_attr ''device'' x) (get_attr ''name'' x) (hConns h ! i) (hOrder h)) \<and>
    (\<forall>j. j \<noteq> i \<longrightarrow> hConns (handle_elem E ops i x h) ! j = hConns h ! j)"
proof -
  let ?ms = "snapshot_all E ops (get_attr ''device'' x) (get_attr ''name'' x) (hConns h ! i) (hOrder h)"
  have "hConns (handle_elem E ops i x h) = (hConns h)[i := fold (send (eLimits E)) ?ms (hConns h ! i)]"
    using assms(1) by (simp add: handle_elem_def hub_snapshot_def decode_get_def snapshot_devices_sends)
  then show ?thesis
    using conn_outbox.puts_prefix[of "eLimits E" ?ms "hConns h ! i"] assms(2) by auto
qed

theorem getProperties_reply_witness:
  "\<exists>k. conn_items (hConns (handle_elem sample_env sample_ops 0 (Elem ''getProperties'' [] []) sample_hub) ! 0) =
     take k (snapshot_all sample_env sample_ops [] [] (newConn ''a'') [sample_property])"
  using getProperties_reply[of "Elem ''getProperties'' [] []" 0 sample_hub sample_env sample_ops]
  by (auto simp: sample_hub_def New_def conn_items_def newConn_def)

text \<open>A BLOB reaches only clients whose policy for its property is not Never, which is every
  client's policy until it asks, and a client whose policy is Only gets no other update of it.\<close>

theorem blob_opt_in:
  "(policyFor c dev name = BlobNever \<longrightarrow>
      pub_for E c (PSendBLOB dev name elem format data) = [] \<and>
      pub_for E c (PSendBLOBSized dev name elem format data sz) = []) \<and>
   (policyFor c (pDevice p) (pName p) = BlobOnly \<longrightarrow> pub_for E c (PUpdate p) = []) \<and>
   policyFor (newConn addr) dev name = BlobNever"
  by (auto simp: pub_for_def wants_def policyFor_def newConn_def split: sum.split)

theorem blob_opt_in_witness:
  "pub_for sample_env (newConn ''a'') (PSendBLOB ''CCD'' ''CCD1'' ''CCD1'' ''.fits'' []) = []"
  using blob_opt_in[of "newConn ''a''" "''CCD''" "''CCD1''" sample_env "''CCD1''" "''.fits''" "[]" 0 sample_property]
    blob_opt_in[of "newConn ''a''" "''CCD''" "''CCD1''" sample_env "''CCD1''" "''.fits''" "[]" 0 sample_property "''a''"]
  by blast

text \<open>C1: What an inbound new vector does to the devices: an unknown device or property does
  nothing; an admissible vector reaches the handler of the device, once, with its members; a
  vector with a bad number sets its property to Alert; every other vector leaves the devices as
  they are.\<close>

theorem dispatchNew_devices:
  "hOrder (dispatchNew E ops i elem v h) =
     (case hDevices h (xnDevice v) of
        None \<Rightarrow> hOrder h
      | Some k \<Rightarrow>
          (case find_prop (xnName v) (dProps ops (hOrder h ! k)) of
             None \<Rightarrow> hOrder h
           | Some j \<Rightarrow>
               let d = hOrder h ! k; p = dProps ops d ! j
               in if admissible p elem v then (hOrder h)[k := snd (dHandle ops d (xnName v) (new_members v))]
                  else if writable p elem \<and> \<not> numbers_ok p v
                    then (hOrder h)[k := dPut ops d j (SetState Alert p)]
                  else hOrder h))"
proof (cases "hDevices h (xnDevice v)")
  case (Some k)
  show ?thesis
  proof (cases "find_prop (xnName v) (dProps ops (hOrder h ! k))")
    case None
    then have "judge (ePrint E) (dProps ops (hOrder h ! k)) elem v = Dropped ''no such property''"
      by (simp add: judge_def)
    then show ?thesis by (simp add: dispatchNew_def device_def Some None Let_def)
  next
    case j: (Some j)
    then show ?thesis
      using judge_found[OF j, of elem "ePrint E"] Some
      by (auto simp: dispatchNew_def device_def Let_def rejectNumber_def admissible_def split: prod.split)
  qed
qed (simp add: dispatchNew_def device_def)


lemma sample_handed: "judge (\<lambda>r. True) [sample_property] ''newNumberVector'' (sample_vector ''5'') =
  Handed (new_members (sample_vector ''5''))"
  by code_simp


text \<open>A NaN passes the check of every member: the comparisons with the limits are both false.\<close>

theorem NaN_is_handed:
  assumes "find_prop (xnName v) ps = Some j" and "pPerm (ps ! j) \<noteq> RO" and "pType (ps ! j) = NumberType"
    and "newVecType elem = NumberType" and "\<forall>n\<in>set (xnNumbers v). ParseNumber (xoValue n) = Some NaN"
  shows "judge pr ps elem v = Handed (new_members v)"
proof -
  have "admissible (ps ! j) elem v"
    using assms by (auto simp: admissible_def writable_def switches_ok_def numbers_ok_def number_ok_def
        in_bounds_def split: option.split)
  then show ?thesis using judge_found[OF assms(1)] by blast
qed

theorem NaN_is_handed_witness:
  "judge (\<lambda>r. True) [sample_property] ''newNumberVector'' (sample_vector ''nan'') =
     Handed [\<lparr>nm_name = ''VALUE'', nm_value = ''nan''\<rparr>]"
proof -
  have "ParseNumber ''nan'' = Some NaN" by code_simp
  then show ?thesis
    using NaN_is_handed[of "sample_vector ''nan''" "[sample_property]" 0 "''newNumberVector''" "\<lambda>r. True"]
    by (simp add: sample_defs newVecType_def new_members_def)
qed

text \<open>C39: Children of another kind are not looked at: a number vector whose values come as
  \<open>oneText\<close> or \<open>oneSwitch\<close> elements reaches the device unchecked, whatever its limits.\<close>

theorem stray_children_handed:
  assumes "find_prop (xnName v) ps = Some j" and "pPerm (ps ! j) \<noteq> RO" and "pType (ps ! j) = NumberType"
    and "newVecType elem = NumberType" and "xnNumbers v = []"
  shows "judge pr ps elem v = Handed (new_members v)"
proof -
  have "admissible (ps ! j) elem v"
    using assms by (simp add: admissible_def writable_def switches_ok_def numbers_ok_def)
  then show ?thesis using judge_found[OF assms(1)] by blast
qed

theorem stray_children_handed_witness:
  "judge (\<lambda>r. True) [sample_property] ''newNumberVector''
     ((sample_vector ''1e9'')\<lparr>xnNumbers := [], xnTexts := [\<lparr>xoName = ''VALUE'', xoValue = ''1e9''\<rparr>]\<rparr>) =
     Handed [\<lparr>nm_name = ''VALUE'', nm_value = ''1e9''\<rparr>]"
  using stray_children_handed[of "(sample_vector ''1e9'')\<lparr>xnNumbers := [], xnTexts := [\<lparr>xoName = ''VALUE'',
      xoValue = ''1e9''\<rparr>]\<rparr>" "[sample_property]" 0 "''newNumberVector''" "\<lambda>r. True"]
  by (simp add: sample_defs newVecType_def new_members_def)

text \<open>However registrations and the one start of the server interleave, a device name finds the
  device registered under it and no other, a duplicate is refused, and once serving every
  device with background work has been started exactly once.\<close>

theorem registration:
  assumes "registering E ops h"
  shows "(\<forall>n i. device h n = Some i \<longleftrightarrow> i < length (hOrder h) \<and> dName ops (hOrder h ! i) = n) \<and>
    (\<forall>d. (\<exists>e. AddDevice E ops d h = Inl e) \<longleftrightarrow> dName ops d \<in> dName ops ` set (hOrder h)) \<and>
    distinct (hStarted h) \<and>
    set (hStarted h) = (if hServing h then {i. i < length (hOrder h) \<and> dStarter ops (hOrder h ! i)} else {})"
proof -
  note inv = registering_inv[OF assms]
  have "(\<exists>e. AddDevice E ops d h = Inl e) \<longleftrightarrow> dName ops d \<in> dName ops ` set (hOrder h)" for d
  proof -
    have "(\<exists>e. AddDevice E ops d h = Inl e) \<longleftrightarrow> (\<exists>i. hDevices h (dName ops d) = Some i)"
      by (auto simp: AddDevice_def Let_def split: option.splits)
    also have "\<dots> \<longleftrightarrow> dName ops d \<in> dName ops ` set (hOrder h)"
    proof -
      have look: "hDevices h (dName ops d) = Some i \<longleftrightarrow> i < length (hOrder h) \<and> dName ops (hOrder h ! i) = dName ops d" for i
        using inv unfolding hub_inv_def by blast
      show ?thesis unfolding look image_iff by (metis in_set_conv_nth)
    qed
    finally show ?thesis .
  qed
  then show ?thesis using inv by (simp add: hub_inv_def device_def)
qed

theorem registration_witness:
  "hStarted (Serve_start sample_ops sample_hub\<lparr>hConns := []\<rparr>) = [0] \<and>
     distinct (hStarted (Serve_start sample_ops (sample_hub\<lparr>hConns := []\<rparr>)))"
proof -
  have "AddDevice sample_env sample_ops sample_property New = Inr (sample_hub\<lparr>hConns := []\<rparr>)"
    by (simp add: AddDevice_def sample_defs)
  then have "registering sample_env sample_ops (sample_hub\<lparr>hConns := []\<rparr>)"
    by (rule registering.add[OF registering.new])
  then have "registering sample_env sample_ops (Serve_start sample_ops (sample_hub\<lparr>hConns := []\<rparr>))"
    by (rule registering.serve) (simp add: sample_defs)
  then show ?thesis
    using registration[of sample_env sample_ops "Serve_start sample_ops (sample_hub\<lparr>hConns := []\<rparr>)"]
    by (simp add: Serve_start_def sample_defs)
qed

text \<open>The accept loop waits between 5 milliseconds and a second before each retry, and after a
  connection the i-th failure in a row waits 5 milliseconds doubled i times, a second at most.\<close>

theorem acceptLoop_backoff:
  "list_all (\<lambda>d. 5 * 10 ^ 6 \<le> d \<and> d \<le> 10 ^ 9) (fst (snd (acceptLoop 0 as h))) \<and>
   fst (snd (acceptLoop 0 (Accepted a # replicate n (Transient False) @ as) h)) =
     map (\<lambda>i. min (5 * 10 ^ 6 * 2 ^ i) (10 ^ 9)) [0..<n] @
     fst (snd (acceptLoop (backoff n) as (h\<lparr>hConns := hConns h @ [newConn a]\<rparr>)))"
proof
  show "list_all (\<lambda>d. 5 * 10 ^ 6 \<le> d \<and> d \<le> 10 ^ 9) (fst (snd (acceptLoop 0 as h)))"
    using acceptLoop_delays[of 0 as h] by (cases "acceptLoop 0 as h") (auto simp: list_all_iff)
  have "map backoff [Suc 0..<Suc n] = map (\<lambda>i. min (5 * 10 ^ 6 * 2 ^ i) (10 ^ 9)) [0..<n]"
    unfolding map_Suc_upt[symmetric] map_map by (simp add: backoff_def comp_def)
  then show "fst (snd (acceptLoop 0 (Accepted a # replicate n (Transient False) @ as) h)) =
     map (\<lambda>i. min (5 * 10 ^ 6 * 2 ^ i) (10 ^ 9)) [0..<n] @
     fst (snd (acceptLoop (backoff n) as (h\<lparr>hConns := hConns h @ [newConn a]\<rparr>)))"
    using acceptLoop_retries[of 0 n as "h\<lparr>hConns := hConns h @ [newConn a]\<rparr>"]
    by (simp add: backoff_def[of 0] del: upt_Suc)
qed

end
