(* ===== verification/ServerStandard.thy ===== *)
theory ServerStandard
  imports ServerProperty
begin

unbundle bit_operations_syntax

text \<open>
  The standard properties of \<open>server/standard.go\<close>: the interface bits and the constructors the
  devices build their vectors with; and what every setter of a vector leaves alone, which is
  what the device models rest on.
\<close>

section \<open>Interface bits\<close>

definition InterfaceGeneral :: int where "InterfaceGeneral = 0"
definition InterfaceTelescope :: int where "InterfaceTelescope = push_bit 0 1"
definition InterfaceCCD :: int where "InterfaceCCD = push_bit 1 1"
definition InterfaceGuider :: int where "InterfaceGuider = push_bit 2 1"
definition InterfaceFocuser :: int where "InterfaceFocuser = push_bit 3 1"
definition InterfaceFilter :: int where "InterfaceFilter = push_bit 4 1"
definition InterfaceDome :: int where "InterfaceDome = push_bit 5 1"
definition InterfaceGPS :: int where "InterfaceGPS = push_bit 6 1"
definition InterfaceWeather :: int where "InterfaceWeather = push_bit 7 1"
definition InterfaceAO :: int where "InterfaceAO = push_bit 8 1"
definition InterfaceDustcap :: int where "InterfaceDustcap = push_bit 9 1"
definition InterfaceLightbox :: int where "InterfaceLightbox = push_bit 10 1"
definition InterfaceDetector :: int where "InterfaceDetector = push_bit 11 1"
definition InterfaceRotator :: int where "InterfaceRotator = push_bit 12 1"
definition InterfaceSpectrograph :: int where "InterfaceSpectrograph = push_bit 13 1"
definition InterfaceCorrelator :: int where "InterfaceCorrelator = push_bit 14 1"
definition InterfaceAux :: int where "InterfaceAux = push_bit 15 1"

section \<open>Members\<close>

definition numMember :: "string \<Rightarrow> string \<Rightarrow> string \<Rightarrow> float64 \<Rightarrow> float64 \<Rightarrow> float64 \<Rightarrow> float64 \<Rightarrow> Member" where
  "numMember name label fmt mn mx st val =
     zeroMember\<lparr>mName := name, mLabel := label, mFormat := fmt, mMin := mn, mMax := mx, mStep := st, mNum := val\<rparr>"

definition swMember :: "string \<Rightarrow> string \<Rightarrow> bool \<Rightarrow> Member" where
  "swMember name label on = zeroMember\<lparr>mName := name, mLabel := label, mOn := on\<rparr>"

definition txtMember :: "string \<Rightarrow> string \<Rightarrow> string \<Rightarrow> Member" where
  "txtMember name label val = zeroMember\<lparr>mName := name, mLabel := label, mText := val\<rparr>"

text \<open>The assignments to \<open>Label\<close>, \<open>Group\<close> and \<open>Rule\<close> and the first state, which every constructor ends with.\<close>

definition titled :: "string \<Rightarrow> string \<Rightarrow> State \<Rightarrow> Property \<Rightarrow> Property" where
  "titled label grp st p = SetState st (p\<lparr>pLabel := label, pGroup := grp\<rparr>)"

definition ruled :: "SwitchRule \<Rightarrow> Property \<Rightarrow> Property" where
  "ruled r p = p\<lparr>pRule := r\<rparr>"

section \<open>Constructors\<close>

definition ConnectionProperty :: "string \<Rightarrow> Property" where
  "ConnectionProperty device =
     titled ''Connection'' ''Main Control'' Idle (ruled OneOfMany
       (NewProperty device ''CONNECTION'' SwitchType RW
         [swMember ''CONNECT'' ''Connect'' False, swMember ''DISCONNECT'' ''Disconnect'' True]))"

definition DriverInfoProperty :: "string \<Rightarrow> string \<Rightarrow> string \<Rightarrow> string \<Rightarrow> int \<Rightarrow> Property" where
  "DriverInfoProperty device name exec version iface =
     titled ''Driver Info'' ''General Info'' Ok
       (NewProperty device ''DRIVER_INFO'' TextType RO
         [txtMember ''DRIVER_NAME'' ''Name'' name, txtMember ''DRIVER_EXEC'' ''Exec'' exec,
          txtMember ''DRIVER_VERSION'' ''Version'' version,
          txtMember ''DRIVER_INTERFACE'' ''Interface'' (Itoa iface)])"

definition EquatorialCoordProperty :: "string \<Rightarrow> Property" where
  "EquatorialCoordProperty device =
     titled ''Eq. Coordinates'' ''Main Control'' Idle
       (NewProperty device ''EQUATORIAL_EOD_COORD'' NumberType RW
         [numMember ''RA'' ''RA (hours)'' ''%10.6m'' (Fin 0) (Fin 24) (Fin 0) (Fin 0),
          numMember ''DEC'' ''DEC (deg)'' ''%10.6m'' (Fin (- 90)) (Fin 90) (Fin 0) (Fin 0)])"

definition OnCoordSetProperty :: "string \<Rightarrow> Property" where
  "OnCoordSetProperty device =
     titled ''On Set'' ''Main Control'' Ok (ruled OneOfMany
       (NewProperty device ''ON_COORD_SET'' SwitchType RW
         [swMember ''SLEW'' ''Slew'' False, swMember ''TRACK'' ''Track'' True, swMember ''SYNC'' ''Sync'' False]))"

definition AbortProperty :: "string \<Rightarrow> Property" where
  "AbortProperty device =
     titled ''Abort Motion'' ''Main Control'' Ok (ruled AtMostOne
       (NewProperty device ''TELESCOPE_ABORT_MOTION'' SwitchType RW [swMember ''ABORT'' ''Abort'' False]))"

definition PierSideProperty :: "string \<Rightarrow> Property" where
  "PierSideProperty device =
     titled ''Pier Side'' ''Main Control'' Idle (ruled AtMostOne
       (NewProperty device ''TELESCOPE_PIER_SIDE'' SwitchType RO
         [swMember ''PIER_WEST'' ''West (pointing east)'' False, swMember ''PIER_EAST'' ''East (pointing west)'' False]))"

definition TimedGuideNSProperty :: "string \<Rightarrow> Property" where
  "TimedGuideNSProperty device =
     titled ''Guide N/S'' ''Guide'' Ok
       (NewProperty device ''TELESCOPE_TIMED_GUIDE_NS'' NumberType RW
         [numMember ''TIMED_GUIDE_N'' ''North (ms)'' ''%.0f'' (Fin 0) (Fin 60000) (Fin 1) (Fin 0),
          numMember ''TIMED_GUIDE_S'' ''South (ms)'' ''%.0f'' (Fin 0) (Fin 60000) (Fin 1) (Fin 0)])"

definition TimedGuideWEProperty :: "string \<Rightarrow> Property" where
  "TimedGuideWEProperty device =
     titled ''Guide W/E'' ''Guide'' Ok
       (NewProperty device ''TELESCOPE_TIMED_GUIDE_WE'' NumberType RW
         [numMember ''TIMED_GUIDE_W'' ''West (ms)'' ''%.0f'' (Fin 0) (Fin 60000) (Fin 1) (Fin 0),
          numMember ''TIMED_GUIDE_E'' ''East (ms)'' ''%.0f'' (Fin 0) (Fin 60000) (Fin 1) (Fin 0)])"

definition GuideRateProperty :: "string \<Rightarrow> float64 \<Rightarrow> Property" where
  "GuideRateProperty device rate =
     titled ''Guide Rate'' ''Guide'' Ok
       (NewProperty device ''GUIDE_RATE'' NumberType RW
         [numMember ''GUIDE_RATE_WE'' ''RA (x sidereal)'' ''%.2f'' (Fin 0) (Fin 1) (f64_of_rat (5 / 100)) rate,
          numMember ''GUIDE_RATE_NS'' ''DEC (x sidereal)'' ''%.2f'' (Fin 0) (Fin 1) (f64_of_rat (5 / 100)) rate])"

definition DualAxisTrackingProperty :: "string \<Rightarrow> Property" where
  "DualAxisTrackingProperty device =
     titled ''Dual Axis Tracking'' ''Motion Control'' Ok (ruled OneOfMany
       (NewProperty device ''DUAL_AXIS_TRACKING'' SwitchType RW
         [swMember ''ENABLE'' ''Enable'' False, swMember ''DISABLE'' ''Disable'' True]))"

definition TelescopeInfoProperty :: "string \<Rightarrow> Property" where
  "TelescopeInfoProperty device =
     titled ''Scope Properties'' ''Options'' Ok
       (NewProperty device ''TELESCOPE_INFO'' NumberType RO
         [numMember ''TELESCOPE_APERTURE'' ''Aperture (mm)'' ''%.2f'' (Fin 0) (Fin 1000000) (Fin 0) (Fin 0),
          numMember ''TELESCOPE_FOCAL_LENGTH'' ''Focal Length (mm)'' ''%.2f'' (Fin 0) (Fin 1000000) (Fin 0) (Fin 0),
          numMember ''GUIDER_APERTURE'' ''Guider Aperture (mm)'' ''%.2f'' (Fin 0) (Fin 1000000) (Fin 0) (Fin 0),
          numMember ''GUIDER_FOCAL_LENGTH'' ''Guider Focal Length (mm)'' ''%.2f'' (Fin 0) (Fin 1000000) (Fin 0) (Fin 0)])"

lemmas standard_defs = ConnectionProperty_def DriverInfoProperty_def EquatorialCoordProperty_def
  OnCoordSetProperty_def AbortProperty_def PierSideProperty_def TimedGuideNSProperty_def
  TimedGuideWEProperty_def GuideRateProperty_def DualAxisTrackingProperty_def TelescopeInfoProperty_def

lemmas member_defs = numMember_def swMember_def txtMember_def zeroMember_def titled_def ruled_def
  NewProperty_def SetState_def

section \<open>What setters leave alone\<close>

text \<open>The fixed part of a vector: everything but its state and the values of its members.\<close>

definition fixed_member :: "Member \<Rightarrow> Member" where
  "fixed_member m = m\<lparr>mNum := Fin 0, mOn := False, mText := [], mLight := Idle\<rparr>"

definition shape :: "Property \<Rightarrow> Property" where
  "shape p = p\<lparr>pState := Idle, pMembers := map fixed_member (pMembers p)\<rparr>"

text \<open>A switch vector obeys its rule.\<close>

definition switch_ok :: "Property \<Rightarrow> bool" where
  "switch_ok p \<longleftrightarrow> (pType p = SwitchType \<longrightarrow> rule_ok p)"

definition well_kept :: "Property \<Rightarrow> Property \<Rightarrow> bool" where
  "well_kept p0 p \<longleftrightarrow> shape p = shape p0 \<and> switch_ok p"

lemma shape_set_member:
  assumes "\<And>m. fixed_member (f m) = fixed_member m"
  shows "shape (set_member i f p) = shape p"
proof (cases "i < length (pMembers p)")
  case True
  then have "map fixed_member ((pMembers p)[i := f (pMembers p ! i)]) = map fixed_member (pMembers p)"
    using assms by (simp add: map_update list_update_same_conv)
  then show ?thesis by (simp add: shape_def set_member_def)
qed (simp add: shape_def set_member_def list_update_beyond)

lemma shape_select_only: "shape (select_only i p) = shape p"
proof -
  have "map fixed_member (map (\<lambda>j. (pMembers p ! j)\<lparr>mOn := (j = i)\<rparr>) [0..<length (pMembers p)]) =
      map fixed_member (pMembers p)"
    by (rule nth_equalityI) (simp_all add: fixed_member_def)
  then show ?thesis unfolding shape_def select_only_def by simp
qed

lemma shape_simps [simp]:
  "shape (SetState s p) = shape p" "shape (SetNumber n v p) = shape p"
  "shape (SetSwitch n b p) = shape p" "shape (SetText n t p) = shape p"
  by (simp add: shape_def SetState_def)
     (simp_all add: SetNumber_def SetSwitch_def SetText_def shape_set_member shape_select_only fixed_member_def
        split: option.split)

lemma shape_parts:
  assumes "shape p = shape q"
  shows "pDevice p = pDevice q" "pName p = pName q" "pType p = pType q" "pPerm p = pPerm q" "pRule p = pRule q"
    "map mName (pMembers p) = map mName (pMembers q)"
proof -
  have "pDevice (shape r) = pDevice r" "pName (shape r) = pName r" "pType (shape r) = pType r"
    "pPerm (shape r) = pPerm r" "pRule (shape r) = pRule r" "map mName (pMembers (shape r)) = map mName (pMembers r)" for r
    by (simp_all add: shape_def fixed_member_def)
  then show "pDevice p = pDevice q" "pName p = pName q" "pType p = pType q" "pPerm p = pPerm q" "pRule p = pRule q"
    "map mName (pMembers p) = map mName (pMembers q)"
    using assms by metis+
qed

lemma switch_ok_simps [simp]:
  "switch_ok (SetState s p) = switch_ok p"
  "switch_ok p \<Longrightarrow> switch_ok (SetSwitch n b p)"
  by (simp add: switch_ok_def rule_ok_def prop_simps) (auto simp: switch_ok_def prop_simps intro: SetSwitch_rule_ok)

lemma numbers_switch_ok:
  "switch_ok p \<Longrightarrow> switch_ok (SetNumber n v p)" "switch_ok p \<Longrightarrow> switch_ok (SetText n t p)"
proof -
  have on: "map mOn (pMembers (set_member i f p)) = map mOn (pMembers p)" if "\<And>m. mOn (f m) = mOn m" for i f
    using that by (cases "i < length (pMembers p)")
      (simp_all add: set_member_def map_update list_update_same_conv list_update_beyond)
  have cnt: "length (filter mOn ms) = length (filter (\<lambda>b. b) (map mOn ms))" for ms
    by (simp add: filter_map comp_def)
  have "switch_ok p \<Longrightarrow> switch_ok (set_member i f p)" if "\<And>m. mOn (f m) = mOn m" for i f
    using on[OF that] unfolding switch_ok_def rule_ok_def cnt by (simp add: prop_simps)
  then show "switch_ok p \<Longrightarrow> switch_ok (SetNumber n v p)" "switch_ok p \<Longrightarrow> switch_ok (SetText n t p)"
    by (simp_all add: SetNumber_def SetText_def split: option.split)
qed

lemma well_kept_setters [intro, simp]:
  assumes "well_kept p0 p"
  shows "well_kept p0 (SetState s p)" "well_kept p0 (SetNumber n v p)" "well_kept p0 (SetSwitch n b p)"
    "well_kept p0 (SetText n t p)"
  using assms by (simp_all add: well_kept_def numbers_switch_ok)

end
