(* ===== verification/DeviceContract.thy ===== *)
theory DeviceContract
  imports ServerHub ServerStandard
begin

text \<open>
  What the hub may rely on of a device, as a locale: an invariant that handling a command and
  an alert keep, a name that stays, properties of its own under distinct names, switch vectors
  that obey their rule, and publications about itself only. Inside it, a hub is shown to keep
  the invariant of every device whatever its clients send. Devices of two kinds that meet the
  contract meet it together, so that a hub can host both. The models of the mount and of the
  camera are the interpretations.
\<close>

section \<open>Publications of a device\<close>

definition pub_device :: "publication \<Rightarrow> string" where
  "pub_device a =
     (case a of PDefine p \<Rightarrow> pDevice p | PUpdate p \<Rightarrow> pDevice p | PMessage dev msg \<Rightarrow> dev
      | PDelete dev name \<Rightarrow> dev | PSendBLOB dev name elem fmt data \<Rightarrow> dev
      | PSendBLOBSized dev name elem fmt data sz \<Rightarrow> dev)"

lemma pub_device_simps [simp]:
  "pub_device (PDefine p) = pDevice p" "pub_device (PUpdate p) = pDevice p" "pub_device (PMessage dev msg) = dev"
  "pub_device (PDelete dev name) = dev" "pub_device (PSendBLOB dev name elem fmt data) = dev"
  "pub_device (PSendBLOBSized dev name elem fmt data sz) = dev"
  by (simp_all add: pub_device_def)

section \<open>Numbers from clients\<close>

text \<open>The conversion of a float to \<open>int\<close>. Go leaves it to the implementation where the value does
  not fit; amd64 gives the least integer.\<close>

definition int_of_f64 :: "float64 \<Rightarrow> int" where
  "int_of_f64 f =
     (case f64_trunc f of Some n \<Rightarrow> (if - (2 ^ 63) \<le> n \<and> n < 2 ^ 63 then n else - (2 ^ 63)) | None \<Rightarrow> - (2 ^ 63))"

section \<open>The contract\<close>

lemma judge_rejects: "judge pr ps elem v = Rejected j why \<Longrightarrow> j < length ps"
  using find_prop_Some[of "xnName v" ps] by (auto simp: judge_def Let_def split: option.splits if_splits)

locale indi_device =
  fixes ops :: "'d device_ops" and inv :: "'d \<Rightarrow> bool"
  assumes handle: "inv d \<Longrightarrow> dHandle ops d name ms = (acts, d') \<Longrightarrow>
      inv d' \<and> dName ops d' = dName ops d \<and> (\<forall>a\<in>set acts. pub_device a = dName ops d)"
    and alert: "inv d \<Longrightarrow> j < length (dProps ops d) \<Longrightarrow>
      inv (dPut ops d j (SetState Alert (dProps ops d ! j))) \<and>
      dName ops (dPut ops d j (SetState Alert (dProps ops d ! j))) = dName ops d"
    and owned: "inv d \<Longrightarrow> p \<in> set (dProps ops d) \<Longrightarrow> pDevice p = dName ops d \<and> switch_ok p"
    and names: "inv d \<Longrightarrow> distinct (map pName (dProps ops d))"
begin

definition hub_ok :: "'d hub \<Rightarrow> bool" where
  "hub_ok h \<longleftrightarrow>
     (\<forall>n k. hDevices h n = Some k \<longrightarrow> k < length (hOrder h) \<and> dName ops (hOrder h ! k) = n) \<and>
     (\<forall>d\<in>set (hOrder h). inv d)"

lemma hub_ok_New: "hub_ok New"
  by (simp add: hub_ok_def New_def)

lemma hub_ok_AddDevice: "hub_ok h \<Longrightarrow> inv d \<Longrightarrow> AddDevice E ops d h = Inr h' \<Longrightarrow> hub_ok h'"
  by (auto simp: hub_ok_def AddDevice_def Let_def nth_append less_Suc_eq split: option.splits if_splits)

lemma hub_ok_put:
  assumes h: "hub_ok h" and k: "k < length (hOrder h)" and d': "inv d'" "dName ops d' = dName ops (hOrder h ! k)"
  shows "hub_ok (h\<lparr>hOrder := (hOrder h)[k := d'], hConns := cs\<rparr>)"
proof -
  have "\<forall>d\<in>set ((hOrder h)[k := d']). inv d"
    using h d'(1) set_update_subset_insert[of "hOrder h" k d'] by (auto simp: hub_ok_def)
  then show ?thesis using h k d'(2) by (auto simp: hub_ok_def nth_list_update)
qed

lemma hub_ok_conns: "hub_ok h \<Longrightarrow> hub_ok (h\<lparr>hConns := cs\<rparr>)"
  by (simp add: hub_ok_def)

lemma hub_ok_dispatch:
  assumes "hub_ok h"
  shows "hub_ok (dispatchNew E ops i elem v h)"
proof (cases "hDevices h (xnDevice v)")
  case (Some k)
  then have k: "k < length (hOrder h)" and d: "inv (hOrder h ! k)" using assms by (auto simp: hub_ok_def)
  let ?d = "hOrder h ! k"
  show ?thesis
  proof (cases "judge (ePrint E) (dProps ops ?d) elem v")
    case (Dropped why)
    then show ?thesis using Some assms by (simp add: dispatchNew_def device_def hub_ok_conns)
  next
    case (Rejected j why)
    have "hub_ok (h\<lparr>hOrder := (hOrder h)[k := dPut ops ?d j (SetState Alert (dProps ops ?d ! j))], hConns := cs\<rparr>)" for cs
      using hub_ok_put[OF assms k] alert[OF d judge_rejects[OF Rejected]] by blast
    then show ?thesis using Some Rejected by (simp add: dispatchNew_def device_def rejectNumber_def Let_def)
  next
    case (Handed ms)
    obtain acts d' where a: "dHandle ops ?d (xnName v) ms = (acts, d')" by fastforce
    show ?thesis
      using Some Handed a hub_ok_put[OF assms k] handle[OF d a] by (simp add: dispatchNew_def device_def)
  qed
qed (use assms in \<open>simp add: dispatchNew_def device_def\<close>)

lemma hub_ok_handle: "hub_ok h \<Longrightarrow> hub_ok (handle_elem E ops i x h)"
  by (auto simp: handle_elem_def Let_def hub_snapshot_def hub_ok_conns split: option.split intro: hub_ok_dispatch)

lemma hub_ok_elems: "hub_ok h \<Longrightarrow> hub_ok (fold (\<lambda>(i, x). handle_elem E ops i x) ixs h)"
  by (induction ixs arbitrary: h) (auto intro: hub_ok_handle)

text \<open>What the hub answers with, at any time, is true to the devices.\<close>

lemma hub_ok_owned:
  assumes "hub_ok h" and "d \<in> set (hOrder h)" and "p \<in> set (dProps ops d)"
  shows "pDevice p = dName ops d \<and> switch_ok p \<and> distinct (map pName (dProps ops d))"
  using assms owned names by (auto simp: hub_ok_def)

end

section \<open>Devices of two kinds\<close>

definition either_ops :: "'a device_ops \<Rightarrow> 'b device_ops \<Rightarrow> ('a + 'b) device_ops" where
  "either_ops A B =
     \<lparr>dName = case_sum (dName A) (dName B), dProps = case_sum (dProps A) (dProps B),
      dPut = (\<lambda>x j p. case x of Inl a \<Rightarrow> Inl (dPut A a j p) | Inr b \<Rightarrow> Inr (dPut B b j p)),
      dHandle = (\<lambda>x n ms. case x of
         Inl a \<Rightarrow> apsnd Inl (dHandle A a n ms) | Inr b \<Rightarrow> apsnd Inr (dHandle B b n ms)),
      dStarter = case_sum (dStarter A) (dStarter B)\<rparr>"

locale device_pair = left: indi_device A invA + right: indi_device B invB
  for A :: "'a device_ops" and invA and B :: "'b device_ops" and invB

sublocale device_pair \<subseteq> pair: indi_device "either_ops A B" "case_sum invA invB"
proof
  fix d d' name ms acts
  assume "case_sum invA invB d" and "dHandle (either_ops A B) d name ms = (acts, d')"
  then show "case_sum invA invB d' \<and> dName (either_ops A B) d' = dName (either_ops A B) d \<and>
      (\<forall>a\<in>set acts. pub_device a = dName (either_ops A B) d)"
    using left.handle right.handle by (cases d) (auto simp: either_ops_def apsnd_def map_prod_def split: prod.splits)
next
  fix d j
  assume "case_sum invA invB d" and "j < length (dProps (either_ops A B) d)"
  then show "case_sum invA invB (dPut (either_ops A B) d j (SetState Alert (dProps (either_ops A B) d ! j))) \<and>
      dName (either_ops A B) (dPut (either_ops A B) d j (SetState Alert (dProps (either_ops A B) d ! j))) =
      dName (either_ops A B) d"
    using left.alert right.alert by (cases d) (auto simp: either_ops_def)
next
  fix d p
  assume "case_sum invA invB d" and "p \<in> set (dProps (either_ops A B) d)"
  then show "pDevice p = dName (either_ops A B) d \<and> switch_ok p"
    using left.owned right.owned by (cases d) (auto simp: either_ops_def)
next
  fix d
  assume "case_sum invA invB d"
  then show "distinct (map pName (dProps (either_ops A B) d))"
    using left.names right.names by (cases d) (auto simp: either_ops_def)
qed

end
