(* ===== verification/MountDevice.thy ===== *)
theory MountDevice
  imports DeviceContract
begin

text \<open>
  The mount of \<open>mount/mount.go\<close>. The mount behind it is a value of type \<open>'m\<close> with the
  operations of \<open>lx200.Mount\<close> and of its optional interfaces in a record, which stand for that
  third-party package: nothing is assumed of them. The pointers of the struct to its properties
  are a function from field to property. What a handler leaves running in a goroutine is a task
  of the state: a goto, or the end of a guide pulse. A handler, a task and a poll are one step
  each, and \<open>mdPub\<close> collects what is published.
\<close>

section \<open>State\<close>

datatype direction = North | South | West | East

datatype pier = PierUnknown | PierWest | PierEast

text \<open>The results of the interface's methods are a value, an error if any, and the mount after. An
  optional interface is None when the mount does not implement it.\<close>

record 'm mount_ops =
  moLive :: "'m \<Rightarrow> string option"
  moSetTargetRA :: "float64 \<Rightarrow> 'm \<Rightarrow> bool \<times> string option \<times> 'm"
  moSetTargetDec :: "float64 \<Rightarrow> 'm \<Rightarrow> bool \<times> string option \<times> 'm"
  moSyncToTarget :: "'m \<Rightarrow> string option \<times> 'm"
  moSlewToTarget :: "'m \<Rightarrow> string option \<times> 'm"
  moHalt :: "'m \<Rightarrow> string option \<times> 'm"
  moRA :: "'m \<Rightarrow> float64 \<times> string option \<times> 'm"
  moDec :: "'m \<Rightarrow> float64 \<times> string option \<times> 'm"
  moSlewing :: "'m \<Rightarrow> bool \<times> string option \<times> 'm"
  moGuideRate :: "('m \<Rightarrow> float64 \<times> string option \<times> 'm) option"
  moDualAxis :: "(('m \<Rightarrow> bool \<times> string option \<times> 'm) \<times> (bool \<Rightarrow> 'm \<Rightarrow> string option \<times> 'm)) option"
  moPulseGuide :: "(direction \<Rightarrow> int \<Rightarrow> 'm \<Rightarrow> string option \<times> 'm) option"
  moPierSide :: "('m \<Rightarrow> pier \<times> string option \<times> 'm) option"
  moOptics :: "('m \<Rightarrow> float64 \<times> float64 \<times> float64 \<times> float64) option"

datatype mount_field =
  MConn | MDriverInfo | MEq | MOnSet | MAbort | MPier | MGuideNS | MGuideWE | MGuideRate | MInfo | MDualAxis

datatype mount_task = Goto float64 float64 bool | GuideDone mount_field

record 'm mount_dev =
  mdName :: string
  mdMount :: 'm
  mdProp :: "mount_field \<Rightarrow> Property"
  mdLastOptics :: "float64 \<times> float64 \<times> float64 \<times> float64"
  mdConnected :: bool
  mdDualAxisCap :: bool
  mdTasks :: "mount_task list"
  mdPub :: "publication list"

definition on_prop :: "mount_field \<Rightarrow> (Property \<Rightarrow> Property) \<Rightarrow> 'm mount_dev \<Rightarrow> 'm mount_dev" where
  "on_prop k f d = d\<lparr>mdProp := (mdProp d)(k := f (mdProp d k))\<rparr>"

definition emit :: "publication \<Rightarrow> 'm mount_dev \<Rightarrow> 'm mount_dev" where
  "emit a d = d\<lparr>mdPub := mdPub d @ [a]\<rparr>"

definition update :: "mount_field \<Rightarrow> 'm mount_dev \<Rightarrow> 'm mount_dev" where
  "update k d = emit (PUpdate (mdProp d k)) d"

definition say :: "string \<Rightarrow> 'm mount_dev \<Rightarrow> 'm mount_dev" where
  "say msg d = emit (PMessage (mdName d) msg) d"

text \<open>\<open>SetState\<close> followed by \<open>Update\<close>.\<close>

definition settle :: "mount_field \<Rightarrow> State \<Rightarrow> 'm mount_dev \<Rightarrow> 'm mount_dev" where
  "settle k s d = update k (on_prop k (SetState s) d)"

section \<open>Construction\<close>

fun mount_prop :: "string \<Rightarrow> float64 \<Rightarrow> mount_field \<Rightarrow> Property" where
  "mount_prop name rate MConn = ConnectionProperty name"
| "mount_prop name rate MDriverInfo =
     DriverInfoProperty name name ''goindi-mount'' ''1.0'' (InterfaceTelescope OR InterfaceGuider)"
| "mount_prop name rate MEq = EquatorialCoordProperty name"
| "mount_prop name rate MOnSet = OnCoordSetProperty name"
| "mount_prop name rate MAbort = AbortProperty name"
| "mount_prop name rate MPier = PierSideProperty name"
| "mount_prop name rate MGuideNS = TimedGuideNSProperty name"
| "mount_prop name rate MGuideWE = TimedGuideWEProperty name"
| "mount_prop name rate MGuideRate = GuideRateProperty name rate"
| "mount_prop name rate MInfo = TelescopeInfoProperty name"
| "mount_prop name rate MDualAxis = DualAxisTrackingProperty name"

definition refreshOptics ::
  "('m \<Rightarrow> float64 \<times> float64 \<times> float64 \<times> float64) \<Rightarrow> 'm mount_dev \<Rightarrow> bool \<times> 'm mount_dev" where
  "refreshOptics optics d =
     (case (optics (mdMount d), mdLastOptics d) of
        ((ap, fl, gap, gfl), (ap0, fl0, gap0, gfl0)) \<Rightarrow>
          (\<not> (f64_eq ap ap0 \<and> f64_eq fl fl0 \<and> f64_eq gap gap0 \<and> f64_eq gfl gfl0),
           on_prop MInfo
             (SetNumber ''GUIDER_FOCAL_LENGTH'' gfl \<circ> SetNumber ''GUIDER_APERTURE'' gap \<circ>
              SetNumber ''TELESCOPE_FOCAL_LENGTH'' fl \<circ> SetNumber ''TELESCOPE_APERTURE'' ap)
             (d\<lparr>mdLastOptics := (ap, fl, gap, gfl)\<rparr>)))"

text \<open>\<open>WithGuideRate\<close>, and \<open>New\<close> with the rate it leaves.\<close>

definition WithGuideRate :: "float64 \<Rightarrow> float64 \<Rightarrow> float64" where
  "WithGuideRate rate old = (if Fin 0 < rate then rate else old)"

definition mount_New :: "'m mount_ops \<Rightarrow> string \<Rightarrow> float64 \<Rightarrow> 'm \<Rightarrow> 'm mount_dev" where
  "mount_New K name rate m =
     (let d = \<lparr>mdName = name, mdMount = m, mdProp = mount_prop name (WithGuideRate rate (Fin (1 / 2))),
               mdLastOptics = (Fin 0, Fin 0, Fin 0, Fin 0), mdConnected = False, mdDualAxisCap = False,
               mdTasks = [], mdPub = []\<rparr>
      in case moOptics K of None \<Rightarrow> d | Some o1 \<Rightarrow> snd (refreshOptics o1 d))"

text \<open>The fields \<open>Properties\<close> lists.\<close>

definition mount_fields :: "'m mount_ops \<Rightarrow> 'm mount_dev \<Rightarrow> mount_field list" where
  "mount_fields K d =
     [MConn, MDriverInfo, MEq, MOnSet, MAbort, MPier, MGuideNS, MGuideWE, MGuideRate] @
     (if moOptics K = None then [] else [MInfo]) @ (if mdDualAxisCap d then [MDualAxis] else [])"

definition mount_Properties :: "'m mount_ops \<Rightarrow> 'm mount_dev \<Rightarrow> Property list" where
  "mount_Properties K d = map (mdProp d) (mount_fields K d)"

section \<open>Handlers\<close>

text \<open>Only an On counts: the first member that is On and has one of the two names.\<close>

fun selectedOn :: "NewMember list \<Rightarrow> string \<Rightarrow> string \<Rightarrow> bool \<times> bool" where
  "selectedOn [] onName offName = (False, False)"
| "selectedOn (m # ms) onName offName =
     (if \<not> On m then selectedOn ms onName offName
      else if nm_name m = onName then (True, True)
      else if nm_name m = offName then (False, True)
      else selectedOn ms onName offName)"

definition refreshGuideRate :: "'m mount_ops \<Rightarrow> 'm mount_dev \<Rightarrow> 'm mount_dev" where
  "refreshGuideRate K d =
     (case moGuideRate K of
        None \<Rightarrow> d
      | Some get \<Rightarrow>
          (case get (mdMount d) of
             (rate, err, m) \<Rightarrow>
               let d1 = d\<lparr>mdMount := m\<rparr>
               in if err \<noteq> None \<or> rate \<le> Fin 0 then d1
                  else settle MGuideRate Ok
                         (on_prop MGuideRate (SetNumber ''GUIDE_RATE_NS'' rate \<circ> SetNumber ''GUIDE_RATE_WE'' rate) d1)))"

definition setDualAxisSwitch :: "bool \<Rightarrow> 'm mount_dev \<Rightarrow> 'm mount_dev" where
  "setDualAxisSwitch on d =
     on_prop MDualAxis (SetState Ok \<circ> SetSwitch (if on then ''ENABLE'' else ''DISABLE'') True) d"

definition refreshDualAxis :: "'m mount_ops \<Rightarrow> 'm mount_dev \<Rightarrow> 'm mount_dev" where
  "refreshDualAxis K d =
     (case moDualAxis K of
        None \<Rightarrow> d
      | Some (get, put) \<Rightarrow>
          (case get (mdMount d) of
             (on, err, m) \<Rightarrow>
               let d1 = d\<lparr>mdMount := m\<rparr>;
                   d2 = (if err = None then setDualAxisSwitch on d1 else d1);
                   d3 = d2\<lparr>mdDualAxisCap := True\<rparr>
               in emit (PDefine (mdProp d3 MDualAxis)) d3))"

definition clearDualAxis :: "'m mount_dev \<Rightarrow> 'm mount_dev" where
  "clearDualAxis d =
     (let had = mdDualAxisCap d; d1 = d\<lparr>mdDualAxisCap := False\<rparr>
      in if had then emit (PDelete (mdName d) ''DUAL_AXIS_TRACKING'') d1 else d1)"

text \<open>The closure \<open>alert\<close> of \<open>handleDualAxis\<close>.\<close>

definition dual_alert :: "string \<Rightarrow> 'm mount_dev \<Rightarrow> 'm mount_dev" where
  "dual_alert msg d =
     (let d1 = settle MDualAxis Alert d
      in if msg \<noteq> [] then say (''dual-axis tracking: '' @ msg) d1 else d1)"

definition handleDualAxis :: "'m mount_ops \<Rightarrow> NewMember list \<Rightarrow> 'm mount_dev \<Rightarrow> 'm mount_dev" where
  "handleDualAxis K ms d =
     (if moLive K (mdMount d) \<noteq> None then dual_alert [] d
      else case moDualAxis K of
             None \<Rightarrow> dual_alert [] d
           | Some (get, put) \<Rightarrow>
               (case selectedOn ms ''ENABLE'' ''DISABLE'' of
                  (enable, got) \<Rightarrow>
                    if \<not> got then d
                    else case put enable (mdMount d) of
                           (Some e, m) \<Rightarrow> dual_alert e (d\<lparr>mdMount := m\<rparr>)
                         | (None, m) \<Rightarrow> update MDualAxis (setDualAxisSwitch enable (d\<lparr>mdMount := m\<rparr>))))"

definition handleConnection :: "'m mount_ops \<Rightarrow> NewMember list \<Rightarrow> 'm mount_dev \<Rightarrow> 'm mount_dev" where
  "handleConnection K ms d =
     (if fst (selectedOn ms ''CONNECT'' ''DISCONNECT'') then
        (case moLive K (mdMount d) of
           Some e \<Rightarrow> say (''connect failed: '' @ e) (settle MConn Alert d)
         | None \<Rightarrow>
             settle MConn Ok (refreshDualAxis K (refreshGuideRate K
               (on_prop MConn (SetSwitch ''CONNECT'' True) (d\<lparr>mdConnected := True\<rparr>)))))
      else
        settle MConn Ok (clearDualAxis
          (on_prop MConn (SetSwitch ''DISCONNECT'' True) (d\<lparr>mdConnected := False\<rparr>))))"

text \<open>The loop over the members of a goto: the last coordinates, or the first malformed member.\<close>

fun read_coords ::
  "NewMember list \<Rightarrow> float64 option \<times> float64 option \<Rightarrow> NewMember + float64 option \<times> float64 option" where
  "read_coords [] st = Inr st"
| "read_coords (m # ms) (ra, dec) =
     (if nm_name m \<noteq> ''RA'' \<and> nm_name m \<noteq> ''DEC'' then read_coords ms (ra, dec)
      else case Float m of
             None \<Rightarrow> Inl m
           | Some v \<Rightarrow> if nm_name m = ''RA'' then read_coords ms (Some v, dec) else read_coords ms (ra, Some v))"

definition handleEq :: "(nat \<Rightarrow> bool) \<Rightarrow> 'm mount_ops \<Rightarrow> NewMember list \<Rightarrow> 'm mount_dev \<Rightarrow> 'm mount_dev" where
  "handleEq pr K ms d =
     (if moLive K (mdMount d) \<noteq> None then settle MEq Alert d
      else case read_coords ms (None, None) of
             Inl m \<Rightarrow> say (''goto: bad '' @ nm_name m @ '' value '' @ Quote pr (nm_value m)) (settle MEq Alert d)
           | Inr (Some ra, Some dec) \<Rightarrow>
               (let sync = Switch (mdProp d MOnSet) ''SYNC''; d1 = settle MEq Busy d
                in d1\<lparr>mdTasks := mdTasks d1 @ [Goto ra dec sync]\<rparr>)
           | Inr _ \<Rightarrow> d)"

fun halt_all :: "'m mount_ops \<Rightarrow> NewMember list \<Rightarrow> 'm mount_dev \<Rightarrow> 'm mount_dev" where
  "halt_all K [] d = d"
| "halt_all K (m # ms) d =
     halt_all K ms
       (if nm_name m = ''ABORT'' \<and> On m \<and> moLive K (mdMount d) = None
        then d\<lparr>mdMount := snd (moHalt K (mdMount d))\<rparr> else d)"

definition handleAbort :: "'m mount_ops \<Rightarrow> NewMember list \<Rightarrow> 'm mount_dev \<Rightarrow> 'm mount_dev" where
  "handleAbort K ms d = settle MAbort Ok (on_prop MAbort (SetSwitch ''ABORT'' False) (halt_all K ms d))"

definition guideDir :: "string \<Rightarrow> direction option" where
  "guideDir name =
     (if name = ''TIMED_GUIDE_N'' then Some North
      else if name = ''TIMED_GUIDE_S'' then Some South
      else if name = ''TIMED_GUIDE_W'' then Some West
      else if name = ''TIMED_GUIDE_E'' then Some East
      else None)"

text \<open>The loop over the members: the first malformed one, if any, and the longest pulse.\<close>

fun guide_loop ::
  "(direction \<Rightarrow> int \<Rightarrow> 'm \<Rightarrow> string option \<times> 'm) \<Rightarrow> mount_field \<Rightarrow> NewMember list \<Rightarrow> int \<Rightarrow> 'm mount_dev \<Rightarrow>
   (NewMember + int) \<times> 'm mount_dev" where
  "guide_loop pulse k [] maxMs d = (Inr maxMs, d)"
| "guide_loop pulse k (m # ms) maxMs d =
     (case Float m of
        None \<Rightarrow> (Inl m, d)
      | Some f \<Rightarrow>
          let n = int_of_f64 f
          in if n \<le> 0 then guide_loop pulse k ms maxMs d
             else case guideDir (nm_name m) of
                    None \<Rightarrow> guide_loop pulse k ms maxMs d
                  | Some dir \<Rightarrow>
                      (case pulse dir n (mdMount d) of
                         (Some e, mo) \<Rightarrow> guide_loop pulse k ms maxMs (say (''pulse guide: '' @ e) (d\<lparr>mdMount := mo\<rparr>))
                       | (None, mo) \<Rightarrow>
                           guide_loop pulse k ms (max maxMs n)
                             (on_prop k (SetNumber (nm_name m) (f64_of_int n)) (d\<lparr>mdMount := mo\<rparr>))))"

definition handleGuide ::
  "(nat \<Rightarrow> bool) \<Rightarrow> 'm mount_ops \<Rightarrow> mount_field \<Rightarrow> NewMember list \<Rightarrow> 'm mount_dev \<Rightarrow> 'm mount_dev" where
  "handleGuide pr K k ms d =
     (if moLive K (mdMount d) \<noteq> None then settle k Alert d
      else case moPulseGuide K of
             None \<Rightarrow> say ''mount does not support pulse guiding'' (settle k Alert d)
           | Some pulse \<Rightarrow>
               (case guide_loop pulse k ms 0 d of
                  (Inl m, d1) \<Rightarrow> say (''pulse guide: bad duration '' @ Quote pr (nm_value m)) (settle k Alert d1)
                | (Inr maxMs, d1) \<Rightarrow>
                    if maxMs = 0 then settle k Ok d1
                    else (let d2 = settle k Busy d1 in d2\<lparr>mdTasks := mdTasks d2 @ [GuideDone k]\<rparr>)))"

fun set_rates :: "NewMember list \<Rightarrow> 'm mount_dev \<Rightarrow> NewMember option \<times> 'm mount_dev" where
  "set_rates [] d = (None, d)"
| "set_rates (m # ms) d =
     (case Float m of
        None \<Rightarrow> (Some m, d)
      | Some f \<Rightarrow> set_rates ms (on_prop MGuideRate (SetNumber (nm_name m) f) d))"

definition handleRate :: "(nat \<Rightarrow> bool) \<Rightarrow> NewMember list \<Rightarrow> 'm mount_dev \<Rightarrow> 'm mount_dev" where
  "handleRate pr ms d =
     (case set_rates ms d of
        (Some m, d1) \<Rightarrow> say (''guide rate: bad number '' @ Quote pr (nm_value m)) (settle MGuideRate Alert d1)
      | (None, d1) \<Rightarrow> settle MGuideRate Ok d1)"

definition mount_HandleNew ::
  "(nat \<Rightarrow> bool) \<Rightarrow> 'm mount_ops \<Rightarrow> string \<Rightarrow> NewMember list \<Rightarrow> 'm mount_dev \<Rightarrow> 'm mount_dev" where
  "mount_HandleNew pr K name ms d =
     (if name = ''CONNECTION'' then handleConnection K ms d
      else if name = ''ON_COORD_SET'' then
        settle MOnSet Ok (fold (\<lambda>m d. if On m then on_prop MOnSet (SetSwitch (nm_name m) True) d else d) ms d)
      else if name = ''EQUATORIAL_EOD_COORD'' then handleEq pr K ms d
      else if name = ''TELESCOPE_ABORT_MOTION'' then handleAbort K ms d
      else if name = ''TELESCOPE_TIMED_GUIDE_NS'' then handleGuide pr K MGuideNS ms d
      else if name = ''TELESCOPE_TIMED_GUIDE_WE'' then handleGuide pr K MGuideWE ms d
      else if name = ''GUIDE_RATE'' then handleRate pr ms d
      else if name = ''DUAL_AXIS_TRACKING'' then handleDualAxis K ms d
      else d)"

section \<open>Tasks and the poll\<close>

text \<open>The goroutine of a goto, under the mount's lock.\<close>

definition goto_mount :: "'m mount_ops \<Rightarrow> float64 \<Rightarrow> float64 \<Rightarrow> bool \<Rightarrow> 'm \<Rightarrow> string option \<times> 'm" where
  "goto_mount K ra dec sync m =
     (case moSetTargetRA K ra m of
        (ok1, Some e, m1) \<Rightarrow> (Some e, m1)
      | (False, None, m1) \<Rightarrow> (Some ''mount rejected target'', m1)
      | (True, None, m1) \<Rightarrow>
         (case moSetTargetDec K dec m1 of
            (ok2, Some e, m2) \<Rightarrow> (Some e, m2)
          | (False, None, m2) \<Rightarrow> (Some ''mount rejected target'', m2)
          | (True, None, m2) \<Rightarrow> if sync then moSyncToTarget K m2 else moSlewToTarget K m2))"

definition run_goto :: "'m mount_ops \<Rightarrow> float64 \<Rightarrow> float64 \<Rightarrow> bool \<Rightarrow> 'm mount_dev \<Rightarrow> 'm mount_dev" where
  "run_goto K ra dec sync d =
     (case goto_mount K ra dec sync (mdMount d) of
        (Some e, m) \<Rightarrow> update MEq (say (''goto: '' @ e) (on_prop MEq (SetState Alert) (d\<lparr>mdMount := m\<rparr>)))
      | (None, m) \<Rightarrow>
          update MEq (if sync then on_prop MEq (SetState Ok) (d\<lparr>mdMount := m\<rparr>) else d\<lparr>mdMount := m\<rparr>))"

definition guide_done :: "mount_field \<Rightarrow> 'm mount_dev \<Rightarrow> 'm mount_dev" where
  "guide_done k d =
     settle k Ok (on_prop k (fold (\<lambda>n. SetNumber n (Fin 0))
       [''TIMED_GUIDE_N'', ''TIMED_GUIDE_S'', ''TIMED_GUIDE_W'', ''TIMED_GUIDE_E'']) d)"

fun run_task :: "'m mount_ops \<Rightarrow> mount_task \<Rightarrow> 'm mount_dev \<Rightarrow> 'm mount_dev" where
  "run_task K (Goto ra dec sync) d = run_goto K ra dec sync d"
| "run_task K (GuideDone k) d = guide_done k d"

definition poll_pier :: "'m mount_ops \<Rightarrow> 'm mount_dev \<Rightarrow> 'm mount_dev" where
  "poll_pier K d =
     (case moPierSide K of
        None \<Rightarrow> d
      | Some get \<Rightarrow>
          (case get (mdMount d) of
             (side, err, m) \<Rightarrow>
               let d1 = d\<lparr>mdMount := m\<rparr>
               in if err = None \<and> side \<noteq> PierUnknown
                  then settle MPier Ok (on_prop MPier
                         (SetSwitch ''PIER_EAST'' (side = PierEast) \<circ> SetSwitch ''PIER_WEST'' (side = PierWest)) d1)
                  else d1))"

definition poll_position :: "'m mount_ops \<Rightarrow> 'm mount_dev \<Rightarrow> 'm mount_dev" where
  "poll_position K d =
     (case moRA K (mdMount d) of
        (ra, e1, m1) \<Rightarrow>
          (case moDec K m1 of
             (dec, e2, m2) \<Rightarrow>
               if e1 \<noteq> None \<or> e2 \<noteq> None then d\<lparr>mdMount := m2\<rparr>
               else (case moSlewing K m2 of
                       (slewing, e3, m3) \<Rightarrow>
                         poll_pier K (settle MEq (if e3 = None \<and> slewing then Busy else Ok)
                           (on_prop MEq (SetNumber ''DEC'' dec \<circ> SetNumber ''RA'' ra) (d\<lparr>mdMount := m3\<rparr>))))))"

definition poll :: "'m mount_ops \<Rightarrow> 'm mount_dev \<Rightarrow> 'm mount_dev" where
  "poll K d =
     (let d1 = (case moOptics K of
                  None \<Rightarrow> d
                | Some o1 \<Rightarrow> (case refreshOptics o1 d of (changed, d') \<Rightarrow> if changed then update MInfo d' else d'))
      in if \<not> mdConnected d1 \<or> moLive K (mdMount d1) \<noteq> None then d1 else poll_position K d1)"

text \<open>The device as the hub sees it.\<close>

definition mount_ops_of :: "(nat \<Rightarrow> bool) \<Rightarrow> 'm mount_ops \<Rightarrow> 'm mount_dev device_ops" where
  "mount_ops_of pr K =
     \<lparr>dName = mdName, dProps = mount_Properties K,
      dPut = (\<lambda>d j p. on_prop (mount_fields K d ! j) (\<lambda>_. p) d),
      dHandle = (\<lambda>d name ms. let d' = mount_HandleNew pr K name ms (d\<lparr>mdPub := []\<rparr>)
                             in (mdPub d', d'\<lparr>mdPub := []\<rparr>)),
      dStarter = (\<lambda>d. True)\<rparr>"

section \<open>The invariant\<close>

text \<open>Every vector keeps its fixed part and its switch rule, and so does every vector as it was
  published; what is published is about this device.\<close>

definition pub_ok :: "string \<Rightarrow> publication \<Rightarrow> bool" where
  "pub_ok n a \<longleftrightarrow> pub_device a = n \<and> (case a of PDefine p \<Rightarrow> switch_ok p | PUpdate p \<Rightarrow> switch_ok p | _ \<Rightarrow> True)"

text \<open>Whether one who follows the publications, knowing \<open>s\<close> at first, knows the dual-axis vector.\<close>

definition dual_defined :: "publication list \<Rightarrow> bool \<Rightarrow> bool" where
  "dual_defined as s =
     foldl (\<lambda>s a. case a of
         PDefine p \<Rightarrow> s \<or> pName p = ''DUAL_AXIS_TRACKING''
       | PDelete dev name \<Rightarrow> s \<and> name \<noteq> ''DUAL_AXIS_TRACKING''
       | _ \<Rightarrow> s) s as"

definition mount_ok :: "string \<Rightarrow> bool \<Rightarrow> 'm mount_dev \<Rightarrow> bool" where
  "mount_ok n s d \<longleftrightarrow>
     mdName d = n \<and> (\<forall>k. well_kept (mount_prop n (Fin 0) k) (mdProp d k)) \<and> (\<forall>a\<in>set (mdPub d). pub_ok n a) \<and>
     dual_defined (mdPub d) s = mdDualAxisCap d"

lemma mount_prop_shape: "shape (mount_prop n r k) = shape (mount_prop n (Fin 0) k)"
  by (cases k) (simp_all add: GuideRateProperty_def shape_def fixed_member_def member_defs)

lemma mount_prop_device: "pDevice (mount_prop n r k) = n"
  by (cases k) (simp_all add: standard_defs member_defs)

lemma mount_prop_switch_ok: "switch_ok (mount_prop n r k)"
  by (cases k) (simp_all add: standard_defs member_defs switch_ok_def rule_ok_def)

lemma mount_ok_fields [simp]:
  "mount_ok n s (d\<lparr>mdMount := m\<rparr>) = mount_ok n s d" "mount_ok n s (d\<lparr>mdConnected := b\<rparr>) = mount_ok n s d"
  "mount_ok n s (d\<lparr>mdTasks := ts\<rparr>) = mount_ok n s d"
  "mount_ok n s (d\<lparr>mdLastOptics := lo\<rparr>) = mount_ok n s d" "mount_ok n s d \<Longrightarrow> mount_ok n (mdDualAxisCap d) (d\<lparr>mdPub := []\<rparr>)"
  by (simp_all add: mount_ok_def dual_defined_def)

lemma mount_ok_on_prop:
  assumes "mount_ok n s d" and "\<And>p0 p. well_kept p0 p \<Longrightarrow> well_kept p0 (f p)"
  shows "mount_ok n s (on_prop k f d)"
  using assms by (simp add: mount_ok_def on_prop_def)

lemma mount_ok_emit:
  "mount_ok n s d \<Longrightarrow> pub_ok n a \<Longrightarrow> dual_defined [a] (mdDualAxisCap d) = b \<Longrightarrow>
     mount_ok n s (emit a (d\<lparr>mdDualAxisCap := b\<rparr>))"
  by (auto simp: mount_ok_def emit_def dual_defined_def)

lemma same_cap: "d\<lparr>mdDualAxisCap := mdDualAxisCap d\<rparr> = d"
  by simp

lemma mount_ok_vector: "mount_ok n s d \<Longrightarrow> pDevice (mdProp d k) = n \<and> switch_ok (mdProp d k)"
  unfolding mount_ok_def well_kept_def by (metis mount_prop_device shape_parts(1))

lemma mount_ok_name: "mount_ok n s d \<Longrightarrow> mdName d = n"
  by (simp add: mount_ok_def)

lemma mount_ok_update: "mount_ok n s d \<Longrightarrow> mount_ok n s (update k d)"
  using mount_ok_vector[of n s d k] mount_ok_emit[of n s d "PUpdate (mdProp d k)" "mdDualAxisCap d"]
  by (simp add: update_def pub_ok_def dual_defined_def)

lemma mount_ok_say: "mount_ok n s d \<Longrightarrow> mount_ok n s (say msg d)"
  using mount_ok_name[of n s d] mount_ok_emit[of n s d "PMessage (mdName d) msg" "mdDualAxisCap d"]
  by (simp add: say_def pub_ok_def dual_defined_def)

lemma mount_ok_define:
  "mount_ok n s d \<Longrightarrow> mount_ok n s' e \<Longrightarrow> mount_ok n s (emit (PDefine (mdProp e MDualAxis)) (d\<lparr>mdDualAxisCap := True\<rparr>))"
proof -
  assume d: "mount_ok n s d" and e: "mount_ok n s' e"
  have "well_kept (mount_prop n (Fin 0) MDualAxis) (mdProp e MDualAxis)" using e unfolding mount_ok_def by blast
  then have "pName (mdProp e MDualAxis) = pName (mount_prop n (Fin 0) MDualAxis)"
    unfolding well_kept_def by (intro shape_parts(2)) blast
  then have "pName (mdProp e MDualAxis) = ''DUAL_AXIS_TRACKING''"
    by (simp add: DualAxisTrackingProperty_def member_defs)
  then show ?thesis using d mount_ok_vector[OF e, of MDualAxis]
    by (intro mount_ok_emit) (simp_all add: pub_ok_def dual_defined_def)
qed

lemma mount_ok_delete:
  "mount_ok n s d \<Longrightarrow> mount_ok n s (emit (PDelete (mdName d) ''DUAL_AXIS_TRACKING'') (d\<lparr>mdDualAxisCap := False\<rparr>))"
  using mount_ok_name[of n s d] by (intro mount_ok_emit) (simp_all add: pub_ok_def dual_defined_def)

lemma mount_ok_settle: "mount_ok n s d \<Longrightarrow> mount_ok n s (settle k st d)"
  unfolding settle_def by (intro mount_ok_update mount_ok_on_prop) auto

lemmas mount_ok_intros = mount_ok_on_prop mount_ok_update mount_ok_say mount_ok_settle

named_theorems mount_keeps

lemma ok_refreshOptics [mount_keeps]: "mount_ok n s d \<Longrightarrow> mount_ok n s (snd (refreshOptics g d))"
  by (auto simp: refreshOptics_def split: prod.split intro!: mount_ok_intros)

lemma ok_refreshGuideRate [mount_keeps]: "mount_ok n s d \<Longrightarrow> mount_ok n s (refreshGuideRate K d)"
  by (auto simp: refreshGuideRate_def Let_def split: option.split prod.split intro!: mount_ok_intros)

lemma ok_setDualAxisSwitch [mount_keeps]: "mount_ok n s d \<Longrightarrow> mount_ok n s (setDualAxisSwitch b d)"
  by (auto simp: setDualAxisSwitch_def intro!: mount_ok_intros)

lemma ok_refreshDualAxis [mount_keeps]: "mount_ok n s d \<Longrightarrow> mount_ok n s (refreshDualAxis K d)"
  by (auto simp: refreshDualAxis_def Let_def split: option.split prod.split intro!: mount_ok_define ok_setDualAxisSwitch)

lemma ok_clearDualAxis [mount_keeps]: "mount_ok n s d \<Longrightarrow> mount_ok n s (clearDualAxis d)"
proof (cases "mdDualAxisCap d")
  case False
  then have "d\<lparr>mdDualAxisCap := False\<rparr> = d" by (metis (full_types) same_cap)
  moreover have "clearDualAxis d = d\<lparr>mdDualAxisCap := False\<rparr>" using False by (simp add: clearDualAxis_def)
  ultimately show "mount_ok n s d \<Longrightarrow> ?thesis" by metis
qed (simp add: clearDualAxis_def mount_ok_delete)

lemma ok_dual_alert [mount_keeps]: "mount_ok n s d \<Longrightarrow> mount_ok n s (dual_alert msg d)"
  by (auto simp: dual_alert_def Let_def intro!: mount_ok_intros)

lemma ok_handleDualAxis [mount_keeps]: "mount_ok n s d \<Longrightarrow> mount_ok n s (handleDualAxis K ms d)"
  by (auto simp: handleDualAxis_def mount_keeps split: option.split prod.split intro!: mount_ok_intros)

lemma ok_handleConnection [mount_keeps]: "mount_ok n s d \<Longrightarrow> mount_ok n s (handleConnection K ms d)"
  by (auto simp: handleConnection_def mount_keeps split: option.split intro!: mount_ok_intros mount_keeps)

lemma ok_handleEq [mount_keeps]: "mount_ok n s d \<Longrightarrow> mount_ok n s (handleEq pr K ms d)"
  by (auto simp: handleEq_def Let_def split: option.split sum.split prod.split intro!: mount_ok_intros)

lemma ok_halt_all [mount_keeps]: "mount_ok n s d \<Longrightarrow> mount_ok n s (halt_all K ms d)"
  by (induction ms arbitrary: d) auto

lemma ok_handleAbort [mount_keeps]: "mount_ok n s d \<Longrightarrow> mount_ok n s (handleAbort K ms d)"
  by (auto simp: handleAbort_def intro!: mount_ok_intros mount_keeps)

lemma ok_guide_loop: "mount_ok n s d \<Longrightarrow> mount_ok n s (snd (guide_loop pulse k ms mx d))"
proof (induction ms arbitrary: mx d)
  case (Cons m ms)
  then show ?case by (auto simp: Let_def split: option.split prod.split intro!: Cons.IH mount_ok_intros)
qed simp

lemma ok_handleGuide [mount_keeps]:
  assumes "mount_ok n s d"
  shows "mount_ok n s (handleGuide pr K k ms d)"
proof (cases "moPulseGuide K")
  case (Some pulse)
  obtain r d1 where g: "guide_loop pulse k ms 0 d = (r, d1)" by fastforce
  have "mount_ok n s d1" using ok_guide_loop[OF assms, of pulse k ms 0] by (simp add: g)
  then show ?thesis using assms Some g
    by (auto simp: handleGuide_def Let_def split: sum.split intro!: mount_ok_intros)
qed (use assms in \<open>auto simp: handleGuide_def intro!: mount_ok_intros\<close>)

lemma ok_set_rates [mount_keeps]: "mount_ok n s d \<Longrightarrow> mount_ok n s (snd (set_rates ms d))"
  by (induction ms d rule: set_rates.induct) (auto split: option.split intro!: mount_ok_intros)

lemma ok_handleRate [mount_keeps]: "mount_ok n s d \<Longrightarrow> mount_ok n s (handleRate pr ms d)"
  using ok_set_rates[of n s d ms] by (auto simp: handleRate_def split: prod.split option.split intro!: mount_ok_intros)

lemma ok_HandleNew [mount_keeps]: "mount_ok n s d \<Longrightarrow> mount_ok n s (mount_HandleNew pr K name ms d)"
proof -
  assume d: "mount_ok n s d"
  have "mount_ok n s (fold (\<lambda>m d. if On m then on_prop MOnSet (SetSwitch (nm_name m) True) d else d) ms d)"
    using d
  proof (induction ms arbitrary: d)
    case (Cons m ms)
    then show ?case by (auto intro!: Cons.IH mount_ok_intros)
  qed simp
  then show ?thesis using d by (auto simp: mount_HandleNew_def intro!: mount_ok_intros mount_keeps)
qed

lemma ok_run_task [mount_keeps]: "mount_ok n s d \<Longrightarrow> mount_ok n s (run_task K t d)"
  by (cases t) (auto simp: run_goto_def guide_done_def split: prod.split option.split intro!: mount_ok_intros)

lemma ok_poll_pier [mount_keeps]: "mount_ok n s d \<Longrightarrow> mount_ok n s (poll_pier K d)"
  by (auto simp: poll_pier_def Let_def split: option.split prod.split intro!: mount_ok_intros)

lemma ok_poll_position [mount_keeps]: "mount_ok n s d \<Longrightarrow> mount_ok n s (poll_position K d)"
  by (auto simp: poll_position_def split: prod.split intro!: mount_ok_intros mount_keeps)

lemma ok_poll [mount_keeps]: "mount_ok n s d \<Longrightarrow> mount_ok n s (poll K d)"
  using ok_refreshOptics[of n s d]
  by (auto simp: poll_def Let_def split: option.split prod.split intro!: mount_ok_intros mount_keeps)
     (metis snd_conv mount_ok_update ok_poll_position)+

lemma ok_New: "mount_ok name False (mount_New K name rate m)"
  using mount_prop_shape mount_prop_switch_ok
  by (auto simp: mount_New_def Let_def mount_ok_def[of _ _ "\<lparr>mdName = _, mdMount = _, mdProp = _, mdLastOptics = _,
      mdConnected = _, mdDualAxisCap = _, mdTasks = _, mdPub = _\<rparr>"] well_kept_def dual_defined_def split: option.split intro!: ok_refreshOptics)

section \<open>The device running\<close>

text \<open>What can happen to a device: a command from the hub, a task or its cancellation, a poll, an
  alert the hub sets, and a change of the mount itself.\<close>

inductive mount_step :: "(nat \<Rightarrow> bool) \<Rightarrow> 'm mount_ops \<Rightarrow> 'm mount_dev \<Rightarrow> 'm mount_dev \<Rightarrow> bool" for pr K where
  command: "mount_step pr K d (mount_HandleNew pr K name ms d)"
| task: "i < length (mdTasks d) \<Longrightarrow>
    mount_step pr K d (run_task K (mdTasks d ! i) (d\<lparr>mdTasks := take i (mdTasks d) @ drop (Suc i) (mdTasks d)\<rparr>))"
| cancelled: "i < length (mdTasks d) \<Longrightarrow> mdTasks d ! i = GuideDone k \<Longrightarrow>
    mount_step pr K d (d\<lparr>mdTasks := take i (mdTasks d) @ drop (Suc i) (mdTasks d)\<rparr>)"
| polled: "mount_step pr K d (poll K d)"
| alerted: "mount_step pr K d (on_prop k (SetState Alert) d)"
| moved: "mount_step pr K d (d\<lparr>mdMount := m\<rparr>)"

inductive mount_running :: "(nat \<Rightarrow> bool) \<Rightarrow> 'm mount_ops \<Rightarrow> string \<Rightarrow> 'm mount_dev \<Rightarrow> bool" for pr K name where
  start: "mount_running pr K name (mount_New K name rate m)"
| step: "mount_running pr K name d \<Longrightarrow> mount_step pr K d d' \<Longrightarrow> mount_running pr K name d'"

lemma mount_step_ok: "mount_step pr K d d' \<Longrightarrow> mount_ok n s d \<Longrightarrow> mount_ok n s d'"
  by (induction rule: mount_step.induct) (auto intro!: mount_keeps mount_ok_intros)

lemma mount_running_ok: "mount_running pr K name d \<Longrightarrow> mount_ok name False d"
  by (induction rule: mount_running.induct) (auto intro: ok_New mount_step_ok)

lemma mount_owned:
  assumes "mount_ok n s d" and "p \<in> set (mount_Properties K d)"
  shows "pDevice p = n \<and> switch_ok p"
  using assms mount_ok_vector[OF assms(1)] by (auto simp: mount_Properties_def)

lemma mount_names:
  assumes "mount_ok n s d"
  shows "distinct (map pName (mount_Properties K d))"
proof -
  have "pName (mdProp d k) = pName (mount_prop n (Fin 0) k)" for k
    using assms shape_parts(2) unfolding mount_ok_def well_kept_def by blast
  then show ?thesis
    by (simp add: mount_Properties_def mount_fields_def standard_defs member_defs)
qed

lemma on_prop_pub: "on_prop k f (d\<lparr>mdPub := as\<rparr>) = (on_prop k f d)\<lparr>mdPub := as\<rparr>"
  by (cases d) (simp add: on_prop_def)

lemma on_prop_name: "mdName (on_prop k f d) = mdName d" and on_prop_cap: "mdDualAxisCap (on_prop k f d) = mdDualAxisCap d"
  by (simp_all add: on_prop_def)

interpretation mount: indi_device "mount_ops_of pr K" "\<lambda>d. mount_ok (mdName d) (mdDualAxisCap d) (d\<lparr>mdPub := []\<rparr>)" for pr and K :: "'m mount_ops"
proof
  fix d d' :: "'m mount_dev" and name ms acts
  assume d: "mount_ok (mdName d) (mdDualAxisCap d) (d\<lparr>mdPub := []\<rparr>)"
    and h: "dHandle (mount_ops_of pr K) d name ms = (acts, d')"
  let ?e = "mount_HandleNew pr K name ms (d\<lparr>mdPub := []\<rparr>)"
  have e: "mount_ok (mdName d) (mdDualAxisCap d) ?e" using d by (rule ok_HandleNew)
  have r: "acts = mdPub ?e" "d' = ?e\<lparr>mdPub := []\<rparr>" using h by (simp_all add: mount_ops_of_def Let_def)
  show "mount_ok (mdName d') (mdDualAxisCap d') (d'\<lparr>mdPub := []\<rparr>) \<and>
      dName (mount_ops_of pr K) d' = dName (mount_ops_of pr K) d \<and>
      (\<forall>a\<in>set acts. pub_device a = dName (mount_ops_of pr K) d)"
    using e mount_ok_fields(5)[OF e] mount_ok_name[OF e] unfolding r
    by (auto simp: mount_ops_of_def mount_ok_def pub_ok_def)
next
  fix d :: "'m mount_dev" and j
  assume d: "mount_ok (mdName d) (mdDualAxisCap d) (d\<lparr>mdPub := []\<rparr>)" and "j < length (dProps (mount_ops_of pr K) d)"
  then have j: "dProps (mount_ops_of pr K) d ! j = mdProp d (mount_fields K d ! j)"
    by (simp add: mount_ops_of_def mount_Properties_def)
  let ?e = "on_prop (mount_fields K d ! j) (SetState Alert) d"
  have put: "dPut (mount_ops_of pr K) d j (SetState Alert (mdProp d (mount_fields K d ! j))) = ?e"
    by (simp add: mount_ops_of_def on_prop_def)
  have "mount_ok (mdName d) (mdDualAxisCap d) (on_prop (mount_fields K d ! j) (SetState Alert) (d\<lparr>mdPub := []\<rparr>))"
    using d by (rule mount_ok_on_prop) auto
  then have e: "mount_ok (mdName ?e) (mdDualAxisCap ?e) (?e\<lparr>mdPub := []\<rparr>)"
    unfolding on_prop_pub on_prop_name on_prop_cap .
  have name: "dName (mount_ops_of pr K) x = mdName x" for x by (simp add: mount_ops_of_def)
  show "mount_ok (mdName (dPut (mount_ops_of pr K) d j (SetState Alert (dProps (mount_ops_of pr K) d ! j))))
        (mdDualAxisCap (dPut (mount_ops_of pr K) d j (SetState Alert (dProps (mount_ops_of pr K) d ! j))))
        ((dPut (mount_ops_of pr K) d j (SetState Alert (dProps (mount_ops_of pr K) d ! j)))\<lparr>mdPub := []\<rparr>) \<and>
      dName (mount_ops_of pr K) (dPut (mount_ops_of pr K) d j (SetState Alert (dProps (mount_ops_of pr K) d ! j))) =
      dName (mount_ops_of pr K) d"
    unfolding j put name using e on_prop_name by blast
next
  fix d :: "'m mount_dev" and p
  assume d: "mount_ok (mdName d) (mdDualAxisCap d) (d\<lparr>mdPub := []\<rparr>)" and p: "p \<in> set (dProps (mount_ops_of pr K) d)"
  then have "p \<in> set (mount_Properties K (d\<lparr>mdPub := []\<rparr>))"
    by (simp add: mount_ops_of_def mount_Properties_def mount_fields_def)
  then show "pDevice p = dName (mount_ops_of pr K) d \<and> switch_ok p"
    using mount_owned[OF d] by (simp add: mount_ops_of_def)
next
  fix d :: "'m mount_dev"
  assume d: "mount_ok (mdName d) (mdDualAxisCap d) (d\<lparr>mdPub := []\<rparr>)"
  then show "distinct (map pName (dProps (mount_ops_of pr K) d))"
    using mount_names[OF d, of K] by (simp add: mount_ops_of_def mount_Properties_def mount_fields_def)
qed

section \<open>Gotos\<close>

text \<open>The coordinate a goto gets: the last value given under its name.\<close>

definition coord :: "string \<Rightarrow> NewMember list \<Rightarrow> float64 option" where
  "coord name ms = (case filter (\<lambda>m. nm_name m = name) ms of [] \<Rightarrow> None | m # r \<Rightarrow> Float (last (m # r)))"

definition coords_ok :: "NewMember list \<Rightarrow> bool" where
  "coords_ok ms \<longleftrightarrow> list_all (\<lambda>m. nm_name m = ''RA'' \<or> nm_name m = ''DEC'' \<longrightarrow> Float m \<noteq> None) ms"

lemma coord_Cons:
  "coord name (m # ms) =
     (if nm_name m = name \<and> filter (\<lambda>m. nm_name m = name) ms = [] then Float m else coord name ms)"
  by (auto simp: coord_def split: list.split)

lemma read_coords_ok:
  "coords_ok ms \<Longrightarrow> read_coords ms (a, b) =
     Inr (if filter (\<lambda>m. nm_name m = ''RA'') ms = [] then a else coord ''RA'' ms,
          if filter (\<lambda>m. nm_name m = ''DEC'') ms = [] then b else coord ''DEC'' ms)"
proof (induction ms arbitrary: a b)
  case (Cons m ms)
  then show ?case
    by (cases "Float m") (auto simp: coords_ok_def coord_Cons)
qed simp

lemma read_coords_bad: "\<not> coords_ok ms \<Longrightarrow> \<exists>m. read_coords ms (a, b) = Inl m"
proof (induction ms arbitrary: a b)
  case (Cons m ms)
  then show ?case by (cases "Float m") (auto simp: coords_ok_def)
qed (simp add: coords_ok_def)

lemma settle_tasks [simp]:
  "mdTasks (settle k s d) = mdTasks d" "mdTasks (say msg d) = mdTasks d"
  "mdMount (settle k s d) = mdMount d" "mdMount (say msg d) = mdMount d"
  by (simp_all add: settle_def update_def emit_def say_def on_prop_def)

lemma Number_SetState: "ServerProperty.Number (SetState st p) n = ServerProperty.Number p n"
  by (auto simp: Number_def member_def prop_simps split: option.split)

section \<open>Properties\<close>

text \<open>For the witnesses: a mount that accepts everything and records its pulses.\<close>

definition sample_mount :: "(direction \<times> int) list mount_ops" where
  "sample_mount =
     \<lparr>moLive = (\<lambda>m. None), moSetTargetRA = (\<lambda>v m. (True, None, m)), moSetTargetDec = (\<lambda>v m. (True, None, m)),
      moSyncToTarget = (\<lambda>m. (None, m)), moSlewToTarget = (\<lambda>m. (None, m)), moHalt = (\<lambda>m. (None, m)),
      moRA = (\<lambda>m. (Fin 1, None, m)), moDec = (\<lambda>m. (Fin 2, None, m)), moSlewing = (\<lambda>m. (False, None, m)),
      moGuideRate = None, moDualAxis = Some (\<lambda>m. (True, None, m), \<lambda>b m. (None, m)),
      moPulseGuide = Some (\<lambda>dir n m. (None, m @ [(dir, n)])), moPierSide = Some (\<lambda>m. (PierWest, None, m)),
      moOptics = None\<rparr>"

definition ask :: "string \<Rightarrow> string \<Rightarrow> NewMember" where
  "ask name value = \<lparr>nm_name = name, nm_value = value\<rparr>"



text \<open>A goto is started exactly when the mount is live, every coordinate given is a number, and
  both coordinates are given; it carries the last value of each and whether SYNC was selected.
  Nothing is sent to the mount before.\<close>

theorem goto_started:
  "mdTasks (mount_HandleNew pr K ''EQUATORIAL_EOD_COORD'' ms d) =
     mdTasks d @
     (if moLive K (mdMount d) = None \<and> coords_ok ms
      then (case (coord ''RA'' ms, coord ''DEC'' ms) of
              (Some ra, Some dec) \<Rightarrow> [Goto ra dec (Switch (mdProp d MOnSet) ''SYNC'')] | _ \<Rightarrow> [])
      else []) \<and>
   mdMount (mount_HandleNew pr K ''EQUATORIAL_EOD_COORD'' ms d) = mdMount d"
proof -
  have c: "(if filter (\<lambda>m. nm_name m = name) ms = [] then None else coord name ms) = coord name ms" for name
    by (simp add: coord_def)
  have ok: "coords_ok ms \<Longrightarrow> read_coords ms (None, None) = Inr (coord ''RA'' ms, coord ''DEC'' ms)"
    using read_coords_ok[of ms None None] unfolding c .
  have bad: "\<not> coords_ok ms \<Longrightarrow> \<exists>m. read_coords ms (None, None) = Inl m"
    by (rule read_coords_bad)
  show ?thesis
    using ok bad by (cases "coords_ok ms") (auto simp: mount_HandleNew_def handleEq_def Let_def split: option.split)
qed

lemma sample_values:
  "Float (ask n ''100'') = Some (Fin 100)" "Float (ask n ''5000'') = Some (Fin 5000)" "Float (ask n ''x'') = None"
  "int_of_f64 (Fin 100) = 100" "int_of_f64 (Fin 5000) = 5000"
proof -
  have "ParseNumber ''100'' = Some (Fin 100)" "ParseNumber ''5000'' = Some (Fin 5000)" "ParseNumber ''x'' = None"
    by code_simp+
  then show "Float (ask n ''100'') = Some (Fin 100)" "Float (ask n ''5000'') = Some (Fin 5000)" "Float (ask n ''x'') = None"
    by (simp_all add: Float_def ask_def)
  show "int_of_f64 (Fin 100) = 100" "int_of_f64 (Fin 5000) = 5000" by code_simp+
qed

definition pulse_cmd :: "NewMember list \<Rightarrow> (direction \<times> int) list mount_dev \<Rightarrow> (direction \<times> int) list mount_dev" where
  "pulse_cmd ms d = mount_HandleNew (\<lambda>r. True) sample_mount ''TELESCOPE_TIMED_GUIDE_NS'' ms d"

lemma pulse_cmd_one:
  assumes "int_of_f64 f = n" "0 < n" "Float m = Some f" "guideDir (nm_name m) = Some dir"
  shows "mdMount (pulse_cmd [m] d) = mdMount d @ [(dir, n)]"
    "mdTasks (pulse_cmd [m] d) = mdTasks d @ [GuideDone MGuideNS]"
  using assms
  by (simp_all add: pulse_cmd_def mount_HandleNew_def handleGuide_def sample_mount_def Let_def on_prop_def)

text \<open>C36: Two pulses may overlap, and the end of the first reports the vector done, with its numbers
  at zero, while the second is still under way; the code means to stay Busy for the duration.\<close>

theorem guide_reported_early:
  "\<exists>d. mount_running (\<lambda>r. True) sample_mount ''Mount'' d \<and> mdMount d = [(North, 100), (South, 5000)] \<and>
     mdTasks d = [GuideDone MGuideNS] \<and> pState (mdProp d MGuideNS) = Ok \<and>
     ServerProperty.Number (mdProp d MGuideNS) ''TIMED_GUIDE_S'' = Fin 0"
proof -
  let ?d0 = "mount_New sample_mount ''Mount'' (Fin 1) [] :: (direction \<times> int) list mount_dev"
  define d1 where "d1 = pulse_cmd [ask ''TIMED_GUIDE_N'' ''100''] ?d0"
  define d2 where "d2 = pulse_cmd [ask ''TIMED_GUIDE_S'' ''5000''] d1"
  let ?e = "d2\<lparr>mdTasks := take 0 (mdTasks d2) @ drop (Suc 0) (mdTasks d2)\<rparr>"
  define d3 where "d3 = run_task sample_mount (mdTasks d2 ! 0) ?e"
  have d0: "mdMount ?d0 = []" "mdTasks ?d0 = []" by (simp_all add: mount_New_def sample_mount_def)
  have dirs: "guideDir (nm_name (ask ''TIMED_GUIDE_N'' v)) = Some North" "guideDir (nm_name (ask ''TIMED_GUIDE_S'' v)) = Some South" for v
    by (simp_all add: ask_def guideDir_def)
  have p1: "mdMount (pulse_cmd [ask ''TIMED_GUIDE_N'' ''100''] d) = mdMount d @ [(North, 100)]"
    "mdTasks (pulse_cmd [ask ''TIMED_GUIDE_N'' ''100''] d) = mdTasks d @ [GuideDone MGuideNS]" for d
    by (rule pulse_cmd_one[OF sample_values(4) _ sample_values(1) dirs(1)]; simp)+
  have p2: "mdMount (pulse_cmd [ask ''TIMED_GUIDE_S'' ''5000''] d) = mdMount d @ [(South, 5000)]"
    "mdTasks (pulse_cmd [ask ''TIMED_GUIDE_S'' ''5000''] d) = mdTasks d @ [GuideDone MGuideNS]" for d
    by (rule pulse_cmd_one[OF sample_values(5) _ sample_values(2) dirs(2)]; simp)+
  have t2: "mdTasks d2 = [GuideDone MGuideNS, GuideDone MGuideNS]" "mdMount d2 = [(North, 100), (South, 5000)]"
    unfolding d2_def d1_def by (simp_all add: p1 p2 d0)
  have r2: "mount_running (\<lambda>r. True) sample_mount ''Mount'' d2"
    unfolding d2_def d1_def pulse_cmd_def by (intro mount_running.intros(2)[OF _ mount_step.command] mount_running.start)
  then have r3: "mount_running (\<lambda>r. True) sample_mount ''Mount'' d3"
    unfolding d3_def by (rule mount_running.step[OF _ mount_step.task]) (simp add: t2)
  have d3: "d3 = guide_done MGuideNS ?e" by (simp add: d3_def t2)
  have n: "has_member (mdProp d2 MGuideNS) ''TIMED_GUIDE_S''"
  proof -
    have "mount_ok ''Mount'' False d2" using r2 by (rule mount_running_ok)
    then have "shape (mdProp d2 MGuideNS) = shape (mount_prop ''Mount'' (Fin 0) MGuideNS)"
      unfolding mount_ok_def well_kept_def by blast
    then have "map mName (pMembers (mdProp d2 MGuideNS)) = [''TIMED_GUIDE_N'', ''TIMED_GUIDE_S'']"
      using shape_parts(6) by (fastforce simp: TimedGuideNSProperty_def member_defs)
    then show ?thesis by (cases "pMembers (mdProp d2 MGuideNS)") (auto simp: has_member_def member_def)
  qed
  have "mdMount d3 = [(North, 100), (South, 5000)]" "mdTasks d3 = [GuideDone MGuideNS]" "pState (mdProp d3 MGuideNS) = Ok"
    unfolding d3 using t2 by (simp_all add: guide_done_def settle_def update_def emit_def on_prop_def prop_simps)
  moreover have "ServerProperty.Number (mdProp d3 MGuideNS) ''TIMED_GUIDE_S'' = Fin 0"
    unfolding d3 using n
    by (simp add: guide_done_def settle_def update_def emit_def on_prop_def numbers.get_put numbers.get_put_other
        numbers.has_put Number_SetState)
  ultimately show ?thesis using r3 by blast
qed

text \<open>A malformed duration ends the command with an alert, but the pulses of the members before
  it have already been sent to the mount.\<close>

theorem pulses_before_malformed:
  "let d = mount_HandleNew (\<lambda>r. True) sample_mount ''TELESCOPE_TIMED_GUIDE_NS''
             [ask ''TIMED_GUIDE_N'' ''100'', ask ''TIMED_GUIDE_S'' ''x''] (mount_New sample_mount ''Mount'' (Fin 1) [])
   in mdMount d = [(North, 100)] \<and> pState (mdProp d MGuideNS) = Alert \<and> mdTasks d = []"
  by (simp add: mount_HandleNew_def handleGuide_def sample_mount_def Let_def sample_values guideDir_def mount_New_def)
     (simp add: ask_def guideDir_def settle_def say_def update_def emit_def on_prop_def prop_simps)

end
