(* ===== verification/CcdDevice.thy ===== *)
theory CcdDevice
  imports DeviceContract CcdFits
begin

text \<open>
  The camera device of \<open>ccd/ccd.go\<close>, \<open>ccd/properties.go\<close> and \<open>ccd/caps.go\<close>. The camera behind it is a value of
  type \<open>'c\<close> with the operations of \<open>Camera\<close> and of its optional interfaces in a record. The
  struct's pointers to its properties are a function from field to property, None where the
  pointer is nil. Each exposure runs a goroutine (\<open>awaitFrame\<close>), which is an entry of \<open>cdRuns\<close>;
  the channel it closes and the context it watches are fields of the entry. A handler is one
  step, but for the wait in \<open>stopExposure\<close>: there the argument \<open>wait\<close> says what the
  goroutines do meanwhile.
\<close>

section \<open>State\<close>

text \<open>The optional interfaces: reading a value with its bounds, and setting it.\<close>

type_synonym 'c GainController = "('c \<Rightarrow> int \<times> int \<times> int) \<times> (int \<Rightarrow> 'c \<Rightarrow> string option \<times> 'c)"
type_synonym 'c OffsetController = "('c \<Rightarrow> int \<times> int \<times> int) \<times> (int \<Rightarrow> 'c \<Rightarrow> string option \<times> 'c)"
type_synonym 'c Subframer =
  "('c \<Rightarrow> int \<times> int \<times> int \<times> int) \<times> (int \<Rightarrow> int \<Rightarrow> int \<Rightarrow> int \<Rightarrow> 'c \<Rightarrow> string option \<times> 'c)"

record 'c camera_ops =
  caOpen :: "'c \<Rightarrow> string option"
  caPixelSizeUm :: "'c \<Rightarrow> float64 \<times> float64"
  caSize :: "'c \<Rightarrow> int \<times> int"
  caBitsPerPixel :: "'c \<Rightarrow> int"
  caStartExposure :: "float64 \<Rightarrow> 'c \<Rightarrow> string option \<times> 'c"
  caImageReady :: "'c \<Rightarrow> bool \<times> 'c"
  caFrame :: "'c \<Rightarrow> (string + int \<times> int \<times> byte list) \<times> 'c"
  caAbortExposure :: "'c \<Rightarrow> string option \<times> 'c"
  caGain :: "'c GainController option"
  caOffset :: "'c OffsetController option"
  caSubframe :: "'c Subframer option"

datatype ccd_field = CConn | CDriverInfo | CInfo | CExposure | CAbort | CBinning | CBlob | CControls | CFrame

text \<open>A goroutine waits for the image, fetches it, and ends.\<close>

datatype phase = Waiting | Fetching | Finished

record run =
  ruPhase :: phase
  ruCancelled :: bool

record 'c ccd_dev =
  cdName :: string
  cdCamera :: 'c
  cdProp :: "ccd_field \<Rightarrow> Property option"
  cdConnected :: bool
  cdExposing :: bool
  cdCancelExp :: "nat option"
  cdExposeDone :: "nat option"
  cdRuns :: "run list"
  cdCrashed :: bool
  cdPub :: "publication list"

definition on_field :: "ccd_field \<Rightarrow> (Property \<Rightarrow> Property) \<Rightarrow> 'c ccd_dev \<Rightarrow> 'c ccd_dev" where
  "on_field k f d = d\<lparr>cdProp := (cdProp d)(k := map_option f (cdProp d k))\<rparr>"

definition post :: "publication \<Rightarrow> 'c ccd_dev \<Rightarrow> 'c ccd_dev" where
  "post a d = d\<lparr>cdPub := cdPub d @ [a]\<rparr>"

definition announce :: "ccd_field \<Rightarrow> 'c ccd_dev \<Rightarrow> 'c ccd_dev" where
  "announce k d = (case cdProp d k of None \<Rightarrow> d | Some p \<Rightarrow> post (PDefine p) d)"

definition refresh :: "ccd_field \<Rightarrow> 'c ccd_dev \<Rightarrow> 'c ccd_dev" where
  "refresh k d = (case cdProp d k of None \<Rightarrow> d | Some p \<Rightarrow> post (PUpdate p) d)"

definition report :: "string \<Rightarrow> 'c ccd_dev \<Rightarrow> 'c ccd_dev" where
  "report msg d = post (PMessage (cdName d) msg) d"

definition conclude :: "ccd_field \<Rightarrow> State \<Rightarrow> 'c ccd_dev \<Rightarrow> 'c ccd_dev" where
  "conclude k s d = refresh k (on_field k (SetState s) d)"

section \<open>Properties\<close>

definition num :: "string \<Rightarrow> string \<Rightarrow> string \<Rightarrow> float64 \<Rightarrow> float64 \<Rightarrow> float64 \<Rightarrow> Member" where
  "num name label fmt mn mx val =
     zeroMember\<lparr>mName := name, mLabel := label, mFormat := fmt, mMin := mn, mMax := mx, mNum := val\<rparr>"

definition ccdInfoProperty :: "string \<Rightarrow> Property" where
  "ccdInfoProperty dev =
     titled ''CCD Information'' ''Image Info'' Ok
       (NewProperty dev ''CCD_INFO'' NumberType RO
         [num ''CCD_MAX_X'' ''Width'' ''%.0f'' (Fin 0) (Fin 1000000) (Fin 0),
          num ''CCD_MAX_Y'' ''Height'' ''%.0f'' (Fin 0) (Fin 1000000) (Fin 0),
          num ''CCD_PIXEL_SIZE'' ''Pixel (um)'' ''%.2f'' (Fin 0) (Fin 100) (Fin 0),
          num ''CCD_PIXEL_SIZE_X'' ''Pixel X (um)'' ''%.2f'' (Fin 0) (Fin 100) (Fin 0),
          num ''CCD_PIXEL_SIZE_Y'' ''Pixel Y (um)'' ''%.2f'' (Fin 0) (Fin 100) (Fin 0),
          num ''CCD_BITSPERPIXEL'' ''Bits'' ''%.0f'' (Fin 0) (Fin 64) (Fin 0)])"

definition exposureProperty :: "string \<Rightarrow> Property" where
  "exposureProperty dev =
     titled ''Expose'' ''Main Control'' Idle
       (NewProperty dev ''CCD_EXPOSURE'' NumberType RW
         [num ''CCD_EXPOSURE_VALUE'' ''Duration (s)'' ''%.3f'' (Fin 0) (Fin 3600) (Fin 1)])"

definition abortProperty :: "string \<Rightarrow> Property" where
  "abortProperty dev =
     titled ''Abort'' ''Main Control'' Ok (ruled AtMostOne
       (NewProperty dev ''CCD_ABORT_EXPOSURE'' SwitchType RW
         [zeroMember\<lparr>mName := ''ABORT'', mLabel := ''Abort''\<rparr>]))"

definition binningProperty :: "string \<Rightarrow> Property" where
  "binningProperty dev =
     titled ''Binning'' ''Image Settings'' Ok
       (NewProperty dev ''CCD_BINNING'' NumberType RW
         [num ''HOR_BIN'' ''X'' ''%.0f'' (Fin 1) (Fin 4) (Fin 1),
          num ''VER_BIN'' ''Y'' ''%.0f'' (Fin 1) (Fin 4) (Fin 1)])"

definition controlsProperty :: "string \<Rightarrow> int \<times> int \<times> int \<Rightarrow> (int \<times> int \<times> int) option \<Rightarrow> Property" where
  "controlsProperty dev gain off =
     titled ''Controls'' ''Image Settings'' Ok
       (NewProperty dev ''CCD_CONTROLS'' NumberType RW
         ((case gain of (g, glo, ghi) \<Rightarrow>
             [num ''Gain'' ''Gain'' ''%.0f'' (f64_of_int glo) (f64_of_int ghi) (f64_of_int g)]) @
          (case off of None \<Rightarrow> []
           | Some (v, olo, ohi) \<Rightarrow>
               [num ''Offset'' ''Offset'' ''%.0f'' (f64_of_int olo) (f64_of_int ohi) (f64_of_int v)])))"

definition frameProperty :: "string \<Rightarrow> int \<times> int \<times> int \<times> int \<Rightarrow> int \<times> int \<Rightarrow> Property" where
  "frameProperty dev frm dims =
     (case (frm, dims) of ((x, y, w, h), (maxW, maxH)) \<Rightarrow>
        titled ''Frame'' ''Image Settings'' Ok
          (NewProperty dev ''CCD_FRAME'' NumberType RW
            [num ''X'' ''Left'' ''%.0f'' (Fin 0) (f64_of_int maxW) (f64_of_int x),
             num ''Y'' ''Top'' ''%.0f'' (Fin 0) (f64_of_int maxH) (f64_of_int y),
             num ''WIDTH'' ''Width'' ''%.0f'' (Fin 1) (f64_of_int maxW) (f64_of_int w),
             num ''HEIGHT'' ''Height'' ''%.0f'' (Fin 1) (f64_of_int maxH) (f64_of_int h)]))"

definition blobProperty :: "string \<Rightarrow> Property" where
  "blobProperty dev =
     titled ''Image Data'' ''Image Info'' Ok
       (NewProperty dev ''CCD1'' BLOBType RO [zeroMember\<lparr>mName := ''CCD1'', mLabel := ''Image''\<rparr>])"

section \<open>Construction\<close>

fun ccd_prop :: "string \<Rightarrow> ccd_field \<Rightarrow> Property option" where
  "ccd_prop name CConn = Some (ConnectionProperty name)"
| "ccd_prop name CDriverInfo =
     Some (DriverInfoProperty name name ''goindi-ccd'' ''1.0'' (InterfaceCCD OR InterfaceGuider))"
| "ccd_prop name CInfo = Some (ccdInfoProperty name)"
| "ccd_prop name CExposure = Some (exposureProperty name)"
| "ccd_prop name CAbort = Some (abortProperty name)"
| "ccd_prop name CBinning = Some (binningProperty name)"
| "ccd_prop name CBlob = Some (blobProperty name)"
| "ccd_prop name CControls = None"
| "ccd_prop name CFrame = None"

definition fillInfo :: "'c camera_ops \<Rightarrow> 'c ccd_dev \<Rightarrow> 'c ccd_dev" where
  "fillInfo K d =
     (case (caPixelSizeUm K (cdCamera d), caSize K (cdCamera d)) of ((px, py), (w, h)) \<Rightarrow>
        on_field CInfo (SetNumber ''CCD_BITSPERPIXEL'' (f64_of_int (caBitsPerPixel K (cdCamera d))) \<circ>
          SetNumber ''CCD_PIXEL_SIZE_Y'' py \<circ> SetNumber ''CCD_PIXEL_SIZE_X'' px \<circ> SetNumber ''CCD_PIXEL_SIZE'' px \<circ>
          SetNumber ''CCD_MAX_Y'' (f64_of_int h) \<circ> SetNumber ''CCD_MAX_X'' (f64_of_int w)) d)"

definition ccd_New :: "'c camera_ops \<Rightarrow> string \<Rightarrow> 'c \<Rightarrow> 'c ccd_dev" where
  "ccd_New K name c =
     (let d = \<lparr>cdName = name, cdCamera = c, cdProp = ccd_prop name, cdConnected = False, cdExposing = False,
               cdCancelExp = None, cdExposeDone = None, cdRuns = [], cdCrashed = False, cdPub = []\<rparr>
      in if caOpen K c = None then fillInfo K d else d)"

definition ccd_fields :: "'c ccd_dev \<Rightarrow> ccd_field list" where
  "ccd_fields d =
     filter (\<lambda>k. cdProp d k \<noteq> None)
       [CConn, CDriverInfo, CInfo, CExposure, CAbort, CBinning, CBlob, CControls, CFrame]"

definition ccd_Properties :: "'c ccd_dev \<Rightarrow> Property list" where
  "ccd_Properties d = map (\<lambda>k. the (cdProp d k)) (ccd_fields d)"

text \<open>\<open>defineCaps\<close>: what is defined or updated is published after both parts, definitions first.\<close>

definition caps_controls :: "'c camera_ops \<Rightarrow> 'c ccd_dev \<Rightarrow> publication list \<times> publication list \<times> 'c ccd_dev" where
  "caps_controls K d =
     (case caGain K of
        None \<Rightarrow> ([], [], d)
      | Some (gain, setg) \<Rightarrow>
          let g = gain (cdCamera d); off = map_option (\<lambda>oc. fst oc (cdCamera d)) (caOffset K)
          in case cdProp d CControls of
               None \<Rightarrow>
                 let p = controlsProperty (cdName d) g off
                 in ([PDefine p], [], d\<lparr>cdProp := (cdProp d)(CControls := Some p)\<rparr>)
             | Some p \<Rightarrow>
                 let p1 = SetNumber ''Gain'' (f64_of_int (fst g)) p;
                     p2 = (case off of None \<Rightarrow> p1 | Some v \<Rightarrow> SetNumber ''Offset'' (f64_of_int (fst v)) p1)
                 in ([], [PUpdate p2], d\<lparr>cdProp := (cdProp d)(CControls := Some p2)\<rparr>))"

definition set_frame :: "int \<times> int \<times> int \<times> int \<Rightarrow> Property \<Rightarrow> Property" where
  "set_frame frm p =
     (case frm of (x, y, w, h) \<Rightarrow>
        SetNumber ''HEIGHT'' (f64_of_int h) (SetNumber ''WIDTH'' (f64_of_int w)
          (SetNumber ''Y'' (f64_of_int y) (SetNumber ''X'' (f64_of_int x) p))))"

definition caps_frame :: "'c camera_ops \<Rightarrow> 'c ccd_dev \<Rightarrow> publication list \<times> publication list \<times> 'c ccd_dev" where
  "caps_frame K d =
     (case caSubframe K of
        None \<Rightarrow> ([], [], d)
      | Some (get, put) \<Rightarrow>
          let frm = get (cdCamera d)
          in case cdProp d CFrame of
               None \<Rightarrow>
                 let p = frameProperty (cdName d) frm (caSize K (cdCamera d))
                 in ([PDefine p], [], d\<lparr>cdProp := (cdProp d)(CFrame := Some p)\<rparr>)
             | Some p \<Rightarrow>
                 let p1 = set_frame frm p
                 in ([], [PUpdate p1], d\<lparr>cdProp := (cdProp d)(CFrame := Some p1)\<rparr>))"

definition defineCaps :: "'c camera_ops \<Rightarrow> 'c ccd_dev \<Rightarrow> 'c ccd_dev" where
  "defineCaps K d =
     (case caps_controls K d of (def1, upd1, d1) \<Rightarrow>
        case caps_frame K d1 of (def2, upd2, d2) \<Rightarrow>
          d2\<lparr>cdPub := cdPub d2 @ (def1 @ def2) @ (upd1 @ upd2)\<rparr>)"

section \<open>Exposures\<close>

definition set_run :: "nat \<Rightarrow> (run \<Rightarrow> run) \<Rightarrow> 'c ccd_dev \<Rightarrow> 'c ccd_dev" where
  "set_run i f d = d\<lparr>cdRuns := (cdRuns d)[i := f (cdRuns d ! i)]\<rparr>"

text \<open>The locked part of \<open>stopExposure\<close> and the cancellation; then the wait; then the abort, which
  needs a camera.\<close>

definition stop_begin :: "'c ccd_dev \<Rightarrow> nat option \<times> bool \<times> 'c ccd_dev" where
  "stop_begin d =
     (let d1 = d\<lparr>cdCancelExp := None, cdExposeDone := None, cdExposing := False\<rparr>
      in (cdExposeDone d, cdExposing d,
          case cdCancelExp d of None \<Rightarrow> d1 | Some i \<Rightarrow> set_run i (\<lambda>r. r\<lparr>ruCancelled := True\<rparr>) d1))"

definition stopExposure ::
  "'c camera_ops \<Rightarrow> (nat \<Rightarrow> 'c ccd_dev \<Rightarrow> 'c ccd_dev) \<Rightarrow> bool \<Rightarrow> 'c ccd_dev \<Rightarrow> 'c ccd_dev" where
  "stopExposure K wait cam d =
     (case stop_begin d of (chan, was, d1) \<Rightarrow>
        let d2 = (case chan of None \<Rightarrow> d1 | Some i \<Rightarrow> wait i d1)
        in if was \<and> cam then d2\<lparr>cdCamera := snd (caAbortExposure K (cdCamera d2))\<rparr> else d2)"

definition startExposure ::
  "'c camera_ops \<Rightarrow> (nat \<Rightarrow> 'c ccd_dev \<Rightarrow> 'c ccd_dev) \<Rightarrow> float64 \<Rightarrow> 'c ccd_dev \<Rightarrow> 'c ccd_dev" where
  "startExposure K wait secs d =
     (if caOpen K (cdCamera d) \<noteq> None then conclude CExposure Alert d
      else let d1 = stopExposure K wait True d
      in case caStartExposure K secs (cdCamera d1) of
           (Some e, c) \<Rightarrow> report (''expose: '' @ e) (conclude CExposure Alert (d1\<lparr>cdCamera := c\<rparr>))
         | (None, c) \<Rightarrow>
             let i = length (cdRuns d1);
                 d2 = d1\<lparr>cdCamera := c, cdRuns := cdRuns d1 @ [\<lparr>ruPhase = Waiting, ruCancelled = False\<rparr>],
                         cdExposing := True, cdCancelExp := Some i, cdExposeDone := Some i\<rparr>
             in conclude CExposure Busy (on_field CExposure (SetNumber ''CCD_EXPOSURE_VALUE'' secs) d2))"

definition clearExposing :: "'c ccd_dev \<Rightarrow> 'c ccd_dev" where
  "clearExposing d = d\<lparr>cdExposing := False, cdCancelExp := None, cdExposeDone := None\<rparr>"

definition finish :: "nat \<Rightarrow> 'c ccd_dev \<Rightarrow> 'c ccd_dev" where
  "finish i d = set_run i (\<lambda>r. r\<lparr>ruPhase := Finished\<rparr>) d"

text \<open>The steps of \<open>awaitFrame\<close>: seeing the cancellation, a tick that asks for the image, and what
  follows \<open>Frame\<close>. A panic of \<open>encodeFITS\<close> ends the program.\<close>

definition run_cancelled :: "nat \<Rightarrow> 'c ccd_dev \<Rightarrow> 'c ccd_dev" where
  "run_cancelled i d = finish i d"

definition run_tick :: "'c camera_ops \<Rightarrow> nat \<Rightarrow> 'c ccd_dev \<Rightarrow> 'c ccd_dev" where
  "run_tick K i d =
     (case caImageReady K (cdCamera d) of
        (ready, c) \<Rightarrow>
          let d1 = d\<lparr>cdCamera := c\<rparr>
          in if ready then set_run i (\<lambda>r. r\<lparr>ruPhase := Fetching\<rparr>) d1 else d1)"

definition run_frame :: "'c camera_ops \<Rightarrow> nat \<Rightarrow> 'c ccd_dev \<Rightarrow> 'c ccd_dev" where
  "run_frame K i d =
     (case caFrame K (cdCamera d) of
        (Inl e, c) \<Rightarrow>
          finish i (report (''frame: '' @ e) (conclude CExposure Alert (clearExposing (d\<lparr>cdCamera := c\<rparr>))))
      | (Inr (w, h, px), c) \<Rightarrow>
          (case encodeFITS w h (caBitsPerPixel K c) px of
             None \<Rightarrow> d\<lparr>cdCamera := c, cdCrashed := True\<rparr>
           | Some blob \<Rightarrow>
               finish i (conclude CExposure Ok (on_field CExposure (SetNumber ''CCD_EXPOSURE_VALUE'' (Fin 0))
                 (clearExposing (post (PSendBLOB (cdName d) ''CCD1'' ''CCD1'' ''.fits'' blob) (d\<lparr>cdCamera := c\<rparr>)))))))"

section \<open>Handlers\<close>

fun connect_wanted :: "NewMember list \<Rightarrow> bool \<Rightarrow> bool" where
  "connect_wanted [] c = c"
| "connect_wanted (m # ms) c =
     connect_wanted ms
       (if nm_name m = ''CONNECT'' then On m
        else if nm_name m = ''DISCONNECT'' \<and> On m then False else c)"

definition ccd_handleConnection ::
  "'c camera_ops \<Rightarrow> (nat \<Rightarrow> 'c ccd_dev \<Rightarrow> 'c ccd_dev) \<Rightarrow> NewMember list \<Rightarrow> 'c ccd_dev \<Rightarrow> 'c ccd_dev" where
  "ccd_handleConnection K wait ms d =
     (if connect_wanted ms False then
        (case caOpen K (cdCamera d) of
           Some e \<Rightarrow> report (''connect failed: '' @ e) (conclude CConn Alert d)
         | None \<Rightarrow>
             conclude CConn Ok (defineCaps K (refresh CInfo (fillInfo K
               (on_field CConn (SetSwitch ''CONNECT'' True) (d\<lparr>cdConnected := True\<rparr>))))))
      else
        conclude CConn Ok (conclude CExposure Idle
          (on_field CConn (SetSwitch ''DISCONNECT'' True)
            ((stopExposure K wait (caOpen K (cdCamera d) = None) d)\<lparr>cdConnected := False\<rparr>))))"

fun handleExposure ::
  "(nat \<Rightarrow> bool) \<Rightarrow> 'c camera_ops \<Rightarrow> (nat \<Rightarrow> 'c ccd_dev \<Rightarrow> 'c ccd_dev) \<Rightarrow> NewMember list \<Rightarrow> 'c ccd_dev \<Rightarrow> 'c ccd_dev" where
  "handleExposure pr K wait [] d = d"
| "handleExposure pr K wait (m # ms) d =
     handleExposure pr K wait ms
       (if nm_name m \<noteq> ''CCD_EXPOSURE_VALUE'' then d
        else case Float m of
               None \<Rightarrow> report (''expose: bad duration '' @ Quote pr (nm_value m)) (conclude CExposure Alert d)
             | Some secs \<Rightarrow> startExposure K wait secs d)"

fun abort_loop :: "'c camera_ops \<Rightarrow> (nat \<Rightarrow> 'c ccd_dev \<Rightarrow> 'c ccd_dev) \<Rightarrow> NewMember list \<Rightarrow> 'c ccd_dev \<Rightarrow> 'c ccd_dev" where
  "abort_loop K wait [] d = d"
| "abort_loop K wait (m # ms) d =
     abort_loop K wait ms
       (if nm_name m = ''ABORT'' \<and> On m
        then conclude CExposure Idle (stopExposure K wait (caOpen K (cdCamera d) = None) d) else d)"

fun binning_loop :: "NewMember list \<Rightarrow> 'c ccd_dev \<Rightarrow> NewMember option \<times> 'c ccd_dev" where
  "binning_loop [] d = (None, d)"
| "binning_loop (m # ms) d =
     (case Float m of
        None \<Rightarrow> (Some m, d)
      | Some v \<Rightarrow> binning_loop ms (on_field CBinning (SetNumber (nm_name m) v) d))"

definition handleBinning :: "(nat \<Rightarrow> bool) \<Rightarrow> NewMember list \<Rightarrow> 'c ccd_dev \<Rightarrow> 'c ccd_dev" where
  "handleBinning pr ms d =
     (case binning_loop ms d of
        (Some m, d1) \<Rightarrow> report (''binning: bad value '' @ Quote pr (nm_value m)) (conclude CBinning Alert d1)
      | (None, d1) \<Rightarrow> conclude CBinning Ok d1)"

fun controls_loop :: "(nat \<Rightarrow> bool) \<Rightarrow> 'c camera_ops \<Rightarrow> NewMember list \<Rightarrow> 'c ccd_dev \<Rightarrow> 'c ccd_dev" where
  "controls_loop pr K [] d = d"
| "controls_loop pr K (m # ms) d =
     controls_loop pr K ms
       (case Float m of
          None \<Rightarrow> report (''controls: bad value '' @ Quote pr (nm_value m)) d
        | Some f \<Rightarrow>
            (case (if nm_name m = ''Gain'' then caGain K else if nm_name m = ''Offset'' then caOffset K else None) of
               None \<Rightarrow> d
             | Some (get, put) \<Rightarrow> d\<lparr>cdCamera := snd (put (int_of_f64 f) (cdCamera d))\<rparr>))"

definition handleControls :: "(nat \<Rightarrow> bool) \<Rightarrow> 'c camera_ops \<Rightarrow> NewMember list \<Rightarrow> 'c ccd_dev \<Rightarrow> 'c ccd_dev" where
  "handleControls pr K ms d =
     (if caOpen K (cdCamera d) \<noteq> None then d
      else
        let d1 = controls_loop pr K ms d;
            read = (\<lambda>cap n p. case cap of None \<Rightarrow> p
                              | Some (get, put) \<Rightarrow> SetNumber n (f64_of_int (fst (get (cdCamera d1)))) p)
        in conclude CControls Ok
             (on_field CControls (\<lambda>p. read (caOffset K) ''Offset'' (read (caGain K) ''Gain'' p)) d1))"

fun frame_loop :: "NewMember list \<Rightarrow> int \<times> int \<times> int \<times> int \<Rightarrow> NewMember + int \<times> int \<times> int \<times> int" where
  "frame_loop [] frm = Inr frm"
| "frame_loop (m # ms) (x, y, w, h) =
     (case Float m of
        None \<Rightarrow> Inl m
      | Some f \<Rightarrow>
          frame_loop ms
            (if nm_name m = ''X'' then (int_of_f64 f, y, w, h)
             else if nm_name m = ''Y'' then (x, int_of_f64 f, w, h)
             else if nm_name m = ''WIDTH'' then (x, y, int_of_f64 f, h)
             else if nm_name m = ''HEIGHT'' then (x, y, w, int_of_f64 f)
             else (x, y, w, h)))"

definition handleFrame :: "(nat \<Rightarrow> bool) \<Rightarrow> 'c camera_ops \<Rightarrow> NewMember list \<Rightarrow> 'c ccd_dev \<Rightarrow> 'c ccd_dev" where
  "handleFrame pr K ms d =
     (if caOpen K (cdCamera d) \<noteq> None then d
      else case caSubframe K of
             None \<Rightarrow> d
           | Some (get, put) \<Rightarrow>
               (case frame_loop ms (get (cdCamera d)) of
                  Inl m \<Rightarrow> report (''frame: bad value '' @ Quote pr (nm_value m)) d
                | Inr (x, y, w, h) \<Rightarrow>
                    let d1 = d\<lparr>cdCamera := snd (put x y w h (cdCamera d))\<rparr>
                    in conclude CFrame Ok (on_field CFrame (set_frame (get (cdCamera d1))) d1)))"

definition ccd_HandleNew ::
  "(nat \<Rightarrow> bool) \<Rightarrow> 'c camera_ops \<Rightarrow> (nat \<Rightarrow> 'c ccd_dev \<Rightarrow> 'c ccd_dev) \<Rightarrow> string \<Rightarrow> NewMember list \<Rightarrow>
   'c ccd_dev \<Rightarrow> 'c ccd_dev" where
  "ccd_HandleNew pr K wait name ms d =
     (if name = ''CONNECTION'' then ccd_handleConnection K wait ms d
      else if name = ''CCD_EXPOSURE'' then handleExposure pr K wait ms d
      else if name = ''CCD_ABORT_EXPOSURE'' then
        conclude CAbort Ok (on_field CAbort (SetSwitch ''ABORT'' False) (abort_loop K wait ms d))
      else if name = ''CCD_BINNING'' then handleBinning pr ms d
      else if name = ''CCD_CONTROLS'' then handleControls pr K ms d
      else if name = ''CCD_FRAME'' then handleFrame pr K ms d
      else d)"

text \<open>The device as the hub sees it.\<close>

definition ccd_ops_of ::
  "(nat \<Rightarrow> bool) \<Rightarrow> 'c camera_ops \<Rightarrow> (nat \<Rightarrow> 'c ccd_dev \<Rightarrow> 'c ccd_dev) \<Rightarrow> 'c ccd_dev device_ops" where
  "ccd_ops_of pr K wait =
     \<lparr>dName = cdName, dProps = ccd_Properties,
      dPut = (\<lambda>d j p. on_field (ccd_fields d ! j) (\<lambda>_. p) d),
      dHandle = (\<lambda>d name ms. let d' = ccd_HandleNew pr K wait name ms (d\<lparr>cdPub := []\<rparr>)
                             in (cdPub d', d'\<lparr>cdPub := []\<rparr>)),
      dStarter = (\<lambda>d. True)\<rparr>"

section \<open>The device running\<close>

text \<open>The steps of goroutine i, each when it can be taken.\<close>

datatype run_event = Seen nat | Tick nat | Fetched nat

fun run_step :: "'c camera_ops \<Rightarrow> run_event \<Rightarrow> 'c ccd_dev \<Rightarrow> 'c ccd_dev" where
  "run_step K (Seen i) d =
     (if \<not> cdCrashed d \<and> i < length (cdRuns d) \<and> ruPhase (cdRuns d ! i) = Waiting \<and> ruCancelled (cdRuns d ! i)
      then run_cancelled i d else d)"
| "run_step K (Tick i) d =
     (if \<not> cdCrashed d \<and> i < length (cdRuns d) \<and> ruPhase (cdRuns d ! i) = Waiting then run_tick K i d else d)"
| "run_step K (Fetched i) d =
     (if \<not> cdCrashed d \<and> i < length (cdRuns d) \<and> ruPhase (cdRuns d ! i) = Fetching then run_frame K i d else d)"

text \<open>While a handler waits for run i the goroutines take the steps of a schedule. A wait that times
  out is a schedule that does not finish the run.\<close>

definition waiting :: "'c camera_ops \<Rightarrow> (nat \<Rightarrow> run_event list) \<Rightarrow> nat \<Rightarrow> 'c ccd_dev \<Rightarrow> 'c ccd_dev" where
  "waiting K sched i d = fold (run_step K) (sched i) d"

text \<open>The server's end cancels every exposure's context.\<close>

inductive ccd_step ::
  "(nat \<Rightarrow> bool) \<Rightarrow> 'c camera_ops \<Rightarrow> ((nat \<Rightarrow> run_event list) \<Rightarrow> bool) \<Rightarrow> 'c ccd_dev \<Rightarrow> 'c ccd_dev \<Rightarrow> bool"
  for pr K allowed where
  command: "allowed sched \<Longrightarrow> ccd_step pr K allowed d (ccd_HandleNew pr K (waiting K sched) name ms d)"
| goroutine: "ccd_step pr K allowed d (run_step K e d)"
| alerted: "ccd_step pr K allowed d (on_field k (SetState Alert) d)"
| changed: "ccd_step pr K allowed d (d\<lparr>cdCamera := c\<rparr>)"
| shut_down: "ccd_step pr K allowed d (d\<lparr>cdRuns := map (\<lambda>r. r\<lparr>ruCancelled := True\<rparr>) (cdRuns d)\<rparr>)"

inductive ccd_running ::
  "(nat \<Rightarrow> bool) \<Rightarrow> 'c camera_ops \<Rightarrow> ((nat \<Rightarrow> run_event list) \<Rightarrow> bool) \<Rightarrow> string \<Rightarrow> 'c ccd_dev \<Rightarrow> bool"
  for pr K allowed name where
  start: "ccd_running pr K allowed name (ccd_New K name c)"
| step: "ccd_running pr K allowed name d \<Longrightarrow> ccd_step pr K allowed d d' \<Longrightarrow> \<not> cdCrashed d \<Longrightarrow>
    ccd_running pr K allowed name d'"

section \<open>The invariant of the vectors\<close>

fun ccd_field_name :: "ccd_field \<Rightarrow> string" where
  "ccd_field_name CConn = ''CONNECTION''"
| "ccd_field_name CDriverInfo = ''DRIVER_INFO''"
| "ccd_field_name CInfo = ''CCD_INFO''"
| "ccd_field_name CExposure = ''CCD_EXPOSURE''"
| "ccd_field_name CAbort = ''CCD_ABORT_EXPOSURE''"
| "ccd_field_name CBinning = ''CCD_BINNING''"
| "ccd_field_name CBlob = ''CCD1''"
| "ccd_field_name CControls = ''CCD_CONTROLS''"
| "ccd_field_name CFrame = ''CCD_FRAME''"

definition field_type :: "ccd_field \<Rightarrow> PropType" where
  "field_type k =
     (case k of CConn \<Rightarrow> SwitchType | CAbort \<Rightarrow> SwitchType | CDriverInfo \<Rightarrow> TextType | CBlob \<Rightarrow> BLOBType | _ \<Rightarrow> NumberType)"

definition vector_of :: "string \<Rightarrow> ccd_field \<Rightarrow> Property \<Rightarrow> bool" where
  "vector_of n k p \<longleftrightarrow>
     pDevice p = n \<and> pName p = ccd_field_name k \<and> pType p = field_type k \<and> distinct (map mName (pMembers p)) \<and> switch_ok p"

definition update_ok :: "string \<Rightarrow> publication \<Rightarrow> bool" where
  "update_ok n a \<longleftrightarrow>
     pub_device a = n \<and> (case a of PDefine p \<Rightarrow> switch_ok p | PUpdate p \<Rightarrow> switch_ok p | _ \<Rightarrow> True)"

definition ccd_ok :: "string \<Rightarrow> 'c ccd_dev \<Rightarrow> bool" where
  "ccd_ok n d \<longleftrightarrow>
     cdName d = n \<and> (\<forall>k p. cdProp d k = Some p \<longrightarrow> vector_of n k p) \<and> (\<forall>a\<in>set (cdPub d). update_ok n a)"

lemma vector_of_setters [intro, simp]:
  assumes "vector_of n k p"
  shows "vector_of n k (SetState s p)" "vector_of n k (SetNumber m v p)" "vector_of n k (SetSwitch m b p)"
proof -
  have keep: "vector_of n k q" if "shape q = shape p" "switch_ok q" for q
    using assms shape_parts[OF that(1)] that(2) by (simp add: vector_of_def)
  show "vector_of n k (SetState s p)" "vector_of n k (SetNumber m v p)" "vector_of n k (SetSwitch m b p)"
    using assms by (intro keep shape_simps; simp add: vector_of_def prop_simps numbers_switch_ok)+
qed

lemma ccd_prop_vector: "ccd_prop n k = Some p \<Longrightarrow> vector_of n k p"
  by (cases k) (auto simp: vector_of_def field_type_def switch_ok_def rule_ok_def standard_defs member_defs ccdInfoProperty_def
      exposureProperty_def abortProperty_def binningProperty_def blobProperty_def num_def)

lemma caps_vectors:
  "vector_of n CControls (controlsProperty n g off)" "vector_of n CFrame (frameProperty n frm dims)"
  by (auto simp: vector_of_def field_type_def controlsProperty_def frameProperty_def switch_ok_def member_defs num_def split: prod.split option.split)

lemma ccd_ok_fields [simp]:
  "ccd_ok n (d\<lparr>cdCamera := c\<rparr>) = ccd_ok n d" "ccd_ok n (d\<lparr>cdConnected := b\<rparr>) = ccd_ok n d"
  "ccd_ok n (d\<lparr>cdExposing := b\<rparr>) = ccd_ok n d" "ccd_ok n (d\<lparr>cdCancelExp := x\<rparr>) = ccd_ok n d"
  "ccd_ok n (d\<lparr>cdExposeDone := x\<rparr>) = ccd_ok n d" "ccd_ok n (d\<lparr>cdRuns := rs\<rparr>) = ccd_ok n d"
  "ccd_ok n (d\<lparr>cdCrashed := b\<rparr>) = ccd_ok n d" "ccd_ok n d \<Longrightarrow> ccd_ok n (d\<lparr>cdPub := []\<rparr>)"
  by (simp_all add: ccd_ok_def)

lemma ccd_ok_set_run [simp]: "ccd_ok n (set_run i f d) = ccd_ok n d"
  by (simp add: set_run_def)

lemma ccd_ok_on_field:
  assumes "ccd_ok n d" and "\<And>p. vector_of n k p \<Longrightarrow> vector_of n k (f p)"
  shows "ccd_ok n (on_field k f d)"
  using assms by (auto simp: ccd_ok_def on_field_def)

lemma ccd_ok_put: "ccd_ok n d \<Longrightarrow> vector_of n k p \<Longrightarrow> ccd_ok n (d\<lparr>cdProp := (cdProp d)(k := Some p)\<rparr>)"
  by (auto simp: ccd_ok_def)

lemma ccd_ok_post: "ccd_ok n d \<Longrightarrow> update_ok n a \<Longrightarrow> ccd_ok n (post a d)"
  by (auto simp: ccd_ok_def post_def)

lemma vector_update_ok:
  "vector_of n k p \<Longrightarrow> update_ok n (PUpdate p)" "vector_of n k p \<Longrightarrow> update_ok n (PDefine p)"
  by (simp_all add: vector_of_def update_ok_def)

lemma ccd_ok_vector: "ccd_ok n d \<Longrightarrow> cdProp d k = Some p \<Longrightarrow> vector_of n k p"
  unfolding ccd_ok_def by blast

lemma ccd_ok_refresh: "ccd_ok n d \<Longrightarrow> ccd_ok n (refresh k d)"
  by (cases "cdProp d k") (auto simp: refresh_def intro!: ccd_ok_post dest: ccd_ok_vector vector_update_ok)

lemma ccd_ok_report: "ccd_ok n d \<Longrightarrow> ccd_ok n (report msg d)"
  unfolding report_def by (rule ccd_ok_post) (simp_all add: update_ok_def ccd_ok_def)

lemma ccd_ok_conclude: "ccd_ok n d \<Longrightarrow> ccd_ok n (conclude k s d)"
  unfolding conclude_def by (intro ccd_ok_refresh ccd_ok_on_field) auto

lemmas ccd_ok_intros = ccd_ok_on_field ccd_ok_refresh ccd_ok_report ccd_ok_conclude

named_theorems ccd_keeps

lemma ok_fillInfo [ccd_keeps]: "ccd_ok n d \<Longrightarrow> ccd_ok n (fillInfo K d)"
  by (auto simp: fillInfo_def split: prod.split intro!: ccd_ok_intros)

lemma vector_of_set_frame: "vector_of n k p \<Longrightarrow> vector_of n k (set_frame frm p)"
  by (auto simp: set_frame_def split: prod.split)

lemma ok_caps_controls:
  assumes "ccd_ok n d"
  shows "case caps_controls K d of (as, bs, d') \<Rightarrow> ccd_ok n d' \<and> (\<forall>a\<in>set (as @ bs). update_ok n a)"
proof -
  have n: "cdName d = n" using assms by (simp add: ccd_ok_def)
  show ?thesis
    using assms ccd_ok_vector[OF assms, of CControls]
    by (auto simp: caps_controls_def Let_def n split: option.split
        intro!: ccd_ok_put[OF assms] vector_update_ok[where k = CControls] vector_of_setters caps_vectors)
qed

lemma ok_caps_frame:
  assumes "ccd_ok n d"
  shows "case caps_frame K d of (as, bs, d') \<Rightarrow> ccd_ok n d' \<and> (\<forall>a\<in>set (as @ bs). update_ok n a)"
proof -
  have n: "cdName d = n" using assms by (simp add: ccd_ok_def)
  show ?thesis
    using assms ccd_ok_vector[OF assms, of CFrame]
    by (auto simp: caps_frame_def Let_def n split: option.split
        intro!: ccd_ok_put[OF assms] vector_update_ok[where k = CFrame] vector_of_setters caps_vectors vector_of_set_frame)
qed

lemma ok_defineCaps [ccd_keeps]:
  assumes "ccd_ok n d"
  shows "ccd_ok n (defineCaps K d)"
proof -
  obtain as bs d1 where c: "caps_controls K d = (as, bs, d1)" by (cases "caps_controls K d") auto
  obtain as2 bs2 d2 where f: "caps_frame K d1 = (as2, bs2, d2)" by (cases "caps_frame K d1") auto
  have 1: "ccd_ok n d1" "\<forall>a\<in>set (as @ bs). update_ok n a" using ok_caps_controls[OF assms, of K] c by auto
  have "ccd_ok n d2" "\<forall>a\<in>set (as2 @ bs2). update_ok n a" using ok_caps_frame[OF 1(1), of K] f by auto
  then show ?thesis using 1 by (auto simp: defineCaps_def c f ccd_ok_def)
qed

lemma ok_run_step [ccd_keeps]:
  assumes "ccd_ok n d"
  shows "ccd_ok n (run_step K e d)"
proof -
  have "ccd_ok n (run_frame K i d)" for i
  proof -
    have "ccd_ok n (post (PSendBLOB (cdName d) ''CCD1'' ''CCD1'' ''.fits'' blob) (d\<lparr>cdCamera := c\<rparr>))" for blob c
      using assms by (intro ccd_ok_post) (auto simp: update_ok_def ccd_ok_def)
    then show ?thesis
      using assms by (auto simp: run_frame_def finish_def clearExposing_def split: prod.split sum.split option.split
          intro!: ccd_ok_intros)
  qed
  then show ?thesis
    using assms by (cases e) (auto simp: run_cancelled_def finish_def run_tick_def Let_def split: prod.split)
qed

lemma ok_waiting [ccd_keeps]: "ccd_ok n d \<Longrightarrow> ccd_ok n (waiting K sched i d)"
proof -
  have "ccd_ok n d \<Longrightarrow> ccd_ok n (fold (run_step K) es d)" for es
    by (induction es arbitrary: d) (auto intro: ok_run_step)
  then show "ccd_ok n d \<Longrightarrow> ccd_ok n (waiting K sched i d)" by (simp add: waiting_def)
qed

lemma ok_stopExposure [ccd_keeps]:
  assumes "ccd_ok n d"
  shows "ccd_ok n (stopExposure K (waiting K sched) cam d)"
  using assms by (auto simp: stopExposure_def stop_begin_def Let_def split: option.split intro!: ok_waiting)

lemma ok_startExposure [ccd_keeps]:
  assumes "ccd_ok n d"
  shows "ccd_ok n (startExposure K (waiting K sched) secs d)"
  using assms ok_stopExposure[OF assms, of K sched True]
  by (auto simp: startExposure_def Let_def split: prod.split option.split intro!: ccd_ok_intros)

lemma ok_connection [ccd_keeps]: "ccd_ok n d \<Longrightarrow> ccd_ok n (ccd_handleConnection K (waiting K sched) ms d)"
  by (auto simp: ccd_handleConnection_def split: option.split intro!: ccd_ok_intros ccd_keeps)

lemma ok_handleExposure [ccd_keeps]: "ccd_ok n d \<Longrightarrow> ccd_ok n (handleExposure pr K (waiting K sched) ms d)"
proof (induction ms arbitrary: d)
  case (Cons m ms)
  then show ?case by (auto split: option.split intro!: Cons.IH ccd_ok_intros ok_startExposure)
qed simp

lemma ok_abort_loop: "ccd_ok n d \<Longrightarrow> ccd_ok n (abort_loop K (waiting K sched) ms d)"
proof (induction ms arbitrary: d)
  case (Cons m ms)
  then show ?case by (auto intro!: Cons.IH ccd_ok_intros ok_stopExposure)
qed simp

lemma ok_binning_loop: "ccd_ok n d \<Longrightarrow> ccd_ok n (snd (binning_loop ms d))"
  by (induction ms arbitrary: d) (auto split: option.split intro!: ccd_ok_intros)

lemma ok_handleBinning [ccd_keeps]: "ccd_ok n d \<Longrightarrow> ccd_ok n (handleBinning pr ms d)"
  using ok_binning_loop[of n d ms]
  by (auto simp: handleBinning_def split: prod.split option.split intro!: ccd_ok_intros)

lemma ok_controls_loop: "ccd_ok n d \<Longrightarrow> ccd_ok n (controls_loop pr K ms d)"
proof (induction ms arbitrary: d)
  case (Cons m ms)
  then show ?case by (auto split: option.split intro!: Cons.IH ccd_ok_intros)
qed simp

lemma ok_handleControls [ccd_keeps]: "ccd_ok n d \<Longrightarrow> ccd_ok n (handleControls pr K ms d)"
  by (auto simp: handleControls_def Let_def split: option.split intro!: ccd_ok_intros ok_controls_loop)

lemma ok_handleFrame [ccd_keeps]: "ccd_ok n d \<Longrightarrow> ccd_ok n (handleFrame pr K ms d)"
  by (auto simp: handleFrame_def Let_def split: option.split sum.split prod.split intro!: ccd_ok_intros vector_of_set_frame)

lemma ok_ccd_HandleNew [ccd_keeps]: "ccd_ok n d \<Longrightarrow> ccd_ok n (ccd_HandleNew pr K (waiting K sched) name ms d)"
  unfolding ccd_HandleNew_def
  by (simp add: ok_connection ok_handleExposure ok_handleBinning ok_handleControls ok_handleFrame ok_abort_loop
      ccd_ok_conclude ccd_ok_on_field)

lemma ok_ccd_New: "ccd_ok name (ccd_New K name c)"
proof -
  have "ccd_ok name \<lparr>cdName = name, cdCamera = c, cdProp = ccd_prop name, cdConnected = False, cdExposing = False,
               cdCancelExp = None, cdExposeDone = None, cdRuns = [], cdCrashed = False, cdPub = []\<rparr>"
    using ccd_prop_vector by (auto simp: ccd_ok_def)
  then show ?thesis by (auto simp: ccd_New_def Let_def intro: ok_fillInfo)
qed

lemma ccd_step_ok: "ccd_step pr K allowed d d' \<Longrightarrow> ccd_ok n d \<Longrightarrow> ccd_ok n d'"
  by (induction rule: ccd_step.induct) (auto intro: ok_ccd_HandleNew ok_run_step ccd_ok_on_field)

lemma ccd_running_ok: "ccd_running pr K allowed name d \<Longrightarrow> ccd_ok name d"
proof (induction rule: ccd_running.induct)
  case (step d d')
  then show ?case by (blast intro: ccd_step_ok)
qed (rule ok_ccd_New)

section \<open>The contract\<close>

lemma ccd_fields_some: "k \<in> set (ccd_fields d) \<Longrightarrow> \<exists>p. cdProp d k = Some p"
  unfolding ccd_fields_def set_filter by blast

lemma ccd_Properties_owned:
  assumes "ccd_ok n d"
  shows "p \<in> set (ccd_Properties d) \<Longrightarrow> pDevice p = n \<and> switch_ok p"
    and "distinct (map pName (ccd_Properties d))"
proof -
  have v: "k \<in> set (ccd_fields d) \<Longrightarrow> vector_of n k (the (cdProp d k))" for k
    using ccd_ok_vector[OF assms, of k] by (auto dest: ccd_fields_some)
  then show "p \<in> set (ccd_Properties d) \<Longrightarrow> pDevice p = n \<and> switch_ok p"
    by (auto simp: ccd_Properties_def vector_of_def)
  have "map pName (ccd_Properties d) = map ccd_field_name (ccd_fields d)"
    using v by (simp add: ccd_Properties_def vector_of_def)
  moreover have "distinct (map ccd_field_name
      (filter Q [CConn, CDriverInfo, CInfo, CExposure, CAbort, CBinning, CBlob, CControls, CFrame]))" for Q
    by (rule distinct_map_filter) simp
  ultimately show "distinct (map pName (ccd_Properties d))" by (simp only: ccd_fields_def)
qed

lemma on_field_pub: "on_field k f (d\<lparr>cdPub := as\<rparr>) = (on_field k f d)\<lparr>cdPub := as\<rparr>"
  by (cases d) (simp add: on_field_def)

lemma on_field_name: "cdName (on_field k f d) = cdName d"
  by (simp add: on_field_def)

interpretation ccd: indi_device "ccd_ops_of pr K (waiting K sched)" "\<lambda>d. ccd_ok (cdName d) (d\<lparr>cdPub := []\<rparr>)"
  for pr and K :: "'c camera_ops" and sched
proof
  fix d d' :: "'c ccd_dev" and name ms acts
  assume d: "ccd_ok (cdName d) (d\<lparr>cdPub := []\<rparr>)"
    and h: "dHandle (ccd_ops_of pr K (waiting K sched)) d name ms = (acts, d')"
  let ?e = "ccd_HandleNew pr K (waiting K sched) name ms (d\<lparr>cdPub := []\<rparr>)"
  have e: "ccd_ok (cdName d) ?e" using d by (rule ok_ccd_HandleNew)
  have r: "acts = cdPub ?e" "d' = ?e\<lparr>cdPub := []\<rparr>" using h by (simp_all add: ccd_ops_of_def Let_def)
  show "ccd_ok (cdName d') (d'\<lparr>cdPub := []\<rparr>) \<and>
      dName (ccd_ops_of pr K (waiting K sched)) d' = dName (ccd_ops_of pr K (waiting K sched)) d \<and>
      (\<forall>a\<in>set acts. pub_device a = dName (ccd_ops_of pr K (waiting K sched)) d)"
    using e unfolding r by (auto simp: ccd_ops_of_def ccd_ok_def update_ok_def)
next
  fix d :: "'c ccd_dev" and j
  assume d: "ccd_ok (cdName d) (d\<lparr>cdPub := []\<rparr>)" and j: "j < length (dProps (ccd_ops_of pr K (waiting K sched)) d)"
  let ?k = "ccd_fields d ! j"
  let ?e = "on_field ?k (SetState Alert) d"
  have "?k \<in> set (ccd_fields d)" using j by (simp add: ccd_ops_of_def ccd_Properties_def)
  then obtain p where p: "cdProp d ?k = Some p" by (auto dest: ccd_fields_some)
  have put: "dPut (ccd_ops_of pr K (waiting K sched)) d j
      (SetState Alert (dProps (ccd_ops_of pr K (waiting K sched)) d ! j)) = ?e"
    using j p by (simp add: ccd_ops_of_def ccd_Properties_def on_field_def)
  have "ccd_ok (cdName d) (on_field ?k (SetState Alert) (d\<lparr>cdPub := []\<rparr>))"
    using d by (rule ccd_ok_on_field) auto
  then have "ccd_ok (cdName ?e) (?e\<lparr>cdPub := []\<rparr>)" unfolding on_field_pub on_field_name .
  moreover have "dName (ccd_ops_of pr K (waiting K sched)) x = cdName x" for x by (simp add: ccd_ops_of_def)
  ultimately show "ccd_ok (cdName (dPut (ccd_ops_of pr K (waiting K sched)) d j
        (SetState Alert (dProps (ccd_ops_of pr K (waiting K sched)) d ! j))))
      ((dPut (ccd_ops_of pr K (waiting K sched)) d j
        (SetState Alert (dProps (ccd_ops_of pr K (waiting K sched)) d ! j)))\<lparr>cdPub := []\<rparr>) \<and>
      dName (ccd_ops_of pr K (waiting K sched)) (dPut (ccd_ops_of pr K (waiting K sched)) d j
        (SetState Alert (dProps (ccd_ops_of pr K (waiting K sched)) d ! j))) =
      dName (ccd_ops_of pr K (waiting K sched)) d"
    unfolding put using on_field_name by metis
next
  fix d :: "'c ccd_dev" and p
  assume d: "ccd_ok (cdName d) (d\<lparr>cdPub := []\<rparr>)" and p: "p \<in> set (dProps (ccd_ops_of pr K (waiting K sched)) d)"
  then have "p \<in> set (ccd_Properties (d\<lparr>cdPub := []\<rparr>))" by (simp add: ccd_ops_of_def ccd_Properties_def ccd_fields_def)
  then show "pDevice p = dName (ccd_ops_of pr K (waiting K sched)) d \<and> switch_ok p"
    using ccd_Properties_owned(1)[OF d] by (simp add: ccd_ops_of_def)
next
  fix d :: "'c ccd_dev"
  assume d: "ccd_ok (cdName d) (d\<lparr>cdPub := []\<rparr>)"
  then show "distinct (map pName (dProps (ccd_ops_of pr K (waiting K sched)) d))"
    using ccd_Properties_owned(2)[OF d] by (simp add: ccd_ops_of_def ccd_Properties_def ccd_fields_def)
qed

end
