(* ===== verification/CcdExposure.thy ===== *)
theory CcdExposure
  imports CcdDevice
begin

text \<open>
  The exposures of the camera device: what its goroutines and its handlers do to the exposure in
  progress. When waits are long enough a stop leaves no goroutine behind, so that at most one
  exposure runs and a stop reaches it; when a wait times out the goroutine left behind erases
  the handle of the next exposure. A frame that arrives is published as the file that
  \<open>encodeFITS\<close> writes.
\<close>

section \<open>The exposure in progress\<close>

definition unfinished :: "'c ccd_dev \<Rightarrow> nat \<Rightarrow> bool" where
  "unfinished d i \<longleftrightarrow> i < length (cdRuns d) \<and> ruPhase (cdRuns d ! i) \<noteq> Finished"

text \<open>Waits long enough: the run waited for, which is cancelled, ends.\<close>

definition patient :: "'c camera_ops \<Rightarrow> (nat \<Rightarrow> run_event list) \<Rightarrow> bool" where
  "patient K sched \<longleftrightarrow>
     (\<forall>i d. i < length (cdRuns d) \<and> ruCancelled (cdRuns d ! i) \<and> \<not> cdCrashed (waiting K sched i d) \<longrightarrow>
        \<not> unfinished (waiting K sched i d) i)"

text \<open>The exposure in progress, if any, is the one a stop would reach; no other goroutine is left.\<close>

definition exposure_inv :: "'c ccd_dev \<Rightarrow> bool" where
  "exposure_inv d \<longleftrightarrow>
     cdExposeDone d = cdCancelExp d \<and> cdExposing d = (cdCancelExp d \<noteq> None) \<and>
     (\<forall>i. unfinished d i \<longrightarrow> cdCancelExp d = Some i) \<and> (\<forall>i. cdCancelExp d = Some i \<longrightarrow> i < length (cdRuns d))"

text \<open>The same while a handler waits for run i.\<close>

definition stopping_inv :: "nat \<Rightarrow> 'c ccd_dev \<Rightarrow> bool" where
  "stopping_inv i d \<longleftrightarrow>
     cdExposeDone d = None \<and> cdCancelExp d = None \<and> \<not> cdExposing d \<and> i < length (cdRuns d) \<and>
     ruCancelled (cdRuns d ! i) \<and> (\<forall>j. unfinished d j \<longrightarrow> j = i)"

definition exposure_same :: "'c ccd_dev \<Rightarrow> 'c ccd_dev \<Rightarrow> bool" where
  "exposure_same d e \<longleftrightarrow>
     cdExposing e = cdExposing d \<and> cdCancelExp e = cdCancelExp d \<and> cdExposeDone e = cdExposeDone d \<and>
     cdRuns e = cdRuns d \<and> cdCrashed e = cdCrashed d"

lemma exposure_same_refl [simp]: "exposure_same d d"
  by (simp add: exposure_same_def)

lemma exposure_same_simps [simp]:
  "exposure_same d (on_field k f e) = exposure_same d e" "exposure_same d (post a e) = exposure_same d e"
  "exposure_same d (e\<lparr>cdCamera := c\<rparr>) = exposure_same d e" "exposure_same d (e\<lparr>cdConnected := b\<rparr>) = exposure_same d e"
  "exposure_same d (e\<lparr>cdProp := ps\<rparr>) = exposure_same d e" "exposure_same d (e\<lparr>cdPub := as\<rparr>) = exposure_same d e"
  by (simp_all add: exposure_same_def on_field_def post_def)

lemma exposure_same_calls [simp]:
  "exposure_same d (refresh k e) = exposure_same d e" "exposure_same d (report msg e) = exposure_same d e"
  by (simp_all add: refresh_def report_def split: option.split)

lemma exposure_same_conclude [simp]: "exposure_same d (conclude k s e) = exposure_same d e"
  by (simp add: conclude_def)

lemma exposure_same_inv: "exposure_same d e \<Longrightarrow> exposure_inv e = exposure_inv d"
  by (simp add: exposure_same_def exposure_inv_def unfinished_def)

lemma same_defineCaps [simp]: "exposure_same d (defineCaps K e) = exposure_same d e"
proof -
  have "exposure_same d (snd (snd (caps_controls K e))) = exposure_same d e" for e
    by (auto simp: caps_controls_def Let_def split: option.split)
  moreover have "exposure_same d (snd (snd (caps_frame K e))) = exposure_same d e" for e
    by (auto simp: caps_frame_def Let_def split: option.split)
  ultimately show ?thesis by (simp add: defineCaps_def case_prod_unfold)
qed

lemma same_fillInfo [simp]: "exposure_same d (fillInfo K e) = exposure_same d e"
  by (simp add: fillInfo_def case_prod_unfold)

lemma same_loops:
  "exposure_same d (snd (binning_loop ms e)) = exposure_same d e"
  "exposure_same d (controls_loop pr K ms e) = exposure_same d e"
  by (induction ms arbitrary: e) (auto split: option.split)

lemma same_handlers:
  "exposure_same d (handleBinning pr ms d)" "exposure_same d (handleControls pr K ms d)"
  "exposure_same d (handleFrame pr K ms d)"
proof -
  show "exposure_same d (handleBinning pr ms d)"
    using same_loops(1)[of d ms d] by (auto simp: handleBinning_def split: prod.split option.split)
qed (auto simp: handleControls_def handleFrame_def Let_def same_loops split: option.split sum.split)

lemma unfinished_set_run:
  "i < length (cdRuns d) \<Longrightarrow> unfinished (set_run i f d) j =
     (if j = i then ruPhase (f (cdRuns d ! i)) \<noteq> Finished else unfinished d j)"
  by (auto simp: unfinished_def set_run_def nth_list_update)

lemma set_run_fields [simp]:
  "cdExposing (set_run i f d) = cdExposing d" "cdCancelExp (set_run i f d) = cdCancelExp d"
  "cdExposeDone (set_run i f d) = cdExposeDone d" "length (cdRuns (set_run i f d)) = length (cdRuns d)"
  "cdCrashed (set_run i f d) = cdCrashed d"
  by (simp_all add: set_run_def)

lemma same_set_run: "exposure_same d e \<Longrightarrow> exposure_same (set_run i f d) (set_run i f e)"
  by (simp add: exposure_same_def set_run_def)

text \<open>What a goroutine's step can do to the exposure.\<close>

lemma run_step_cases:
  obtains "exposure_same d (run_step K e d)"
  | i where "unfinished d i" "ruCancelled (cdRuns d ! i)" "run_step K e d = finish i d"
  | i c where "unfinished d i" "run_step K e d = set_run i (\<lambda>r. r\<lparr>ruPhase := Fetching\<rparr>) (d\<lparr>cdCamera := c\<rparr>)"
  | i where "unfinished d i" "exposure_same (finish i (clearExposing d)) (run_step K e d)"
  | "cdCrashed (run_step K e d)"
proof (cases e)
  case (Seen i)
  then have "run_step K e d = d \<or> unfinished d i \<and> ruCancelled (cdRuns d ! i) \<and> run_step K e d = finish i d"
    by (simp add: run_cancelled_def unfinished_def)
  then show ?thesis using that(1) that(2)[of i] by auto
next
  case (Tick i)
  obtain ready c where r: "caImageReady K (cdCamera d) = (ready, c)" by fastforce
  have "run_step K e d = d \<or> run_step K e d = d\<lparr>cdCamera := c\<rparr> \<or>
      unfinished d i \<and> run_step K e d = set_run i (\<lambda>r. r\<lparr>ruPhase := Fetching\<rparr>) (d\<lparr>cdCamera := c\<rparr>)"
    by (simp add: Tick run_tick_def unfinished_def Let_def r)
  then show ?thesis using that(1) that(3)[of i c] by auto
next
  case (Fetched i)
  show ?thesis
  proof (cases "\<not> cdCrashed d \<and> i < length (cdRuns d) \<and> ruPhase (cdRuns d ! i) = Fetching")
    case True
    then have step: "run_step K e d = run_frame K i d" and un: "unfinished d i" by (simp_all add: Fetched unfinished_def)
    have fin: "exposure_same (finish i (clearExposing d)) (finish i y)" if "exposure_same (clearExposing d) y" for y
      unfolding finish_def using that by (rule same_set_run)
    have clear: "exposure_same (clearExposing d) (clearExposing x)" if "exposure_same d x" for x
      using that by (simp add: exposure_same_def clearExposing_def)
    obtain r c where r: "caFrame K (cdCamera d) = (r, c)" by fastforce
    show ?thesis
    proof (cases r)
      case (Inl msg)
      have "exposure_same (finish i (clearExposing d)) (run_step K e d)"
        unfolding step run_frame_def r Inl by simp (intro fin, simp, intro clear, simp)
      then show ?thesis by (rule that(4)[OF un])
    next
      case (Inr f)
      obtain w h px where f: "f = (w, h, px)" by (cases f)
      show ?thesis
      proof (cases "encodeFITS w h (caBitsPerPixel K c) px")
        case None
        then show ?thesis using that(5) by (simp add: step run_frame_def r Inr f)
      next
        case (Some blob)
        have "exposure_same (finish i (clearExposing d)) (run_step K e d)"
          unfolding step run_frame_def r Inr f by (simp add: Some) (intro fin, simp, intro clear, simp)
        then show ?thesis by (rule that(4)[OF un])
      qed
    qed
  qed (use that(1) in \<open>auto simp: Fetched\<close>)
qed

text \<open>A wait keeps the weaker invariant, and ends with no goroutine left.\<close>

lemma stopping_same: "exposure_same d e \<Longrightarrow> stopping_inv i e = stopping_inv i d"
  by (simp add: exposure_same_def stopping_inv_def unfinished_def)

lemma stopping_set_run:
  assumes "stopping_inv i d" and "ruCancelled (f (cdRuns d ! i)) = ruCancelled (cdRuns d ! i)"
  shows "stopping_inv i (set_run i f d)"
  using assms unfolding stopping_inv_def by (simp add: unfinished_set_run) (simp add: set_run_def)

lemma stopping_step:
  assumes inv: "stopping_inv i d" and ok: "\<not> cdCrashed (run_step K e d)"
  shows "stopping_inv i (run_step K e d)"
proof (rule run_step_cases[of d K e])
  assume "exposure_same d (run_step K e d)"
  then show ?thesis using inv by (simp add: stopping_same)
next
  fix j assume j: "unfinished d j" and step: "run_step K e d = finish j d"
  have "j = i" using inv j by (simp add: stopping_inv_def)
  then show ?thesis unfolding step finish_def using stopping_set_run[OF inv] by simp
next
  fix j c assume j: "unfinished d j"
    and step: "run_step K e d = set_run j (\<lambda>r. r\<lparr>ruPhase := Fetching\<rparr>) (d\<lparr>cdCamera := c\<rparr>)"
  have "j = i" using inv j by (simp add: stopping_inv_def)
  moreover have "stopping_inv i (d\<lparr>cdCamera := c\<rparr>)" using inv stopping_same[of d "d\<lparr>cdCamera := c\<rparr>"] by simp
  ultimately show ?thesis unfolding step using stopping_set_run[of i "d\<lparr>cdCamera := c\<rparr>"] by simp
next
  fix j assume j: "unfinished d j" and step: "exposure_same (finish j (clearExposing d)) (run_step K e d)"
  have "j = i" using inv j by (simp add: stopping_inv_def)
  moreover have "exposure_same d (clearExposing d)"
    using inv by (simp add: stopping_inv_def exposure_same_def clearExposing_def)
  then have "stopping_inv i (clearExposing d)" using inv by (simp add: stopping_same)
  ultimately have "stopping_inv i (finish j (clearExposing d))" unfolding finish_def using stopping_set_run[of i "clearExposing d"] by simp
  then show ?thesis using step by (simp add: stopping_same)
qed (use ok in simp)

lemma crashed_stays: "cdCrashed d \<Longrightarrow> run_step K e d = d"
  by (cases e) simp_all

lemma stopping_wait: "stopping_inv i d \<Longrightarrow> \<not> cdCrashed (waiting K sched i d) \<Longrightarrow> stopping_inv i (waiting K sched i d)"
proof -
  have "stopping_inv i d \<Longrightarrow> \<not> cdCrashed (fold (run_step K) es d) \<Longrightarrow> stopping_inv i (fold (run_step K) es d)" for es
  proof (induction es arbitrary: d)
    case (Cons e es)
    have ok: "\<not> cdCrashed (run_step K e d)"
    proof
      assume c: "cdCrashed (run_step K e d)"
      then have "fold (run_step K) es (run_step K e d) = run_step K e d"
        by (induction es) (simp_all add: crashed_stays)
      then show False using Cons.prems(2) c by simp
    qed
    show ?case using Cons.IH[OF stopping_step[OF Cons.prems(1) ok]] Cons.prems(2) by simp
  qed simp
  then show "stopping_inv i d \<Longrightarrow> \<not> cdCrashed (waiting K sched i d) \<Longrightarrow> stopping_inv i (waiting K sched i d)"
    by (simp add: waiting_def)
qed

text \<open>No exposure, and no goroutine.\<close>

definition quiet :: "'c ccd_dev \<Rightarrow> bool" where
  "quiet d \<longleftrightarrow> \<not> cdExposing d \<and> cdCancelExp d = None \<and> cdExposeDone d = None \<and> (\<forall>i. \<not> unfinished d i)"

lemma quiet_inv: "quiet d \<Longrightarrow> exposure_inv d"
  by (simp add: quiet_def exposure_inv_def)

lemma quiet_same: "exposure_same d e \<Longrightarrow> quiet e = quiet d"
  by (simp add: quiet_def exposure_same_def unfinished_def)

lemma stopExposure_quiet:
  assumes inv: "exposure_inv d" and patient: "patient K sched" and ok: "\<not> cdCrashed (stopExposure K (waiting K sched) cam d)"
  shows "quiet (stopExposure K (waiting K sched) cam d)"
proof (cases "cdCancelExp d")
  case None
  have "exposure_same d (d\<lparr>cdCancelExp := None, cdExposeDone := None, cdExposing := False\<rparr>)"
    using inv None by (simp add: exposure_same_def exposure_inv_def)
  then have "exposure_same d (stopExposure K (waiting K sched) cam d)"
    using inv None by (simp add: stopExposure_def stop_begin_def exposure_inv_def)
  moreover have "quiet d" using inv None by (auto simp: quiet_def exposure_inv_def)
  ultimately show ?thesis by (simp add: quiet_same)
next
  case (Some i)
  let ?d1 = "set_run i (\<lambda>r. r\<lparr>ruCancelled := True\<rparr>) (d\<lparr>cdCancelExp := None, cdExposeDone := None, cdExposing := False\<rparr>)"
  let ?d2 = "waiting K sched i ?d1"
  have chan: "cdExposeDone d = Some i" "i < length (cdRuns d)" using inv Some by (auto simp: exposure_inv_def)
  have un: "unfinished ?d1 = unfinished d"
    by (rule ext) (use chan in \<open>auto simp: unfinished_def set_run_def nth_list_update\<close>)
  have s1: "stopping_inv i ?d1"
    using inv Some chan un by (auto simp: stopping_inv_def exposure_inv_def) (simp add: set_run_def)
  have stop: "stopExposure K (waiting K sched) cam d =
      (if cdExposing d \<and> cam then ?d2\<lparr>cdCamera := snd (caAbortExposure K (cdCamera ?d2))\<rparr> else ?d2)"
    using Some chan by (simp add: stopExposure_def stop_begin_def Let_def)
  have ok2: "\<not> cdCrashed ?d2" using ok unfolding stop by (simp split: if_splits)
  have s2: "stopping_inv i ?d2" by (rule stopping_wait[OF s1 ok2])
  have "\<not> unfinished ?d2 i"
    using patient s1 ok2 unfolding patient_def stopping_inv_def by blast
  then have "quiet ?d2" using s2 by (auto simp: quiet_def stopping_inv_def)
  then show ?thesis unfolding stop by (simp add: quiet_def unfinished_def)
qed

lemma startExposure_inv:
  assumes inv: "exposure_inv d" and patient: "patient K sched" and ok: "\<not> cdCrashed (startExposure K (waiting K sched) secs d)"
  shows "exposure_inv (startExposure K (waiting K sched) secs d)"
proof (cases "caOpen K (cdCamera d)")
  case (Some e)
  then have "exposure_same d (startExposure K (waiting K sched) secs d)" by (simp add: startExposure_def)
  then show ?thesis using inv by (simp add: exposure_same_inv)
next
  case None
  let ?d1 = "stopExposure K (waiting K sched) True d"
  obtain r c where r: "caStartExposure K secs (cdCamera ?d1) = (r, c)" by fastforce
  show ?thesis
  proof (cases r)
    case (Some e)
    have s: "exposure_same ?d1 (startExposure K (waiting K sched) secs d)"
      using None r Some by (simp add: startExposure_def Let_def)
    then have "\<not> cdCrashed ?d1" using ok by (simp add: exposure_same_def)
    then have "exposure_inv ?d1" by (intro quiet_inv stopExposure_quiet inv patient)
    then show ?thesis using s by (simp add: exposure_same_inv)
  next
    case start: None
    let ?d2 = "?d1\<lparr>cdCamera := c, cdRuns := cdRuns ?d1 @ [\<lparr>ruPhase = Waiting, ruCancelled = False\<rparr>],
                   cdExposing := True, cdCancelExp := Some (length (cdRuns ?d1)), cdExposeDone := Some (length (cdRuns ?d1))\<rparr>"
    have s: "exposure_same ?d2 (startExposure K (waiting K sched) secs d)"
      using None r start by (simp add: startExposure_def Let_def)
    then have "\<not> cdCrashed ?d1" using ok by (simp add: exposure_same_def)
    then have q: "quiet ?d1" by (intro stopExposure_quiet inv patient)
    have "unfinished ?d2 i \<longleftrightarrow> i = length (cdRuns ?d1)" for i
      using q by (auto simp: quiet_def unfinished_def nth_append less_Suc_eq)
    then have "exposure_inv ?d2" by (simp add: exposure_inv_def)
    then show ?thesis using s exposure_same_inv by blast
  qed
qed

text \<open>Every step keeps the invariant, until a panic ends the program.\<close>

definition sound :: "'c ccd_dev \<Rightarrow> bool" where
  "sound d \<longleftrightarrow> cdCrashed d \<or> exposure_inv d"

lemma sound_same: "exposure_same d e \<Longrightarrow> sound e = sound d"
  unfolding sound_def by (metis exposure_same_inv exposure_same_def)

lemma crashed_wait: "cdCrashed d \<Longrightarrow> waiting K sched i d = d"
proof -
  have "cdCrashed d \<Longrightarrow> fold (run_step K) es d = d" for es
    by (induction es) (simp_all add: crashed_stays)
  then show "cdCrashed d \<Longrightarrow> waiting K sched i d = d" by (simp add: waiting_def)
qed

lemma crashed_stop: "cdCrashed d \<Longrightarrow> cdCrashed (stopExposure K (waiting K sched) cam d)"
  by (auto simp: stopExposure_def stop_begin_def Let_def crashed_wait split: option.split)

lemma crashed_same: "exposure_same d e \<Longrightarrow> cdCrashed e = cdCrashed d"
  by (simp add: exposure_same_def)

lemma crashed_calls [simp]:
  "cdCrashed (on_field k f d) = cdCrashed d" "cdCrashed (conclude k s d) = cdCrashed d"
  "cdCrashed (report msg d) = cdCrashed d"
  by (rule crashed_same, simp)+

lemma crashed_start: "cdCrashed d \<Longrightarrow> cdCrashed (startExposure K (waiting K sched) secs d)"
  using crashed_stop[of d K sched True] by (simp add: startExposure_def Let_def case_prod_unfold split: option.split)

lemma sound_stop:
  assumes "sound d" and "patient K sched"
  shows "sound (stopExposure K (waiting K sched) cam d)"
proof (cases "cdCrashed (stopExposure K (waiting K sched) cam d)")
  case False
  then have "exposure_inv d" using assms(1) crashed_stop by (auto simp: sound_def)
  then show ?thesis using stopExposure_quiet[OF _ assms(2) False] by (simp add: sound_def quiet_inv)
qed (simp add: sound_def)

lemma sound_start:
  assumes "sound d" and "patient K sched"
  shows "sound (startExposure K (waiting K sched) secs d)"
proof (cases "cdCrashed (startExposure K (waiting K sched) secs d)")
  case False
  then have "exposure_inv d" using assms(1) crashed_start by (auto simp: sound_def)
  then show ?thesis using startExposure_inv[OF _ assms(2) False] by (simp add: sound_def)
qed (simp add: sound_def)

lemma sound_calls [simp]:
  "sound (on_field k f d) = sound d" "sound (conclude k s d) = sound d" "sound (report msg d) = sound d"
  "sound (refresh k d) = sound d" "sound (d\<lparr>cdConnected := b\<rparr>) = sound d" "sound (d\<lparr>cdCamera := c\<rparr>) = sound d"
  "sound (defineCaps K d) = sound d" "sound (fillInfo K d) = sound d"
  by (rule sound_same, simp)+

lemma sound_connection:
  "sound d \<Longrightarrow> patient K sched \<Longrightarrow> sound (ccd_handleConnection K (waiting K sched) ms d)"
  by (simp add: ccd_handleConnection_def sound_stop split: option.split)

lemma sound_exposure: "sound d \<Longrightarrow> patient K sched \<Longrightarrow> sound (handleExposure pr K (waiting K sched) ms d)"
proof (induction ms arbitrary: d)
  case (Cons m ms)
  then show ?case by (simp add: sound_start split: option.split)
qed simp

lemma sound_abort: "sound d \<Longrightarrow> patient K sched \<Longrightarrow> sound (abort_loop K (waiting K sched) ms d)"
proof (induction ms arbitrary: d)
  case (Cons m ms)
  then show ?case by (simp add: sound_stop)
qed simp

lemma sound_HandleNew:
  assumes "sound d" and "patient K sched"
  shows "sound (ccd_HandleNew pr K (waiting K sched) name ms d)"
proof -
  have "sound (handleBinning pr ms d)" "sound (handleControls pr K ms d)" "sound (handleFrame pr K ms d)"
    using assms(1) sound_same[OF same_handlers(1)] sound_same[OF same_handlers(2)] sound_same[OF same_handlers(3)] by blast+
  then show ?thesis
    using assms by (simp add: ccd_HandleNew_def sound_connection sound_exposure sound_abort)
qed

lemma exposure_inv_set_run:
  assumes "exposure_inv d" and "unfinished d i"
  shows "exposure_inv (set_run i f d)"
proof -
  have i: "i < length (cdRuns d)" using assms(2) by (simp add: unfinished_def)
  have "unfinished (set_run i f d) j \<Longrightarrow> unfinished d j" for j
    using assms(2) unfolding unfinished_set_run[OF i] by (cases "j = i") simp_all
  then show ?thesis using assms(1) unfolding exposure_inv_def set_run_fields by blast
qed

lemma sound_set_run: "sound d \<Longrightarrow> unfinished d i \<Longrightarrow> sound (set_run i f d)"
  unfolding sound_def using exposure_inv_set_run[of d i f] by auto

lemma sound_finish_clear:
  assumes d: "sound d" and i: "unfinished d i"
  shows "sound (finish i (clearExposing d))"
proof (cases "cdCrashed d")
  case False
  then have inv: "exposure_inv d" using d by (simp add: sound_def)
  have un: "unfinished (clearExposing d) j = unfinished d j" for j by (simp add: unfinished_def clearExposing_def)
  have len: "i < length (cdRuns (clearExposing d))" using i by (simp add: unfinished_def clearExposing_def)
  have "j = i" if "unfinished d j" for j using inv i that unfolding exposure_inv_def by (metis option.inject)
  then have "\<not> unfinished (finish i (clearExposing d)) j" for j
    unfolding finish_def unfinished_set_run[OF len] un by auto
  then have "exposure_inv (finish i (clearExposing d))"
    unfolding exposure_inv_def by (simp add: finish_def clearExposing_def)
  then show ?thesis by (simp add: sound_def)
qed (simp add: sound_def finish_def clearExposing_def)

lemma sound_run_step:
  assumes d: "sound d"
  shows "sound (run_step K e d)"
proof (rule run_step_cases[of d K e])
  fix i c assume "unfinished d i"
    and step: "run_step K e d = set_run i (\<lambda>r. r\<lparr>ruPhase := Fetching\<rparr>) (d\<lparr>cdCamera := c\<rparr>)"
  then have "unfinished (d\<lparr>cdCamera := c\<rparr>) i" by (simp add: unfinished_def)
  then show ?thesis unfolding step by (intro sound_set_run) (simp_all add: d)
next
  fix i assume "unfinished d i" and step: "exposure_same (finish i (clearExposing d)) (run_step K e d)"
  then show ?thesis unfolding sound_same[OF step] by (intro sound_finish_clear d)
qed (use d sound_set_run[of d] sound_same[of d] in \<open>simp_all add: finish_def sound_def\<close>)

lemma sound_shut_down: "sound d \<Longrightarrow> sound (d\<lparr>cdRuns := map (\<lambda>r. r\<lparr>ruCancelled := True\<rparr>) (cdRuns d)\<rparr>)"
proof -
  have "unfinished (d\<lparr>cdRuns := map (\<lambda>r. r\<lparr>ruCancelled := True\<rparr>) (cdRuns d)\<rparr>) i = unfinished d i" for i
    by (auto simp: unfinished_def)
  then show "sound d \<Longrightarrow> sound (d\<lparr>cdRuns := map (\<lambda>r. r\<lparr>ruCancelled := True\<rparr>) (cdRuns d)\<rparr>)"
    by (simp add: sound_def exposure_inv_def)
qed

lemma sound_running:
  "ccd_running pr K allowed name d \<Longrightarrow> allowed = patient K \<Longrightarrow> sound d"
proof (induction rule: ccd_running.induct)
  case (start c)
  have "sound \<lparr>cdName = name, cdCamera = c, cdProp = ccd_prop name, cdConnected = False, cdExposing = False,
      cdCancelExp = None, cdExposeDone = None, cdRuns = [], cdCrashed = False, cdPub = []\<rparr>"
    by (simp add: sound_def exposure_inv_def unfinished_def)
  then show ?case by (simp add: ccd_New_def Let_def)
next
  case (step d d')
  have "ccd_step pr K allowed d d' \<Longrightarrow> allowed = patient K \<Longrightarrow> sound d \<Longrightarrow> sound d'"
    by (induction rule: ccd_step.induct) (auto intro: sound_HandleNew sound_run_step sound_shut_down)
  then show ?case using step by simp
qed

lemma abort_quiet:
  "sound d \<Longrightarrow> patient K sched \<Longrightarrow> quiet d \<or> (\<exists>m\<in>set ms. nm_name m = ''ABORT'' \<and> On m) \<Longrightarrow>
    \<not> cdCrashed (abort_loop K (waiting K sched) ms d) \<Longrightarrow> quiet (abort_loop K (waiting K sched) ms d)"
proof (induction ms arbitrary: d)
  case (Cons m ms)
  let ?cam = "caOpen K (cdCamera d) = None"
  let ?stop = "stopExposure K (waiting K sched) ?cam d"
  let ?d1 = "if nm_name m = ''ABORT'' \<and> On m then conclude CExposure Idle ?stop else d"
  have s: "sound ?d1" using Cons.prems(1,2) by (simp add: sound_stop)
  have crash: "cdCrashed e \<Longrightarrow> cdCrashed (abort_loop K (waiting K sched) xs e)" for e xs
    by (induction xs arbitrary: e) (simp_all add: crashed_stop)
  then have ok: "\<not> cdCrashed ?d1" using Cons.prems(4) by (auto simp del: crashed_calls)
  have "quiet ?d1" if "nm_name m = ''ABORT'' \<and> On m"
  proof -
    have "\<not> cdCrashed ?stop" "\<not> cdCrashed d" using ok that crashed_stop[of d K sched ?cam] by auto
    then have "quiet ?stop" using Cons.prems(1,2) by (simp add: sound_def stopExposure_quiet)
    then show ?thesis using that quiet_same[of ?stop "conclude CExposure Idle ?stop"] by simp
  qed
  then have "quiet ?d1 \<or> (\<exists>m\<in>set ms. nm_name m = ''ABORT'' \<and> On m)" using Cons.prems(3) by auto
  then show ?case using Cons.IH[OF s Cons.prems(2)] Cons.prems(4) by simp
qed simp

text \<open>A camera that counts its aborts and whose images fail to arrive.\<close>

definition sample_camera :: "nat camera_ops" where
  "sample_camera =
     \<lparr>caOpen = (\<lambda>c. None), caPixelSizeUm = (\<lambda>c. (Fin 3, Fin 3)), caSize = (\<lambda>c. (2, 1)), caBitsPerPixel = (\<lambda>c. 16),
      caStartExposure = (\<lambda>secs c. (None, c)), caImageReady = (\<lambda>c. (True, c)),
      caFrame = (\<lambda>c. (Inl ''usb'', c)), caAbortExposure = (\<lambda>c. (None, Suc c)), caGain = None, caOffset = None,
      caSubframe = None\<rparr>"

definition request :: "string \<Rightarrow> string \<Rightarrow> NewMember" where
  "request name value = \<lparr>nm_name = name, nm_value = value\<rparr>"

lemma patient_ends: "patient K (\<lambda>i. [Seen i, Fetched i])"
proof -
  have fin: "\<not> unfinished (finish i d) i" for i and d :: "'a ccd_dev"
    by (simp add: unfinished_def finish_def set_run_def)
  have ended: "\<not> unfinished (run_frame K i d) i" if "\<not> cdCrashed (run_frame K i d)" for i d
    using that fin by (auto simp: run_frame_def split: prod.split sum.split option.split)
  show ?thesis unfolding patient_def
  proof (intro allI impI, elim conjE)
    fix i and d :: "'a ccd_dev"
    assume i: "i < length (cdRuns d)" "ruCancelled (cdRuns d ! i)" "\<not> cdCrashed (waiting K (\<lambda>i. [Seen i, Fetched i]) i d)"
    show "\<not> unfinished (waiting K (\<lambda>i. [Seen i, Fetched i]) i d) i"
    proof (cases "ruPhase (cdRuns d ! i)")
      case Waiting
      have "run_step K (Fetched i) (finish i d) = finish i d" using i(1) by (simp add: finish_def set_run_def)
      then show ?thesis using i Waiting fin by (auto simp: waiting_def run_cancelled_def crashed_stays split: if_splits)
    next
      case Fetching
      then show ?thesis using i ended by (auto simp: waiting_def split: if_splits)
    qed (use i in \<open>simp add: waiting_def unfinished_def\<close>)
  qed
qed

section \<open>Properties\<close>





text \<open>C31: A frame the camera delivers is published once, as a FITS file that decodes to the camera's
  samples and dimensions; then the exposure vector is Ok with no time left and the device is not
  exposing.\<close>

theorem frame_published:
  assumes "caFrame K (cdCamera d) = (Inr (w, h, px), c)" and "0 < w" and "0 < h" and "w * h \<le> 2 ^ 40"
    and "cdProp d CExposure = Some p"
  shows "\<exists>blob hdr. cdPub (run_frame K i d) = cdPub d @
      [PSendBLOB (cdName d) ''CCD1'' ''CCD1'' ''.fits'' blob,
       PUpdate (SetState Ok (SetNumber ''CCD_EXPOSURE_VALUE'' (Fin 0) p))] \<and>
    DecodeFITS blob = Inr \<lparr>frWidth = w, frHeight = h,
      frPix = map (frame_pixel (caBitsPerPixel K c) px) [0..<nat (w * h)], frBayer = False, frBayerX = 0, frBayerY = 0,
      frBitPix = (if caBitsPerPixel K c \<le> 8 then 8 else 16), frHeader = hdr\<rparr> \<and>
    \<not> cdExposing (run_frame K i d) \<and> cdCancelExp (run_frame K i d) = None \<and> cdCrashed (run_frame K i d) = cdCrashed d"
proof -
  obtain blob hdr where e: "encodeFITS w h (caBitsPerPixel K c) px = Some blob"
    and dec: "DecodeFITS blob = Inr \<lparr>frWidth = w, frHeight = h,
      frPix = map (frame_pixel (caBitsPerPixel K c) px) [0..<nat (w * h)], frBayer = False, frBayerX = 0, frBayerY = 0,
      frBitPix = (if caBitsPerPixel K c \<le> 8 then 8 else 16), frHeader = hdr\<rparr>"
    using encode_decoded[OF assms(2-4)] by blast
  then show ?thesis
    using assms(1,5)
    by (simp add: run_frame_def finish_def conclude_def refresh_def on_field_def clearExposing_def post_def set_run_def)
qed

definition picture_camera :: "nat camera_ops" where
  "picture_camera = sample_camera\<lparr>caFrame := (\<lambda>c. (Inr (2, 1, [1, 2, 3, 4]), c))\<rparr>"

theorem frame_published_witness:
  "\<exists>blob hdr p. cdPub (run_frame picture_camera 0 (ccd_New picture_camera ''CCD'' 0)) =
      [PSendBLOB ''CCD'' ''CCD1'' ''CCD1'' ''.fits'' blob, PUpdate p] \<and>
    DecodeFITS blob = Inr \<lparr>frWidth = 2, frHeight = 1, frPix = [0x0201, 0x0403], frBayer = False, frBayerX = 0,
      frBayerY = 0, frBitPix = 16, frHeader = hdr\<rparr>"
proof -
  let ?d = "ccd_New picture_camera ''CCD'' 0"
  have cam: "caFrame picture_camera (cdCamera ?d) = (Inr (2, 1, [1, 2, 3, 4]), 0)"
    "caBitsPerPixel picture_camera 0 = 16"
    by (simp_all add: picture_camera_def sample_camera_def ccd_New_def fillInfo_def on_field_def Let_def)
  have d: "cdName ?d = ''CCD''" "cdPub ?d = []" "cdProp ?d CExposure = Some (exposureProperty ''CCD'')"
    by (simp_all add: ccd_New_def picture_camera_def sample_camera_def fillInfo_def on_field_def Let_def)
  have px: "map (frame_pixel 16 [1, 2, 3, 4]) [0..<nat (2 * 1)] = [0x0201, 0x0403]" by code_simp
  show ?thesis using frame_published[OF cam(1) _ _ _ d(3), of 0] unfolding cam(2) d(1,2) px by auto
qed

text \<open>However the program runs, the camera's vectors are its own, under distinct names, its
  switch vectors obey their rules, and so does everything it publishes.\<close>

theorem ccd_vectors:
  assumes "ccd_running pr K allowed name d"
  shows "(\<forall>p\<in>set (ccd_Properties d). pDevice p = name \<and> switch_ok p) \<and> distinct (map pName (ccd_Properties d)) \<and>
    (\<forall>a\<in>set (cdPub d). update_ok name a)"
  using ccd_running_ok[OF assms] ccd_Properties_owned[OF ccd_running_ok[OF assms]] by (simp add: ccd_ok_def)

theorem ccd_vectors_witness:
  "distinct (map pName (ccd_Properties (ccd_New sample_camera ''CCD'' 0)))"
  using ccd_vectors[OF ccd_running.start[of "\<lambda>r. True" sample_camera "\<lambda>s. True"]] by blast

definition orphaned :: "nat ccd_dev" where
  "orphaned =
     run_step sample_camera (Fetched 0)
       (ccd_HandleNew (\<lambda>r. True) sample_camera (waiting sample_camera (\<lambda>i. [])) ''CCD_EXPOSURE''
         [request ''CCD_EXPOSURE_VALUE'' ''2'']
         (run_step sample_camera (Tick 0)
           (ccd_HandleNew (\<lambda>r. True) sample_camera (waiting sample_camera (\<lambda>i. [])) ''CCD_EXPOSURE''
             [request ''CCD_EXPOSURE_VALUE'' ''1''] (ccd_New sample_camera ''CCD'' 0))))"

text \<open>What the property says of it, computed at once.\<close>

definition exposure_view ::
  "'c ccd_dev \<Rightarrow> nat option \<times> nat option \<times> bool \<times> bool \<times> run \<times> State option" where
  "exposure_view d =
     (cdCancelExp d, cdExposeDone d, cdExposing d, cdCrashed d, cdRuns d ! 1, map_option pState (cdProp d CExposure))"

lemma orphaned_view:
  "exposure_view orphaned = (None, None, False, False, \<lparr>ruPhase = Waiting, ruCancelled = False\<rparr>, Some Alert)"
  by code_simp

lemma crashed_exposure: "cdCrashed d \<Longrightarrow> cdCrashed (handleExposure pr K (waiting K sched) ms d)"
proof (induction ms arbitrary: d)
  case (Cons m ms)
  then show ?case by (simp add: crashed_start split: option.split)
qed simp

lemma orphaned_running: "ccd_running (\<lambda>r. True) sample_camera (\<lambda>s. True) ''CCD'' orphaned"
proof -
  let ?n = "ccd_New sample_camera ''CCD'' 0"
  let ?h = "\<lambda>v. ccd_HandleNew (\<lambda>r. True) sample_camera (waiting sample_camera (\<lambda>i. [])) ''CCD_EXPOSURE''
         [request ''CCD_EXPOSURE_VALUE'' v]"
  have h: "\<not> cdCrashed (?h v d) \<Longrightarrow> \<not> cdCrashed d" for v d
    using crashed_exposure[of d] by (auto simp: ccd_HandleNew_def simp del: handleExposure.simps)
  have r: "\<not> cdCrashed (run_step sample_camera e d) \<Longrightarrow> \<not> cdCrashed d" for e d
    using crashed_stays[of d sample_camera e] by metis
  have "\<not> cdCrashed orphaned" using orphaned_view by (simp add: exposure_view_def)
  then have c: "\<not> cdCrashed (?h ''2'' (run_step sample_camera (Tick 0) (?h ''1'' ?n)))"
    unfolding orphaned_def by (rule r)
  note c = c h[OF c] r[OF h[OF c]] h[OF r[OF h[OF c]]]
  then show ?thesis unfolding orphaned_def
    by (intro ccd_running.step[OF _ ccd_step.goroutine] ccd_running.step[OF _ ccd_step.command] ccd_running.start TrueI)
qed

text \<open>C34: When a wait times out, the goroutine left behind erases the handle of the exposure started
  since: that exposure runs on, not cancelled, the device says Alert and does not know it, and an abort
  neither cancels it nor reaches the camera.\<close>

theorem exposure_orphaned:
  "ccd_running (\<lambda>r. True) sample_camera (\<lambda>s. True) ''CCD'' orphaned \<and>
   cdRuns orphaned ! 1 = \<lparr>ruPhase = Waiting, ruCancelled = False\<rparr> \<and>
   map_option pState (cdProp orphaned CExposure) = Some Alert \<and>
   (\<forall>sched. cdRuns (ccd_HandleNew (\<lambda>r. True) sample_camera (waiting sample_camera sched) ''CCD_ABORT_EXPOSURE''
        [request ''ABORT'' ''On''] orphaned) = cdRuns orphaned \<and>
      cdCamera (ccd_HandleNew (\<lambda>r. True) sample_camera (waiting sample_camera sched) ''CCD_ABORT_EXPOSURE''
        [request ''ABORT'' ''On''] orphaned) = cdCamera orphaned)"
proof -
  have o: "cdCancelExp orphaned = None" "cdExposeDone orphaned = None" "\<not> cdExposing orphaned"
    using orphaned_view by (simp_all add: exposure_view_def)
  have on: "nm_name (request ''ABORT'' ''On'') = ''ABORT'' \<and> On (request ''ABORT'' ''On'')" by code_simp
  have same: "cdRuns (conclude k s d) = cdRuns d" "cdCamera (conclude k s d) = cdCamera d"
    "cdRuns (on_field k f d) = cdRuns d" "cdCamera (on_field k f d) = cdCamera d" for k s f and d :: "nat ccd_dev"
    by (simp_all add: conclude_def refresh_def on_field_def post_def split: option.split)
  have "cdRuns (stopExposure K w b orphaned) = cdRuns orphaned" "cdCamera (stopExposure K w b orphaned) = cdCamera orphaned"
    for K w b by (simp_all add: stopExposure_def stop_begin_def o)
  then have "cdRuns (ccd_HandleNew (\<lambda>r. True) sample_camera (waiting sample_camera sched) ''CCD_ABORT_EXPOSURE''
        [request ''ABORT'' ''On''] orphaned) = cdRuns orphaned \<and>
      cdCamera (ccd_HandleNew (\<lambda>r. True) sample_camera (waiting sample_camera sched) ''CCD_ABORT_EXPOSURE''
        [request ''ABORT'' ''On''] orphaned) = cdCamera orphaned" for sched
    by (simp add: ccd_HandleNew_def same on)
  moreover have "cdRuns orphaned ! 1 = \<lparr>ruPhase = Waiting, ruCancelled = False\<rparr>"
    "map_option pState (cdProp orphaned CExposure) = Some Alert"
    using orphaned_view by (simp_all only: exposure_view_def prod.inject)
  ultimately show ?thesis using orphaned_running by blast
qed

end
