(* ===== verification/HubDevices.thy ===== *)
theory HubDevices
  imports MountDevice CcdExposure
begin

text \<open>
  A hub with its devices: mounts and cameras under one hub, clients' elements, the devices' own
  activity and the coming and going of connections in any order. The contract of \<open>DeviceContract\<close> for devices
  of two kinds is instantiated with the two models.
\<close>

section \<open>The hub with mounts and cameras\<close>

definition site_ops ::
  "(nat \<Rightarrow> bool) \<Rightarrow> 'm mount_ops \<Rightarrow> 'c camera_ops \<Rightarrow> (nat \<Rightarrow> run_event list) \<Rightarrow> ('m mount_dev + 'c ccd_dev) device_ops" where
  "site_ops pr KM KC sched = either_ops (mount_ops_of pr KM) (ccd_ops_of pr KC (waiting KC sched))"

definition site_inv :: "'m mount_dev + 'c ccd_dev \<Rightarrow> bool" where
  "site_inv = case_sum (\<lambda>d. mount_ok (mdName d) (mdDualAxisCap d) (d\<lparr>mdPub := []\<rparr>)) (\<lambda>d. ccd_ok (cdName d) (d\<lparr>cdPub := []\<rparr>))"

interpretation site: device_pair "mount_ops_of pr KM" "\<lambda>d. mount_ok (mdName d) (mdDualAxisCap d) (d\<lparr>mdPub := []\<rparr>)"
    "ccd_ops_of pr KC (waiting KC sched)" "\<lambda>d. ccd_ok (cdName d) (d\<lparr>cdPub := []\<rparr>)"
  for pr and KM :: "'m mount_ops" and KC :: "'c camera_ops" and sched
  by unfold_locales

text \<open>What devices do on their own is one of their steps; what they publish meanwhile is passed to
  the connections.\<close>

inductive site_step ::
  "env \<Rightarrow> 'm mount_ops \<Rightarrow> 'c camera_ops \<Rightarrow> ('m mount_dev + 'c ccd_dev) hub \<Rightarrow> ('m mount_dev + 'c ccd_dev) hub \<Rightarrow> bool"
  for E KM KC where
  inbound: "site_step E KM KC h (handle_elem E (site_ops (ePrint E) KM KC sched) i x h)"
| mount_acts: "k < length (hOrder h) \<Longrightarrow> hOrder h ! k = Inl d \<Longrightarrow> mount_step (ePrint E) KM (d\<lparr>mdPub := []\<rparr>) d' \<Longrightarrow>
    site_step E KM KC h (h\<lparr>hOrder := (hOrder h)[k := Inl (d'\<lparr>mdPub := []\<rparr>)],
      hConns := fold (publish E) (mdPub d') (hConns h)\<rparr>)"
| camera_acts: "k < length (hOrder h) \<Longrightarrow> hOrder h ! k = Inr d \<Longrightarrow> ccd_step (ePrint E) KC (\<lambda>s. True) (d\<lparr>cdPub := []\<rparr>) d' \<Longrightarrow>
    site_step E KM KC h (h\<lparr>hOrder := (hOrder h)[k := Inr (d'\<lparr>cdPub := []\<rparr>)],
      hConns := fold (publish E) (cdPub d') (hConns h)\<rparr>)"
| connections: "site_step E KM KC h (h\<lparr>hConns := cs\<rparr>)"
| add_mount: "AddDevice E (site_ops (ePrint E) KM KC sched) (Inl (mount_New KM n rate m)) h = Inr h' \<Longrightarrow> site_step E KM KC h h'"
| add_camera: "AddDevice E (site_ops (ePrint E) KM KC sched) (Inr (ccd_New KC n c)) h = Inr h' \<Longrightarrow> site_step E KM KC h h'"

inductive site_running ::
  "env \<Rightarrow> 'm mount_ops \<Rightarrow> 'c camera_ops \<Rightarrow> ('m mount_dev + 'c ccd_dev) hub \<Rightarrow> bool" for E KM KC where
  start: "site_running E KM KC New"
| step: "site_running E KM KC h \<Longrightarrow> site_step E KM KC h h' \<Longrightarrow> site_running E KM KC h'"

definition site_ok :: "'m mount_ops \<Rightarrow> 'c camera_ops \<Rightarrow> ('m mount_dev + 'c ccd_dev) hub \<Rightarrow> bool" where
  "site_ok KM KC h \<longleftrightarrow> indi_device.hub_ok (site_ops (\<lambda>r. True) KM KC (\<lambda>i. [])) site_inv h"

lemma site_name: "dName (site_ops pr KM KC sched) = case_sum mdName cdName"
  by (simp add: site_ops_def either_ops_def mount_ops_of_def ccd_ops_of_def)

lemma site_device: "indi_device (site_ops pr KM KC sched) site_inv"
  unfolding site_ops_def site_inv_def by (rule site.pair.indi_device_axioms)

lemma site_hub_ok: "indi_device.hub_ok (site_ops pr KM KC sched) site_inv h \<longleftrightarrow> site_ok KM KC h"
  unfolding site_ok_def indi_device.hub_ok_def[OF site_device] site_name by (rule refl)

lemma site_ok_elem: "site_ok KM KC h \<Longrightarrow> site_ok KM KC (handle_elem E (site_ops pr KM KC sched) i x h)"
  using indi_device.hub_ok_handle[OF site_device, of pr KM KC sched h E i x] by (simp only: site_hub_ok)

lemma site_ok_add:
  "site_ok KM KC h \<Longrightarrow> site_inv d \<Longrightarrow> AddDevice E (site_ops pr KM KC sched) d h = Inr h' \<Longrightarrow> site_ok KM KC h'"
  using indi_device.hub_ok_AddDevice[OF site_device, of pr KM KC sched h d E h'] by (simp only: site_hub_ok)

lemma site_ok_put:
  assumes "site_ok KM KC h" "k < length (hOrder h)" "site_inv d'" "case_sum mdName cdName d' = case_sum mdName cdName (hOrder h ! k)"
  shows "site_ok KM KC (h\<lparr>hOrder := (hOrder h)[k := d'], hConns := cs\<rparr>)"
  using indi_device.hub_ok_put[OF site_device, of "\<lambda>r. True" KM KC "\<lambda>i. []" h k d' cs] assms
  by (simp only: site_hub_ok site_name)

lemma site_inv_nth: "site_ok KM KC h \<Longrightarrow> k < length (hOrder h) \<Longrightarrow> site_inv (hOrder h ! k)"
  unfolding site_ok_def indi_device.hub_ok_def[OF site_device] by simp

lemma mount_acts_ok:
  assumes d: "site_inv (Inl d :: 'm mount_dev + 'c ccd_dev)" and s: "mount_step pr K (d\<lparr>mdPub := []\<rparr>) d'"
  shows "site_inv (Inl (d'\<lparr>mdPub := []\<rparr>) :: 'm mount_dev + 'c ccd_dev) \<and> mdName d' = mdName d"
proof -
  have "mount_ok (mdName d) (mdDualAxisCap d) (d\<lparr>mdPub := []\<rparr>)" using d by (simp add: site_inv_def)
  then have ok: "mount_ok (mdName d) (mdDualAxisCap d) d'" by (rule mount_step_ok[OF s])
  then have n: "mdName d' = mdName d" by (rule mount_ok_name)
  then show ?thesis using ok by (simp add: site_inv_def)
qed

lemma camera_acts_ok:
  assumes d: "site_inv (Inr d :: 'm mount_dev + 'c ccd_dev)" and s: "ccd_step pr K allowed (d\<lparr>cdPub := []\<rparr>) d'"
  shows "site_inv (Inr (d'\<lparr>cdPub := []\<rparr>) :: 'm mount_dev + 'c ccd_dev) \<and> cdName d' = cdName d"
proof -
  have "ccd_ok (cdName d) (d\<lparr>cdPub := []\<rparr>)" using d by (simp add: site_inv_def)
  then have ok: "ccd_ok (cdName d) d'" by (rule ccd_step_ok[OF s])
  then have n: "cdName d' = cdName d" by (simp add: ccd_ok_def)
  then show ?thesis using ok by (simp add: site_inv_def)
qed

lemma new_devices_ok: "site_inv (Inl (mount_New KM n rate m))" "site_inv (Inr (ccd_New KC n' c))"
proof -
  have m: "mount_ok n False (mount_New KM n rate m)" using mount_running.start by (rule mount_running_ok)
  then show "site_inv (Inl (mount_New KM n rate m))" using mount_ok_name[OF m] by (simp add: site_inv_def)
  have c: "ccd_ok n' (ccd_New KC n' c)" by (rule ok_ccd_New)
  then have "cdName (ccd_New KC n' c) = n'" by (simp add: ccd_ok_def)
  then show "site_inv (Inr (ccd_New KC n' c))" using c by (simp add: site_inv_def)
qed

lemma site_step_ok: "site_step E KM KC h h' \<Longrightarrow> site_ok KM KC h \<Longrightarrow> site_ok KM KC h'"
proof (induction rule: site_step.induct)
  case (inbound h sched i x)
  then show ?case by (rule site_ok_elem)
next
  case (mount_acts k h d d')
  note d = site_inv_nth[OF mount_acts(4,1), unfolded mount_acts(2)]
  from mount_acts_ok[OF d mount_acts(3)] show ?case
    using mount_acts(2) by (intro site_ok_put[OF mount_acts(4,1)]) simp_all
next
  case (camera_acts k h d d')
  note d = site_inv_nth[OF camera_acts(4,1), unfolded camera_acts(2)]
  from camera_acts_ok[OF d camera_acts(3)] show ?case
    using camera_acts(2) by (intro site_ok_put[OF camera_acts(4,1)]) simp_all
next
  case (connections h cs)
  then show ?case
    using indi_device.hub_ok_conns[OF site_device, of "\<lambda>r. True" KM KC "\<lambda>i. []" h cs] by (simp only: site_hub_ok)
next
  case (add_mount sched n rate m h h')
  show ?case by (rule site_ok_add[OF add_mount(2) new_devices_ok(1) add_mount(1)])
next
  case (add_camera sched n c h h')
  show ?case by (rule site_ok_add[OF add_camera(2) new_devices_ok(2) add_camera(1)])
qed

lemma site_running_ok: "site_running E KM KC h \<Longrightarrow> site_ok KM KC h"
proof (induction rule: site_running.induct)
  case start
  show ?case unfolding site_ok_def by (rule indi_device.hub_ok_New[OF site_device])
next
  case (step h h')
  then show ?case using site_step_ok by blast
qed

section \<open>Properties\<close>

text \<open>C20: A hub of mounts and cameras, whatever its clients send, its devices do and its connections
  become: a name a device is registered under finds the device of that name, and the vectors of
  every device are its own, under distinct names, with switches that obey their rules.\<close>

theorem site_safe:
  assumes "site_running E KM KC h"
  shows "(\<forall>n k. hDevices h n = Some k \<longrightarrow> k < length (hOrder h) \<and> dName (site_ops pr KM KC sched) (hOrder h ! k) = n) \<and>
    (\<forall>d\<in>set (hOrder h). (\<forall>p\<in>set (dProps (site_ops pr KM KC sched) d).
        pDevice p = dName (site_ops pr KM KC sched) d \<and> switch_ok p) \<and>
      distinct (map pName (dProps (site_ops pr KM KC sched) d)))"
proof -
  have ok: "indi_device.hub_ok (site_ops pr KM KC sched) site_inv h"
    using site_running_ok[OF assms] by (simp only: site_hub_ok)
  then show ?thesis
    using indi_device.owned[OF site_device, of _ _ pr KM KC sched] indi_device.names[OF site_device, of _ pr KM KC sched]
    unfolding indi_device.hub_ok_def[OF site_device] by blast
qed

theorem site_safe_witness:
  "\<exists>h. site_running sample_env sample_mount sample_camera h \<and> hDevices h ''Mount'' = Some 0 \<and> hDevices h ''CCD'' = Some 1 \<and>
    dName (site_ops (\<lambda>r. True) sample_mount sample_camera (\<lambda>i. [])) (hOrder h ! 1) = ''CCD''"
proof -
  let ?O = "site_ops (\<lambda>r. True) sample_mount sample_camera (\<lambda>i. [])"
  let ?m = "Inl (mount_New sample_mount ''Mount'' (Fin 1) [])" and ?c = "Inr (ccd_New sample_camera ''CCD'' 0)"
  have mn: "dName ?O ?m = ''Mount''" "dName ?O ?c = ''CCD''" unfolding site_name by code_simp+
  define h1 :: "((direction \<times> int) list mount_dev + nat ccd_dev) hub" where "h1 = New\<lparr>hDevices := [''Mount'' \<mapsto> 0], hOrder := [?m]\<rparr>"
  define h2 where "h2 = h1\<lparr>hDevices := [''Mount'' \<mapsto> 0, ''CCD'' \<mapsto> 1], hOrder := [?m, ?c]\<rparr>"
  have a1: "AddDevice sample_env ?O ?m New = Inr h1"
    by (simp add: AddDevice_def mn h1_def New_def)
  have a2: "AddDevice sample_env ?O ?c h1 = Inr h2"
    by (simp add: AddDevice_def mn h1_def h2_def New_def)
  have pr: "ePrint sample_env = (\<lambda>r. True)" by (simp add: sample_env_def)
  have run: "site_running sample_env sample_mount sample_camera h2"
    by (rule site_running.step[OF site_running.step[OF site_running.start
        site_step.add_mount[where E = sample_env and sched = "\<lambda>i. []", unfolded pr, OF a1]]
        site_step.add_camera[where E = sample_env and sched = "\<lambda>i. []", unfolded pr, OF a2]])
  from site_safe[OF run, of "\<lambda>r. True" "\<lambda>i. []"]
  have "hDevices h2 ''CCD'' = Some 1 \<Longrightarrow> dName ?O (hOrder h2 ! 1) = ''CCD''" by blast
  moreover have "hDevices h2 ''Mount'' = Some 0" "hDevices h2 ''CCD'' = Some 1" by (simp_all add: h2_def)
  ultimately show ?thesis using run by blast
qed

end
