(* ===== verification/ClientMirror.thy ===== *)
theory ClientMirror
  imports ServerStandard ServerXml ClientStore
begin

text \<open>
  From the server's property to the client's: what \<open>marshalDef\<close> and \<open>marshalSet\<close> of \<open>server/xml.go\<close>
  put on the wire and \<open>applyDef\<close> and \<open>applySet\<close> of \<open>client/client.go\<close> make of it. A client property
  mirrors a server property when it has its identity, state and members, each value as its text
  reads. Elements are compared as trees: a string is taken to arrive as it was sent, which
  is so for the characters XML admits.
\<close>

section \<open>The relation\<close>

definition member_mirrors :: "PropType \<Rightarrow> Member \<Rightarrow> cMember \<Rightarrow> bool" where
  "member_mirrors t m c \<longleftrightarrow>
     cmName c = mName m \<and> cmLabel c = mLabel m \<and>
     (case t of
        NumberType \<Rightarrow>
          cmValue c = TrimSpace (numVal (mNum m)) \<and> cmNum c = atof (TrimSpace (numVal (mNum m))) \<and>
          cmFormat c = orFmt (mFormat m) \<and> cmMin c = atof (numAttr (mMin m)) \<and> cmMax c = atof (numAttr (mMax m)) \<and>
          cmStep c = atof (numAttr (mStep m))
      | SwitchType \<Rightarrow> cmValue c = onoff (mOn m) \<and> cmOn c = mOn m
      | TextType \<Rightarrow> cmValue c = TrimSpace (mText m)
      | LightType \<Rightarrow> cmValue c = State_String (mLight m)
      | _ \<Rightarrow> True)"

definition mirrors :: "Property \<Rightarrow> cProperty \<Rightarrow> bool" where
  "mirrors p c \<longleftrightarrow>
     cpDevice c = pDevice p \<and> cpName c = pName p \<and> cpLabel c = pLabel p \<and> cpGroup c = pGroup p \<and>
     cpType c = PropType_String (pType p) \<and> cpState c = State_String (pState p) \<and>
     cpPerm c = (if pType p = LightType then [] else Perm_String (pPerm p)) \<and>
     cpRule c = (if pType p = SwitchType then SwitchRule_String (pRule p) else []) \<and>
     list_all2 (member_mirrors (pType p)) (pMembers p) (cpMembers c)"

section \<open>Definitions\<close>

lemma trim_words:
  "TrimSpace (onoff b) = onoff b" "isOn (onoff b) = b" "TrimSpace (State_String s) = State_String s"
proof -
  have "TrimSpace (onoff True) = onoff True" "TrimSpace (onoff False) = onoff False"
    "isOn (onoff True)" "\<not> isOn (onoff False)" by code_simp+
  then show "TrimSpace (onoff b) = onoff b" "isOn (onoff b) = b" by (cases b; simp)+
  have "TrimSpace ''Idle'' = ''Idle''" "TrimSpace ''Ok'' = ''Ok''" "TrimSpace ''Busy'' = ''Busy''"
    "TrimSpace ''Alert'' = ''Alert''" by code_simp+
  then show "TrimSpace (State_String s) = State_String s" by (cases s) simp_all
qed

lemma attr_names [simp]:
  "fst ` set (attr n v) = {n}" "fst ` set (attr_omitempty n v) = (if v = [] then {} else {n})"
  "fst ` set (attr_int_omitempty n i) = (if i = 0 then {} else {n})"
  by (simp_all add: attr_def attr_omitempty_def attr_int_omitempty_def)

lemma get_attr_other:
  "n \<noteq> k \<Longrightarrow> get_attr n (Elem e (attr k v) cs) = []" "n \<noteq> k \<Longrightarrow> get_attr n (Elem e (attr_omitempty k v) cs) = []"
  "n \<noteq> k \<Longrightarrow> get_attr n (Elem e (attr_int_omitempty k i) cs) = []"
  by (simp_all add: get_attr_def attr_def attr_omitempty_def attr_int_omitempty_def)

lemma def_vector_attrs:
  "get_attr ''device'' (xdefVector e p st perm rule ts ms) = pDevice p"
  "get_attr ''name'' (xdefVector e p st perm rule ts ms) = pName p"
  "get_attr ''label'' (xdefVector e p st perm rule ts ms) = pLabel p"
  "get_attr ''group'' (xdefVector e p st perm rule ts ms) = pGroup p"
  "get_attr ''state'' (xdefVector e p st perm rule ts ms) = State_String st"
  "get_attr ''perm'' (xdefVector e p st perm rule ts ms) = perm"
  "get_attr ''rule'' (xdefVector e p st perm rule ts ms) = rule"
  by (simp_all add: xdefVector_def get_attr_append get_attr_other image_Un)

lemma get_children_map:
  assumes "\<And>m. elem_name (f m) = k" and "\<And>m. \<exists>as cs. f m = Elem k as cs"
  shows "get_children n (Elem e as (map f ms)) = (if n = k then map f ms else [])"
proof -
  have "is_elem n (f m) \<longleftrightarrow> n = k" for m using assms(2)[of m] by auto
  then show ?thesis by (simp add: get_children_def filter_map comp_def)
qed

lemma def_members:
  "get_children n (Elem e as (map xdefNumber ms)) = (if n = ''defNumber'' then map xdefNumber ms else [])"
  "get_children n (Elem e as (map xdefSwitch ms)) = (if n = ''defSwitch'' then map xdefSwitch ms else [])"
  "get_children n (Elem e as (map xdefText ms)) = (if n = ''defText'' then map xdefText ms else [])"
  "get_children n (Elem e as (map xdefLight ms)) = (if n = ''defLight'' then map xdefLight ms else [])"
  "get_children n (Elem e as (map xdefBLOB ms)) = (if n = ''defBLOB'' then map xdefBLOB ms else [])"
  by (rule get_children_map; simp add: xdefNumber_def xdefSwitch_def xdefText_def xdefLight_def xdefBLOB_def)+

lemma def_member_fields:
  "wdmName (decode_wDefMember (xdefNumber m)) = mName m" "wdmLabel (decode_wDefMember (xdefNumber m)) = mLabel m"
  "wdmFormat (decode_wDefMember (xdefNumber m)) = orFmt (mFormat m)"
  "wdmMin (decode_wDefMember (xdefNumber m)) = numAttr (mMin m)"
  "wdmMax (decode_wDefMember (xdefNumber m)) = numAttr (mMax m)"
  "wdmStep (decode_wDefMember (xdefNumber m)) = numAttr (mStep m)"
  "wdmValue (decode_wDefMember (xdefNumber m)) = numVal (mNum m)"
  "wdmName (decode_wDefMember (xdefSwitch m)) = mName m" "wdmLabel (decode_wDefMember (xdefSwitch m)) = mLabel m"
  "wdmValue (decode_wDefMember (xdefSwitch m)) = onoff (mOn m)"
  "wdmName (decode_wDefMember (xdefText m)) = mName m" "wdmLabel (decode_wDefMember (xdefText m)) = mLabel m"
  "wdmValue (decode_wDefMember (xdefText m)) = mText m"
  "wdmName (decode_wDefMember (xdefLight m)) = mName m" "wdmLabel (decode_wDefMember (xdefLight m)) = mLabel m"
  "wdmValue (decode_wDefMember (xdefLight m)) = State_String (mLight m)"
  "wdmName (decode_wDefMember (xdefBLOB m)) = mName m" "wdmLabel (decode_wDefMember (xdefBLOB m)) = mLabel m"
  by (simp_all add: decode_wDefMember_def xdefNumber_def xdefSwitch_def xdefText_def xdefLight_def xdefBLOB_def
      get_attr_append get_attr_other image_Un get_text_def)

lemma def_member_mirrors:
  "member_mirrors NumberType m (def_number (decode_wDefMember (xdefNumber m)))"
  "member_mirrors SwitchType m (def_switch (decode_wDefMember (xdefSwitch m)))"
  "member_mirrors TextType m (def_text (decode_wDefMember (xdefText m)))"
  "member_mirrors LightType m (def_text (decode_wDefMember (xdefLight m)))"
  "member_mirrors BLOBType m (def_blob (decode_wDefMember (xdefBLOB m)))"
  by (simp_all add: member_mirrors_def def_number_def def_switch_def def_text_def def_blob_def def_member_fields trim_words Let_def)

lemma def_elem_types:
  "typeOf ''defNumberVector'' = ''Number''" "typeOf ''defSwitchVector'' = ''Switch''" "typeOf ''defTextVector'' = ''Text''"
  "typeOf ''defLightVector'' = ''Light''" "typeOf ''defBLOBVector'' = ''BLOB''"
  by code_simp+

lemma marshalDef_types:
  "pType p = NumberType \<Longrightarrow> marshalDef p ts =
     Inr (xdefVector ''defNumberVector'' p (pState p) (Perm_String (pPerm p)) [] ts (map xdefNumber (pMembers p)))"
  "pType p = SwitchType \<Longrightarrow> marshalDef p ts =
     Inr (xdefVector ''defSwitchVector'' p (pState p) (Perm_String (pPerm p)) (SwitchRule_String (pRule p)) ts
       (map xdefSwitch (pMembers p)))"
  "pType p = TextType \<Longrightarrow> marshalDef p ts =
     Inr (xdefVector ''defTextVector'' p (pState p) (Perm_String (pPerm p)) [] ts (map xdefText (pMembers p)))"
  "pType p = BLOBType \<Longrightarrow> marshalDef p ts =
     Inr (xdefVector ''defBLOBVector'' p (pState p) (Perm_String (pPerm p)) [] ts (map xdefBLOB (pMembers p)))"
  "pType p = LightType \<Longrightarrow> marshalDef p ts =
     Inr (xdefVector ''defLightVector'' p (pState p) [] [] ts (map xdefLight (pMembers p)))"
  "pType p = UnknownType n \<Longrightarrow> marshalDef p ts \<noteq> Inr x"
  by (simp_all add: marshalDef_def snapshot_def)

lemma marshalDef_form:
  assumes "marshalDef p ts = Inr x"
  obtains e perm rule ms where "x = xdefVector e p (pState p) perm rule ts ms" "e \<in> set def_elems"
proof -
  have e: "''defNumberVector'' \<in> set def_elems" "''defSwitchVector'' \<in> set def_elems" "''defTextVector'' \<in> set def_elems"
    "''defBLOBVector'' \<in> set def_elems" "''defLightVector'' \<in> set def_elems" by (simp_all add: def_elems_def)
  show thesis
  proof (cases "pType p")
    case NumberType
    then show ?thesis using marshalDef_types(1)[of p ts] assms that[OF _ e(1)] by simp
  next
    case SwitchType
    then show ?thesis using marshalDef_types(2)[of p ts] assms that[OF _ e(2)] by simp
  next
    case TextType
    then show ?thesis using marshalDef_types(3)[of p ts] assms that[OF _ e(3)] by simp
  next
    case BLOBType
    then show ?thesis using marshalDef_types(4)[of p ts] assms that[OF _ e(4)] by simp
  next
    case LightType
    then show ?thesis using marshalDef_types(5)[of p ts] assms that[OF _ e(5)] by simp
  qed (use assms marshalDef_types(6) in blast)
qed

lemma decode_def_vector:
  "wdDevice (decode_wDefVector (xdefVector e p st perm rule ts ms)) = pDevice p"
  "wdName (decode_wDefVector (xdefVector e p st perm rule ts ms)) = pName p"
  "wdLabel (decode_wDefVector (xdefVector e p st perm rule ts ms)) = pLabel p"
  "wdGroup (decode_wDefVector (xdefVector e p st perm rule ts ms)) = pGroup p"
  "wdState (decode_wDefVector (xdefVector e p st perm rule ts ms)) = State_String st"
  "wdPerm (decode_wDefVector (xdefVector e p st perm rule ts ms)) = perm"
  "wdRule (decode_wDefVector (xdefVector e p st perm rule ts ms)) = rule"
  "elem_name (xdefVector e p st perm rule ts ms) = e"
  by (simp_all add: decode_wDefVector_def def_vector_attrs) (simp add: xdefVector_def)

lemma decoded_members:
  "cpMembers (def_property e (decode_wDefVector (xdefVector n p st perm rule ts (map xdefNumber ms)))) =
     map (def_number \<circ> decode_wDefMember \<circ> xdefNumber) ms"
  "cpMembers (def_property e (decode_wDefVector (xdefVector n p st perm rule ts (map xdefSwitch ms)))) =
     map (def_switch \<circ> decode_wDefMember \<circ> xdefSwitch) ms"
  "cpMembers (def_property e (decode_wDefVector (xdefVector n p st perm rule ts (map xdefText ms)))) =
     map (def_text \<circ> decode_wDefMember \<circ> xdefText) ms"
  "cpMembers (def_property e (decode_wDefVector (xdefVector n p st perm rule ts (map xdefLight ms)))) =
     map (def_text \<circ> decode_wDefMember \<circ> xdefLight) ms"
  "cpMembers (def_property e (decode_wDefVector (xdefVector n p st perm rule ts (map xdefBLOB ms)))) =
     map (def_blob \<circ> decode_wDefMember \<circ> xdefBLOB) ms"
  by (simp_all add: def_property_def decode_wDefVector_def xdefVector_def def_members)

lemma def_property_fields:
  "cpLabel (def_property e v) = wdLabel v" "cpGroup (def_property e v) = wdGroup v" "cpType (def_property e v) = typeOf e"
  "cpState (def_property e v) = wdState v" "cpPerm (def_property e v) = wdPerm v" "cpRule (def_property e v) = wdRule v"
  by (simp_all add: def_property_def)

lemma def_mirrors:
  assumes "marshalDef p ts = Inr x"
  shows "elem_name x \<in> set def_elems" and "wdDevice (decode_wDefVector x) = pDevice p" and "wdName (decode_wDefVector x) = pName p"
    and "mirrors p (def_property (elem_name x) (decode_wDefVector x))"
proof -
  obtain e perm rule ms where x: "x = xdefVector e p (pState p) perm rule ts ms" "e \<in> set def_elems"
    using marshalDef_form[OF assms] .
  show "elem_name x \<in> set def_elems" "wdDevice (decode_wDefVector x) = pDevice p" "wdName (decode_wDefVector x) = pName p"
    using x by (simp_all add: decode_def_vector)
  note facts = mirrors_def def_property_fields decode_def_vector decoded_members def_elem_types list_all2_map2
    list_all2_same def_member_mirrors comp_def
  show "mirrors p (def_property (elem_name x) (decode_wDefVector x))"
  proof (cases "pType p")
    case NumberType
    then show ?thesis using assms by (auto simp: marshalDef_types(1) facts)
  next
    case SwitchType
    then show ?thesis using assms by (auto simp: marshalDef_types(2) facts)
  next
    case TextType
    then show ?thesis using assms by (auto simp: marshalDef_types(3) facts)
  next
    case BLOBType
    then show ?thesis using assms by (auto simp: marshalDef_types(4) facts)
  next
    case LightType
    then show ?thesis using assms by (auto simp: marshalDef_types(5) facts)
  qed (use assms marshalDef_types(6) in blast)
qed

section \<open>Updates\<close>

text \<open>The text of a member in an update, and the child elements that carry it.\<close>

definition value_text :: "PropType \<Rightarrow> Member \<Rightarrow> string" where
  "value_text t m =
     (case t of NumberType \<Rightarrow> numVal (mNum m) | SwitchType \<Rightarrow> onoff (mOn m) | TextType \<Rightarrow> mText m
      | _ \<Rightarrow> State_String (mLight m))"

lemma State_String_ne [simp]: "State_String s \<noteq> []"
  by (cases s) simp_all

lemma set_vector_attrs:
  "get_attr ''device'' (xsetVector e p st ts ms) = pDevice p" "get_attr ''name'' (xsetVector e p st ts ms) = pName p"
  "get_attr ''state'' (xsetVector e p st ts ms) = State_String st" "get_attr ''message'' (xsetVector e p st ts ms) = []"
  by (simp_all add: xsetVector_def get_attr_append get_attr_other image_Un)

lemma set_children:
  "get_children n (xsetVector e p st ts (map (\<lambda>m. xone k m (f m)) ms)) =
     (if n = k then map (\<lambda>m. xone k m (f m)) ms else [])"
  unfolding xsetVector_def by (rule get_children_map) (simp_all add: xone_def)

lemma decode_xone: "decode_wOne (xone k m v) = \<lparr>woName = mName m, woValue = v\<rparr>"
  by (simp add: decode_wOne_def xone_def get_text_def)

definition ones_of :: "Property \<Rightarrow> wOne list" where
  "ones_of p = map (\<lambda>m. \<lparr>woName = mName m, woValue = value_text (pType p) m\<rparr>) (pMembers p)"

lemma marshalSet_decoded:
  assumes "marshalSet p ts = Inr y"
  shows "elem_name y \<in> set set_elems" and "pType p \<noteq> BLOBType"
    and "decode_wSetVector y = \<lparr>wsDevice = pDevice p, wsName = pName p, wsState = State_String (pState p), wsMessage = [],
      wsNumbers = (if pType p = NumberType then ones_of p else []), wsSwitches = (if pType p = SwitchType then ones_of p else []),
      wsTexts = (if pType p = TextType then ones_of p else []), wsLights = (if pType p = LightType then ones_of p else [])\<rparr>"
proof -
  consider "pType p = NumberType" "y = xsetVector ''setNumberVector'' p (pState p) ts (map (\<lambda>m. xone ''oneNumber'' m (numVal (mNum m))) (pMembers p))"
    | "pType p = SwitchType" "y = xsetVector ''setSwitchVector'' p (pState p) ts (map (\<lambda>m. xone ''oneSwitch'' m (onoff (mOn m))) (pMembers p))"
    | "pType p = TextType" "y = xsetVector ''setTextVector'' p (pState p) ts (map (\<lambda>m. xone ''oneText'' m (mText m)) (pMembers p))"
    | "pType p = LightType" "y = xsetVector ''setLightVector'' p (pState p) ts (map (\<lambda>m. xone ''oneLight'' m (State_String (mLight m))) (pMembers p))"
    using assms by (cases "pType p") (simp_all add: marshalSet_def snapshot_def)
  note cases = this
  have "elem_name (xsetVector e p st ts ms) = e" for e st ts ms by (simp add: xsetVector_def)
  then show "elem_name y \<in> set set_elems" by (cases rule: cases) (simp_all add: set_elems_def)
  show "pType p \<noteq> BLOBType" by (cases rule: cases) simp_all
  show "decode_wSetVector y = \<lparr>wsDevice = pDevice p, wsName = pName p, wsState = State_String (pState p), wsMessage = [],
      wsNumbers = (if pType p = NumberType then ones_of p else []), wsSwitches = (if pType p = SwitchType then ones_of p else []),
      wsTexts = (if pType p = TextType then ones_of p else []), wsLights = (if pType p = LightType then ones_of p else [])\<rparr>"
    by (cases rule: cases)
      (simp_all add: decode_wSetVector_def set_vector_attrs set_children decode_xone ones_of_def value_text_def comp_def)
qed

lemma last_value_ones:
  assumes "distinct (map mName (pMembers p))" and "m \<in> set (pMembers p)"
  shows "last_value (ones_of p) (mName m) = Some (value_text (pType p) m)"
  unfolding last_value_def
proof (rule map_of_is_SomeI)
  show "distinct (map fst (rev (map (\<lambda>q. (woName q, woValue q)) (ones_of p))))"
    using assms(1) by (simp add: ones_of_def comp_def rev_map[symmetric])
  show "(mName m, value_text (pType p) m) \<in> set (rev (map (\<lambda>q. (woName q, woValue q)) (ones_of p)))"
    using assms(2) by (auto simp: ones_of_def)
qed

lemma fixed_member_parts:
  assumes "fixed_member m' = fixed_member m"
  shows "mName m' = mName m" "mLabel m' = mLabel m" "mFormat m' = mFormat m" "mMin m' = mMin m" "mMax m' = mMax m" "mStep m' = mStep m"
proof -
  have "mName (fixed_member q) = mName q" "mLabel (fixed_member q) = mLabel q" "mFormat (fixed_member q) = mFormat q"
    "mMin (fixed_member q) = mMin q" "mMax (fixed_member q) = mMax q" "mStep (fixed_member q) = mStep q" for q
    by (simp_all add: fixed_member_def)
  then show "mName m' = mName m" "mLabel m' = mLabel m" "mFormat m' = mFormat m" "mMin m' = mMin m" "mMax m' = mMax m"
    "mStep m' = mStep m" using assms by metis+
qed

lemma set_member_mirrors:
  assumes "member_mirrors t m c" and "fixed_member m' = fixed_member m" and "t \<noteq> BLOBType"
  shows "member_mirrors t m' (set_value (value_text t m') c)"
  using assms(1,3) fixed_member_parts[OF assms(2)]
  by (cases t) (simp_all add: member_mirrors_def set_value_def value_text_def trim_words)

lemma set_mirrors:
  assumes y: "marshalSet p' ts = Inr y" and c: "mirrors p c" and shape: "shape p' = shape p"
    and names: "distinct (map mName (pMembers p'))"
  shows "mirrors p' (set_property (decode_wSetVector y) c)"
proof -
  note parts = shape_parts[OF shape]
  have fixed: "map fixed_member (pMembers p') = map fixed_member (pMembers p)"
    and lab: "pLabel p' = pLabel p" "pGroup p' = pGroup p"
  proof -
    have "pMembers (shape r) = map fixed_member (pMembers r)" "pLabel (shape r) = pLabel r" "pGroup (shape r) = pGroup r" for r
      by (simp_all add: shape_def)
    then show "map fixed_member (pMembers p') = map fixed_member (pMembers p)" "pLabel p' = pLabel p" "pGroup p' = pGroup p"
      using shape by metis+
  qed
  have len: "length (pMembers p') = length (pMembers p)" using fixed by (metis length_map)
  have ones: "wsNumbers (decode_wSetVector y) @ wsSwitches (decode_wSetVector y) @ wsTexts (decode_wSetVector y) @
      wsLights (decode_wSetVector y) = ones_of p'"
  proof (cases "pType p'")
    case (UnknownType n)
    then show ?thesis using y by (simp add: marshalSet_def)
  qed (use marshalSet_decoded(2,3)[OF y] in simp_all)
  have "list_all2 (member_mirrors (pType p')) (pMembers p') (map (set_last (ones_of p')) (cpMembers c))"
    unfolding list_all2_conv_all_nth
  proof (intro conjI allI impI)
    have old: "list_all2 (member_mirrors (pType p')) (pMembers p) (cpMembers c)" using c parts(3) by (simp add: mirrors_def)
    then show "length (pMembers p') = length (map (set_last (ones_of p')) (cpMembers c))"
      using len by (simp add: list_all2_lengthD)
    fix i assume i: "i < length (pMembers p')"
    have m: "member_mirrors (pType p') (pMembers p ! i) (cpMembers c ! i)"
      using old i len by (simp add: list_all2_conv_all_nth)
    have f: "fixed_member (pMembers p' ! i) = fixed_member (pMembers p ! i)"
      using fixed i len by (metis nth_map)
    have n: "cmName (cpMembers c ! i) = mName (pMembers p' ! i)"
      using m fixed_member_parts(1)[OF f] by (simp add: member_mirrors_def)
    have "set_last (ones_of p') (cpMembers c ! i) = set_value (value_text (pType p') (pMembers p' ! i)) (cpMembers c ! i)"
      using last_value_ones[OF names, of "pMembers p' ! i"] i by (simp add: set_last_def n)
    then show "member_mirrors (pType p') (pMembers p' ! i) (map (set_last (ones_of p')) (cpMembers c) ! i)"
      using set_member_mirrors[OF m f marshalSet_decoded(2)[OF y]] i old len by (simp add: list_all2_lengthD)
  qed
  then show ?thesis
    using c parts lab ones marshalSet_decoded(3)[OF y]
    by (simp add: mirrors_def set_property_def Let_def foldl_upd)
qed

section \<open>A stream of elements\<close>

text \<open>What the server has announced of a vector once the elements \<open>xs\<close> are sent: it was defined,
  then updated any number of times with its fixed part unchanged, among elements about other
  vectors and messages.\<close>

definition foreign :: "string \<Rightarrow> string \<Rightarrow> xml \<Rightarrow> bool" where
  "foreign dev name y \<longleftrightarrow>
     elem_name y \<noteq> ''setBLOBVector'' \<and>
     (elem_name y \<in> set def_elems \<union> set set_elems \<longrightarrow> get_attr ''device'' y \<noteq> dev \<or> get_attr ''name'' y \<noteq> name) \<and>
     (elem_name y = ''delProperty'' \<longrightarrow>
        get_attr ''device'' y \<noteq> dev \<or> get_attr ''name'' y \<noteq> [] \<and> get_attr ''name'' y \<noteq> name)"

inductive announced :: "xml list \<Rightarrow> Property \<Rightarrow> bool" where
  defined: "marshalDef p ts = Inr x \<Longrightarrow> announced (xs @ [x]) p"
| updated: "announced xs p \<Longrightarrow> marshalSet p' ts = Inr y \<Longrightarrow> shape p' = shape p \<Longrightarrow> announced (xs @ [y]) p'"
| others: "announced xs p \<Longrightarrow> foreign (pDevice p) (pName p) y \<Longrightarrow> announced (xs @ [y]) p"

definition tracks :: "Property \<Rightarrow> client \<Rightarrow> bool" where
  "tracks p c \<longleftrightarrow> (\<exists>q. cl_Property c (pDevice p) (pName p) = Some q \<and> mirrors p q)"

lemma read_elem_defines: "elem_name x \<in> set def_elems \<Longrightarrow> read_elem blob x c = applyDef (elem_name x) (decode_wDefVector x) c"
  by (simp add: read_elem_def Let_def)

lemma read_elem_set: "elem_name x \<in> set set_elems \<Longrightarrow> read_elem blob x c = applySet (decode_wSetVector x) c"
  by (auto simp: read_elem_def Let_def def_elems_def set_elems_def)

lemma mirrors_rev: "mirrors p (q\<lparr>cpRev := r\<rparr>) = mirrors p q"
  by (simp add: mirrors_def)

lemma tracks_defined:
  assumes "marshalDef p ts = Inr x"
  shows "tracks p (read_elem blob x c)"
  unfolding tracks_def read_elem_defines[OF def_mirrors(1)[OF assms]] cl_Property_applyDef
  by (simp add: def_mirrors(2-4)[OF assms] mirrors_rev)

lemma tracks_set:
  assumes t: "tracks p c" and y: "marshalSet p' ts = Inr y" and s: "shape p' = shape p" and n: "distinct (map mName (pMembers p'))"
  shows "tracks p' (read_elem blob y c)"
proof -
  obtain q where q: "cl_Property c (pDevice p) (pName p) = Some q" "mirrors p q" using t by (auto simp: tracks_def)
  have "mirrors p' (set_property (decode_wSetVector y) q)" by (rule set_mirrors[OF y q(2) s n])
  then show ?thesis
    unfolding tracks_def read_elem_set[OF marshalSet_decoded(1)[OF y]] cl_Property_applySet
    using q(1) marshalSet_decoded(3)[OF y] shape_parts(1,2)[OF s] by simp
qed

lemma cl_Property_addMessage: "cl_Property (addMessage m c) = cl_Property c"
  by (intro ext) (simp add: cl_Property_def addMessage_def)

lemma foreign_same:
  assumes "foreign d n y"
  shows "cl_Property (read_elem blob y c) d n = cl_Property c d n"
  using assms
  by (auto simp: foreign_def read_elem_def Let_def cl_Property_applyDef cl_Property_applySet cl_Property_applyDel
      cl_Property_addMessage decode_wDefVector_def decode_wSetVector_def decode_wDelProperty_def)

lemma announced_tracks:
  "announced xs p \<Longrightarrow> distinct (map mName (pMembers p)) \<Longrightarrow> tracks p (fold (read_elem blob) xs c)"
proof (induction rule: announced.induct)
  case (defined p ts x xs)
  then show ?case by (simp add: tracks_defined)
next
  case (updated xs p p' ts y)
  have "distinct (map mName (pMembers p))" using updated.prems shape_parts(6)[OF updated.hyps(3)] by simp
  then show ?case using tracks_set[OF updated.IH updated.hyps(2,3) updated.prems] by simp
next
  case (others xs p y)
  then show ?case using foreign_same[OF others.hyps(2)] by (simp add: tracks_def)
qed

section \<open>Properties\<close>

text \<open>C11: A client that reads what the server sends has, for every vector announced to it, a copy that
  mirrors the vector as last announced: its identity, permission, rule and state, and every
  member's name, limits and value, whatever is sent about other vectors in between.\<close>

theorem client_mirrors:
  assumes "announced xs p" and "distinct (map mName (pMembers p))"
  shows "\<exists>q. cl_Property (fold (read_elem blob) xs c) (pDevice p) (pName p) = Some q \<and> mirrors p q"
  using announced_tracks[OF assms, of blob c] by (simp add: tracks_def)

theorem client_mirrors_witness:
  "\<exists>x y q. marshalDef (ConnectionProperty ''CCD'') ''t'' = Inr x \<and>
     marshalSet (SetSwitch ''CONNECT'' True (ConnectionProperty ''CCD'')) ''t'' = Inr y \<and>
     cl_Property (fold (read_elem (\<lambda>x c. c)) [x, xmessage ''CCD'' ''t'' ''hello'', y] newClient) ''CCD'' ''CONNECTION'' = Some q \<and>
     mirrors (SetSwitch ''CONNECT'' True (ConnectionProperty ''CCD'')) q"
proof -
  let ?p = "ConnectionProperty ''CCD''" and ?p' = "SetSwitch ''CONNECT'' True (ConnectionProperty ''CCD'')"
  have t: "pType ?p = SwitchType" "pType ?p' = SwitchType" "pDevice ?p = ''CCD''" "pName ?p = ''CONNECTION''"
    "pDevice ?p' = ''CCD''" "pName ?p' = ''CONNECTION''" "distinct (map mName (pMembers ?p'))" by code_simp+
  obtain x y where x: "marshalDef ?p ''t'' = Inr x" and y: "marshalSet ?p' ''t'' = Inr y"
    using t(1,2) by (simp add: marshalDef_def marshalSet_def snapshot_def)
  have "foreign (pDevice ?p) (pName ?p) (xmessage ''CCD'' ''t'' ''hello'')" by code_simp
  then have "announced ([] @ [x] @ [xmessage ''CCD'' ''t'' ''hello''] @ [y]) ?p'"
    using announced.updated[OF announced.others[OF announced.defined[OF x, of "[]"]] y] by simp
  from client_mirrors[OF this t(7), of "\<lambda>x c. c" newClient] show ?thesis using x y t(5,6) by auto
qed

end
