(* ===== verification/DeviceMirror.thy ===== *)
theory DeviceMirror
  imports ClientMirror MountDevice
begin

text \<open>
  A client beside a device: the elements the publications of a device become, and what a client
  that reads them sees of the device. The mount keeps its clients informed: whatever a command,
  a goroutine or a poll changes in its vectors it also publishes, so that a client which saw
  the mount before sees it afterwards.
\<close>

section \<open>What a client sees of a device\<close>

text \<open>A client sees the vectors of a device when it has these and no others, each mirrored.\<close>

definition sees :: "client \<Rightarrow> string \<Rightarrow> Property list \<Rightarrow> bool" where
  "sees c dev ps \<longleftrightarrow>
     (\<forall>p\<in>set ps. \<exists>q. cl_Property c dev (pName p) = Some q \<and> mirrors p q) \<and>
     (\<forall>n. cl_Property c dev n \<noteq> None \<longrightarrow> n \<in> pName ` set ps)"

text \<open>A client that knew nothing of a device and has read the definitions of its vectors, as the hub
  answers \<open>getProperties\<close>, sees the device.\<close>

lemma stranger_sees:
  assumes "list_all2 (\<lambda>p x. \<exists>ts. marshalDef p ts = Inr x) ps xs" and "distinct (map pName ps)"
    and "\<forall>p\<in>set ps. pDevice p = dev" and new: "\<And>n. cl_Property c dev n = None"
  shows "sees (fold (read_elem blob) xs c) dev ps"
  using assms(1-3)
proof (induction ps arbitrary: xs rule: rev_induct)
  case Nil
  then show ?case by (simp add: sees_def new)
next
  case (snoc p ps)
  obtain ys x ts where xs: "xs = ys @ [x]" and x: "marshalDef p ts = Inr x"
    and ys: "list_all2 (\<lambda>p x. \<exists>ts. marshalDef p ts = Inr x) ps ys"
    using snoc.prems(1) by (auto simp: list_all2_append1 list_all2_Cons1)
  let ?c = "fold (read_elem blob) ys c"
  have c: "sees ?c dev ps" using snoc.IH[OF ys] snoc.prems(2,3) by simp
  have r: "read_elem blob x ?c = applyDef (elem_name x) (decode_wDefVector x) ?c"
    by (rule read_elem_defines[OF def_mirrors(1)[OF x]])
  have d: "pDevice p = dev" using snoc.prems(3) by simp
  have t: "tracks p (read_elem blob x ?c)" by (rule tracks_defined[OF x])
  have other: "cl_Property (read_elem blob x ?c) dev n = cl_Property ?c dev n" if "n \<noteq> pName p" for n
    using that by (simp add: r cl_Property_applyDef def_mirrors(2,3)[OF x] d)
  have "pName p \<notin> pName ` set ps" using snoc.prems(2) by simp
  then have differ: "pName p' \<noteq> pName p" if "p' \<in> set ps" for p' using that by (metis image_eqI)
  have "\<exists>q. cl_Property (read_elem blob x ?c) dev (pName p') = Some q \<and> mirrors p' q" if "p' \<in> set (ps @ [p])" for p'
    using c t d other differ that unfolding sees_def tracks_def by (cases "p' = p") auto
  moreover have "n \<in> pName ` set (ps @ [p])" if "cl_Property (read_elem blob x ?c) dev n \<noteq> None" for n
    using c other that unfolding sees_def by (cases "n = pName p") auto
  ultimately show ?case by (simp add: sees_def xs)
qed

lemma newcomer_sees:
  assumes "list_all2 (\<lambda>p x. \<exists>ts. marshalDef p ts = Inr x) ps xs" and "distinct (map pName ps)"
    and "\<forall>p\<in>set ps. pDevice p = dev"
  shows "sees (fold (read_elem blob) xs newClient) dev ps"
  by (rule stranger_sees[OF assms]) (simp add: cl_Property_def newClient_def)

lemma marshalDef_known: "(\<And>n. pType p \<noteq> UnknownType n) \<Longrightarrow> \<exists>x. marshalDef p ts = Inr x"
  by (cases "pType p") (auto simp: marshalDef_types)

lemma marshalled:
  "list_all (\<lambda>p. case pType p of UnknownType n \<Rightarrow> False | _ \<Rightarrow> True) ps \<Longrightarrow>
    list_all2 (\<lambda>p x. \<exists>ts. marshalDef p ts = Inr x) ps (map (\<lambda>p. projr (marshalDef p ts')) ps)"
proof (induction ps)
  case (Cons p ps)
  have "\<exists>x. marshalDef p ts' = Inr x" using Cons.prems by (intro marshalDef_known) auto
  then have "\<exists>ts. marshalDef p ts = Inr (projr (marshalDef p ts'))" by (metis sum.sel(2))
  then show ?case using Cons by simp
qed simp

section \<open>Publications as elements\<close>

text \<open>The element that \<open>Define\<close>, \<open>Update\<close>, \<open>Message\<close> and \<open>Delete\<close> marshal; BLOBs go as bytes.\<close>

fun pub_elem :: "string \<Rightarrow> publication \<Rightarrow> xml option" where
  "pub_elem ts (PDefine p) = (case marshalDef p ts of Inr x \<Rightarrow> Some x | Inl _ \<Rightarrow> None)"
| "pub_elem ts (PUpdate p) = (case marshalSet p ts of Inr x \<Rightarrow> Some x | Inl _ \<Rightarrow> None)"
| "pub_elem ts (PMessage dev msg) = Some (xmessage dev ts msg)"
| "pub_elem ts (PDelete dev name) = Some (xdelProperty dev name ts)"
| "pub_elem ts _ = None"

lemma pub_elem_message:
  "pub_elem (eNow E) a = Some x \<Longrightarrow> \<exists>dev name kind. pub_message E a = Some (frame (xml_bytes x), dev, name, kind)"
  by (cases a) (auto split: sum.splits)

definition told :: "string \<Rightarrow> (xml \<Rightarrow> client \<Rightarrow> client) \<Rightarrow> publication list \<Rightarrow> client \<Rightarrow> client" where
  "told ts blob as c = fold (read_elem blob) (List.map_filter (pub_elem ts) as) c"

lemma told_append: "told ts blob (as @ [a]) c =
    (case pub_elem ts a of Some x \<Rightarrow> read_elem blob x (told ts blob as c) | None \<Rightarrow> told ts blob as c)"
  by (simp add: told_def List.map_filter_def split: option.split)

lemma told_Nil [simp]: "told ts blob [] c = c"
  by (simp add: told_def List.map_filter_def)

lemma told_messages:
  "cl_Property (read_elem blob (xmessage dev ts msg) c) = cl_Property c"
  "cl_Property (read_elem blob (xdelProperty dev name ts) c) d m =
     (if d = dev \<and> (name = [] \<or> m = name) then None else cl_Property c d m)"
  by (auto simp: read_elem_def xmessage_def xdelProperty_def def_elems_def set_elems_def Let_def cl_Property_addMessage
      cl_Property_applyDel decode_wDelProperty_def get_attr_append get_attr_other image_Un)

section \<open>The mount's vectors\<close>

definition mount_name :: "mount_field \<Rightarrow> string" where
  "mount_name k = pName (mount_prop [] (Fin 0) k)"

lemma mount_names_differ: "mount_name j = mount_name k \<longleftrightarrow> j = k"
  by (cases j; cases k) (simp_all add: mount_name_def standard_defs member_defs)

lemma mount_prop_facts:
  "pName (mount_prop n r k) = mount_name k" "distinct (map mName (pMembers (mount_prop n r k)))"
  "pType (mount_prop n r k) \<in> {NumberType, SwitchType, TextType}"
  by (cases k; simp add: mount_name_def standard_defs member_defs)+

lemma mount_ok_facts:
  assumes "mount_ok n s d"
  shows "pName (mdProp d k) = mount_name k" "distinct (map mName (pMembers (mdProp d k)))" "pDevice (mdProp d k) = n"
    "pType (mdProp d k) \<in> {NumberType, SwitchType, TextType}"
proof -
  have sh: "shape (mdProp d k) = shape (mount_prop n (Fin 0) k)" using assms by (simp add: mount_ok_def well_kept_def)
  note sh = shape_parts[OF sh]
  show "pName (mdProp d k) = mount_name k" "distinct (map mName (pMembers (mdProp d k)))" "pDevice (mdProp d k) = n"
    "pType (mdProp d k) \<in> {NumberType, SwitchType, TextType}"
    using sh mount_prop_facts[of n "Fin 0" k] mount_prop_device[of n "Fin 0" k] by simp_all
qed

lemma marshalled_mount:
  assumes "mount_ok n s d"
  obtains x y where "marshalDef (mdProp d k) ts = Inr x" "marshalSet (mdProp d k) ts = Inr y"
  using mount_ok_facts(4)[OF assms, of k] by (auto simp: marshalDef_types marshalSet_def snapshot_def Let_def)

section \<open>In step with the publications\<close>

text \<open>The client that has read what the mount \<open>d\<close> has published has every listed vector, as it is now
  except where the vector is in \<open>D\<close>, and no other.\<close>

definition sync ::
  "'m mount_ops \<Rightarrow> string \<Rightarrow> (xml \<Rightarrow> client \<Rightarrow> client) \<Rightarrow> client \<Rightarrow> string \<Rightarrow> bool \<Rightarrow> mount_field set \<Rightarrow> 'm mount_dev \<Rightarrow> bool" where
  "sync K ts blob c n s D d \<longleftrightarrow>
     mount_ok n s d \<and>
     (\<forall>k\<in>set (mount_fields K d).
        (\<exists>p. shape p = shape (mdProp d k) \<and> tracks p (told ts blob (mdPub d) c)) \<and>
        (k \<notin> D \<longrightarrow> tracks (mdProp d k) (told ts blob (mdPub d) c))) \<and>
     (\<forall>m. cl_Property (told ts blob (mdPub d) c) n m \<noteq> None \<longrightarrow> m \<in> mount_name ` set (mount_fields K d))"

lemma sync_fields [simp]:
  "sync K ts blob c n s D (d\<lparr>mdMount := m\<rparr>) = sync K ts blob c n s D d"
  "sync K ts blob c n s D (d\<lparr>mdConnected := b\<rparr>) = sync K ts blob c n s D d"
  "sync K ts blob c n s D (d\<lparr>mdTasks := ts'\<rparr>) = sync K ts blob c n s D d"
  by (simp_all add: sync_def mount_fields_def)

lemma sync_mono: "sync K ts blob c n s D d \<Longrightarrow> D \<subseteq> D' \<Longrightarrow> sync K ts blob c n s D' d"
  unfolding sync_def by blast

lemma sync_sees:
  assumes "mdPub d = []" and "mount_ok n s d"
  shows "sync K ts blob c n s {} d \<longleftrightarrow> sees c n (mount_Properties K d)"
proof -
  have "cl_Property c n (pName (mdProp d k)) = cl_Property c (pDevice (mdProp d k)) (pName (mdProp d k))"
    "pName (mdProp d k) = mount_name k" for k using mount_ok_facts(1,3)[OF assms(2), of k] by simp_all
  then show ?thesis
    using assms by (auto simp: sync_def sees_def tracks_def mount_Properties_def image_image)
qed

lemma sync_seen: "sync K ts blob c n s {} d \<Longrightarrow> sees (told ts blob (mdPub d) c) n (mount_Properties K d)"
proof -
  assume y: "sync K ts blob c n s {} d"
  then have ok: "mount_ok n s d" by (simp add: sync_def)
  show ?thesis
    using y mount_ok_facts(1,3)[OF ok] by (auto simp: sync_def sees_def tracks_def mount_Properties_def image_image)
qed

lemma sync_on_prop:
  assumes "sync K ts blob c n s D d" and "\<And>p0 p. well_kept p0 p \<Longrightarrow> well_kept p0 (f p)" and "\<And>p. shape (f p) = shape p"
    and "insert k D \<subseteq> D'"
  shows "sync K ts blob c n s D' (on_prop k f d)"
proof -
  have "mount_ok n s (on_prop k f d)" using assms(1,2) by (simp add: sync_def mount_ok_on_prop)
  moreover have "mount_fields K (on_prop k f d) = mount_fields K d" "mdPub (on_prop k f d) = mdPub d"
    by (simp_all add: mount_fields_def on_prop_def)
  moreover have "shape (mdProp (on_prop k f d) j) = shape (mdProp d j)" "j \<notin> D' \<Longrightarrow> mdProp (on_prop k f d) j = mdProp d j" for j
    using assms(3,4) by (auto simp: on_prop_def)
  ultimately show ?thesis using assms(1,4) unfolding sync_def by (metis insert_subset subsetD)
qed

text \<open>What reading one more element does to a client in step.\<close>

lemma sync_read:
  assumes y: "sync K ts blob c n s D d" and e: "mdProp e = mdProp d" "mount_ok n s e"
    and C: "told ts blob (mdPub e) c = C'"
    and known: "\<And>m. cl_Property C' n m \<noteq> None \<Longrightarrow> m \<in> mount_name ` set (mount_fields K e)"
    and others: "\<And>m. m \<noteq> mount_name k \<Longrightarrow> cl_Property C' n m = cl_Property (told ts blob (mdPub d) c) n m"
    and self: "k \<in> set (mount_fields K e) \<Longrightarrow> tracks (mdProp d k) C'"
    and fields: "set (mount_fields K e) \<subseteq> insert k (set (mount_fields K d))" and D: "D \<subseteq> insert k D'"
  shows "sync K ts blob c n s D' e"
proof -
  let ?C = "told ts blob (mdPub d) c"
  have ok: "mount_ok n s d" using y by (simp add: sync_def)
  have keep: "tracks p C'" if "tracks p ?C" "shape p = shape (mdProp d j)" "j \<noteq> k" for p j
  proof -
    have "pDevice p = n" "pName p = mount_name j" using shape_parts(1,2)[OF that(2)] mount_ok_facts(1,3)[OF ok] by simp_all
    then show ?thesis using that(1,3) others[of "mount_name j"] by (simp add: tracks_def mount_names_differ)
  qed
  have "(\<exists>p. shape p = shape (mdProp d j) \<and> tracks p C') \<and> (j \<notin> D' \<longrightarrow> tracks (mdProp d j) C')"
    if j: "j \<in> set (mount_fields K e)" for j
  proof (cases "j = k")
    case True
    then show ?thesis using self j by blast
  next
    case False
    then have "j \<in> set (mount_fields K d)" using fields j by blast
    then obtain p where p: "shape p = shape (mdProp d j)" "tracks p ?C" "j \<notin> D \<longrightarrow> tracks (mdProp d j) ?C"
      using y unfolding sync_def by blast
    moreover have "j \<notin> D' \<longrightarrow> j \<notin> D" using D False by blast
    ultimately show ?thesis using keep[OF _ _ False] by blast
  qed
  then show ?thesis using e(2) known unfolding sync_def C e(1) by blast
qed

lemma sync_update:
  assumes y: "sync K ts blob c n s D d" and D: "D \<subseteq> insert k D'"
  shows "sync K ts blob c n s D' (update k d)"
proof -
  let ?C = "told ts blob (mdPub d) c"
  have ok: "mount_ok n s d" using y by (simp add: sync_def)
  obtain x where x: "marshalSet (mdProp d k) ts = Inr x" by (rule marshalled_mount[OF ok, of k ts])
  note dec = marshalSet_decoded[OF x]
  have C': "told ts blob (mdPub (update k d)) c = read_elem blob x ?C"
    by (simp add: update_def emit_def told_append x)
  have seen: "cl_Property (read_elem blob x ?C) n m =
      (if m = mount_name k then map_option (set_property (decode_wSetVector x)) (cl_Property ?C n m) else cl_Property ?C n m)" for m
    using mount_ok_facts(1,3)[OF ok, of k] by (simp add: read_elem_set[OF dec(1)] cl_Property_applySet dec(3))
  have fields: "mount_fields K (update k d) = mount_fields K d" by (simp add: mount_fields_def update_def emit_def)
  show ?thesis
  proof (rule sync_read[OF y _ mount_ok_update[OF ok] C', of k])
    show "mdProp (update k d) = mdProp d" by (simp add: update_def emit_def)
    fix m assume "cl_Property (read_elem blob x ?C) n m \<noteq> None"
    then have "cl_Property ?C n m \<noteq> None" by (simp add: seen split: if_splits)
    then show "m \<in> mount_name ` set (mount_fields K (update k d))" using y unfolding fields sync_def by blast
  next
    assume "k \<in> set (mount_fields K (update k d))"
    then obtain p where p: "shape p = shape (mdProp d k)" "tracks p ?C" using y unfolding sync_def fields by blast
    show "tracks (mdProp d k) (read_elem blob x ?C)"
      by (rule tracks_set[OF p(2) x p(1)[symmetric] mount_ok_facts(2)[OF ok]])
  qed (use D in \<open>auto simp: seen fields\<close>)
qed

lemma sync_say:
  assumes "sync K ts blob c n s D d"
  shows "sync K ts blob c n s D (say msg d)"
proof -
  have "cl_Property (told ts blob (mdPub (say msg d)) c) = cl_Property (told ts blob (mdPub d) c)"
    by (simp add: say_def emit_def told_append told_messages)
  moreover have "mount_fields K (say msg d) = mount_fields K d" "mdProp (say msg d) = mdProp d"
    by (simp_all add: mount_fields_def say_def emit_def)
  ultimately show ?thesis using assms by (simp add: sync_def tracks_def mount_ok_say)
qed

lemma sync_define:
  assumes y: "sync K ts blob c n s D d" and D: "D \<subseteq> insert MDualAxis D'"
  shows "sync K ts blob c n s D' (emit (PDefine (mdProp d MDualAxis)) (d\<lparr>mdDualAxisCap := True\<rparr>))"
proof -
  let ?C = "told ts blob (mdPub d) c" and ?e = "emit (PDefine (mdProp d MDualAxis)) (d\<lparr>mdDualAxisCap := True\<rparr>)"
  have ok: "mount_ok n s d" using y by (simp add: sync_def)
  obtain x where x: "marshalDef (mdProp d MDualAxis) ts = Inr x" by (rule marshalled_mount[OF ok, of MDualAxis ts])
  note dec = def_mirrors[OF x]
  have C': "told ts blob (mdPub ?e) c = read_elem blob x ?C" by (simp add: emit_def told_append x)
  have fields: "set (mount_fields K ?e) = insert MDualAxis (set (mount_fields K d))"
    by (auto simp: mount_fields_def emit_def)
  have other: "cl_Property (read_elem blob x ?C) n m = cl_Property ?C n m" if "m \<noteq> mount_name MDualAxis" for m
    using that mount_ok_facts(1)[OF ok, of MDualAxis] by (simp add: read_elem_defines[OF dec(1)] cl_Property_applyDef dec(2,3))
  show ?thesis
  proof (rule sync_read[OF y _ mount_ok_define[OF ok ok] C', of MDualAxis])
    show "mdProp ?e = mdProp d" by (simp add: emit_def)
    fix m assume "cl_Property (read_elem blob x ?C) n m \<noteq> None"
    then show "m \<in> mount_name ` set (mount_fields K ?e)"
      using other[of m] y unfolding fields sync_def by (cases "m = mount_name MDualAxis") auto
  next
    show "tracks (mdProp d MDualAxis) (read_elem blob x ?C)" by (rule tracks_defined[OF x])
  qed (use D other fields in auto)
qed

lemma sync_delete:
  assumes y: "sync K ts blob c n s D d"
  shows "sync K ts blob c n s D (emit (PDelete (mdName d) ''DUAL_AXIS_TRACKING'') (d\<lparr>mdDualAxisCap := False\<rparr>))"
proof -
  let ?C = "told ts blob (mdPub d) c" and ?e = "emit (PDelete (mdName d) ''DUAL_AXIS_TRACKING'') (d\<lparr>mdDualAxisCap := False\<rparr>)"
  let ?x = "xdelProperty (mdName d) ''DUAL_AXIS_TRACKING'' ts"
  have ok: "mount_ok n s d" using y by (simp add: sync_def)
  have C': "told ts blob (mdPub ?e) c = read_elem blob ?x ?C" by (simp add: emit_def told_append)
  have dual: "mount_name MDualAxis = ''DUAL_AXIS_TRACKING''" by (simp add: mount_name_def standard_defs member_defs)
  have seen: "cl_Property (read_elem blob ?x ?C) n m = (if m = mount_name MDualAxis then None else cl_Property ?C n m)" for m
    using mount_ok_name[OF ok] by (simp add: told_messages dual)
  have fields: "set (mount_fields K ?e) = set (mount_fields K d) - {MDualAxis}" by (auto simp: mount_fields_def emit_def)
  show ?thesis
  proof (rule sync_read[OF y _ mount_ok_delete[OF ok] C', of MDualAxis])
    show "mdProp ?e = mdProp d" by (simp add: emit_def)
    fix m assume "cl_Property (read_elem blob ?x ?C) n m \<noteq> None"
    then have "m \<noteq> mount_name MDualAxis" "cl_Property ?C n m \<noteq> None" by (auto simp: seen split: if_splits)
    then show "m \<in> mount_name ` set (mount_fields K ?e)" using y unfolding fields sync_def by blast
  qed (use seen fields in auto)
qed

section \<open>Every operation publishes what it changes\<close>

lemma sync_set:
  assumes "sync K ts blob c n s D d" and "insert k D \<subseteq> D'"
  shows "sync K ts blob c n s D' (on_prop k (SetState st) d)" "sync K ts blob c n s D' (on_prop k (SetNumber m v) d)"
    "sync K ts blob c n s D' (on_prop k (SetSwitch m b) d)" "sync K ts blob c n s D' (on_prop k (SetNumber m v \<circ> SetNumber m' v') d)"
    "sync K ts blob c n s D' (on_prop k (SetSwitch m b \<circ> SetSwitch m' b') d)"
    "sync K ts blob c n s D' (on_prop k (SetState st \<circ> SetSwitch m b) d)"
  by (rule sync_on_prop[OF assms(1) _ _ assms(2)]; simp)+

lemma sync_settle:
  assumes "sync K ts blob c n s D d" and "D \<subseteq> insert k D'"
  shows "sync K ts blob c n s D' (settle k st d)"
proof -
  have "sync K ts blob c n s (insert k D') (on_prop k (SetState st) d)"
    using assms(2) by (intro sync_set(1)[OF assms(1)]) blast
  then show ?thesis unfolding settle_def by (rule sync_update) simp
qed

named_theorems in_step

lemma step_refreshGuideRate [in_step]: "sync K ts blob c n s D d \<Longrightarrow> sync K ts blob c n s D (refreshGuideRate K' d)"
  by (auto simp: refreshGuideRate_def Let_def split: option.split prod.split
      intro!: sync_settle[where D = "insert MGuideRate D"] sync_set)

lemma step_setDualAxisSwitch [in_step]:
  "sync K ts blob c n s D d \<Longrightarrow> insert MDualAxis D \<subseteq> D' \<Longrightarrow> sync K ts blob c n s D' (setDualAxisSwitch b d)"
  unfolding setDualAxisSwitch_def by (rule sync_set(6))

lemma step_refreshDualAxis [in_step]:
  assumes "sync K ts blob c n s D d"
  shows "sync K ts blob c n s D (refreshDualAxis K' d)"
proof (cases "moDualAxis K'")
  case (Some gp)
  obtain get put on err m where g: "gp = (get, put)" "get (mdMount d) = (on, err, m)" by (metis surj_pair)
  let ?d2 = "if err = None then setDualAxisSwitch on (d\<lparr>mdMount := m\<rparr>) else d\<lparr>mdMount := m\<rparr>"
  have "sync K ts blob c n s (insert MDualAxis D) ?d2"
    using assms by (auto intro: step_setDualAxisSwitch[of K ts blob c n s D] sync_mono[of K ts blob c n s D])
  from sync_define[OF this, of D] show ?thesis using Some g by (simp add: refreshDualAxis_def Let_def)
qed (simp add: refreshDualAxis_def assms)

lemma step_clearDualAxis [in_step]:
  assumes "sync K ts blob c n s D d"
  shows "sync K ts blob c n s D (clearDualAxis d)"
proof (cases "mdDualAxisCap d")
  case False
  then have "d\<lparr>mdDualAxisCap := False\<rparr> = d" by (metis (full_types) same_cap)
  moreover have "clearDualAxis d = d\<lparr>mdDualAxisCap := False\<rparr>" using False by (simp add: clearDualAxis_def)
  ultimately show ?thesis using assms by metis
qed (use assms in \<open>simp add: clearDualAxis_def sync_delete\<close>)

lemma step_dual_alert [in_step]: "sync K ts blob c n s D d \<Longrightarrow> sync K ts blob c n s D (dual_alert msg d)"
  by (auto simp: dual_alert_def Let_def intro!: sync_say sync_settle)

lemma step_handleDualAxis [in_step]: "sync K ts blob c n s D d \<Longrightarrow> sync K ts blob c n s D (handleDualAxis K' ms d)"
  by (auto simp: handleDualAxis_def split: option.split prod.split
      intro!: step_dual_alert sync_update[where D = "insert MDualAxis D"] step_setDualAxisSwitch)

lemma step_handleConnection [in_step]:
  assumes "sync K ts blob c n s {} d"
  shows "sync K ts blob c n s {} (handleConnection K' ms d)"
proof -
  have "sync K ts blob c n s {MConn} (on_prop MConn (SetSwitch m True) (d\<lparr>mdConnected := b\<rparr>))" for m b
    using assms by (intro sync_set(3)[of K ts blob c n s "{}"]) simp_all
  note on = this
  show ?thesis
    using assms unfolding handleConnection_def
    by (auto split: option.split intro!: sync_say sync_settle[where D = "{}"] sync_settle[where D = "{MConn}", of K ts blob c n s _ MConn "{}"]
        step_refreshDualAxis step_refreshGuideRate step_clearDualAxis on sync_mono[OF assms])
qed

lemma step_handleEq [in_step]: "sync K ts blob c n s D d \<Longrightarrow> sync K ts blob c n s D (handleEq pr K' ms d)"
  by (auto simp: handleEq_def Let_def split: option.split sum.split prod.split intro!: sync_say sync_settle)

lemma step_halt_all [in_step]: "sync K ts blob c n s D d \<Longrightarrow> sync K ts blob c n s D (halt_all K' ms d)"
  by (induction ms arbitrary: d) auto

lemma step_handleAbort [in_step]:
  assumes "sync K ts blob c n s {} d"
  shows "sync K ts blob c n s {} (handleAbort K' ms d)"
proof -
  have "sync K ts blob c n s {MAbort} (on_prop MAbort (SetSwitch ''ABORT'' False) (halt_all K' ms d))"
    by (rule sync_set(3)[OF step_halt_all[OF assms]]) simp
  then show ?thesis unfolding handleAbort_def by (rule sync_settle) simp
qed

lemma step_guide_loop:
  "sync K ts blob c n s {k} d \<Longrightarrow> sync K ts blob c n s {k} (snd (guide_loop pulse k ms mx d))"
proof (induction ms arbitrary: mx d)
  case (Cons m ms)
  then show ?case by (auto simp: Let_def split: option.split prod.split intro!: Cons.IH sync_say sync_set)
qed simp

lemma step_handleGuide [in_step]:
  assumes "sync K ts blob c n s {} d"
  shows "sync K ts blob c n s {} (handleGuide pr K' k ms d)"
proof (cases "moPulseGuide K'")
  case (Some pulse)
  obtain r d1 where g: "guide_loop pulse k ms 0 d = (r, d1)" by fastforce
  have "sync K ts blob c n s {k} d1" using step_guide_loop[OF sync_mono[OF assms], of k pulse ms 0] by (simp add: g)
  then show ?thesis using assms Some g
    by (auto simp: handleGuide_def Let_def split: sum.split intro!: sync_say sync_settle[where D = "{k}", of K ts blob c n s d1] sync_settle[of K ts blob c n s "{}" d])
qed (use assms in \<open>auto simp: handleGuide_def intro!: sync_say sync_settle\<close>)

lemma step_set_rates:
  "sync K ts blob c n s {MGuideRate} d \<Longrightarrow> sync K ts blob c n s {MGuideRate} (snd (set_rates ms d))"
  by (induction ms d rule: set_rates.induct) (auto split: option.split intro!: sync_set)

lemma step_handleRate [in_step]:
  assumes "sync K ts blob c n s {} d"
  shows "sync K ts blob c n s {} (handleRate pr ms d)"
proof -
  obtain r d1 where g: "set_rates ms d = (r, d1)" by fastforce
  have "sync K ts blob c n s {MGuideRate} d1" using step_set_rates[OF sync_mono[OF assms], of ms] by (simp add: g)
  then show ?thesis using g by (auto simp: handleRate_def split: option.split intro!: sync_say sync_settle)
qed

lemma step_HandleNew [in_step]:
  assumes "sync K ts blob c n s {} d"
  shows "sync K ts blob c n s {} (mount_HandleNew pr K' name ms d)"
proof -
  have "sync K ts blob c n s {MOnSet} (fold (\<lambda>m d. if On m then on_prop MOnSet (SetSwitch (nm_name m) True) d else d) ms d)"
    if "sync K ts blob c n s {MOnSet} d" for d
    using that
  proof (induction ms arbitrary: d)
    case (Cons m ms)
    then show ?case by (auto intro!: Cons.IH sync_set)
  qed simp
  then have "sync K ts blob c n s {} (settle MOnSet Ok (fold (\<lambda>m d. if On m then on_prop MOnSet (SetSwitch (nm_name m) True) d else d) ms d))"
    using sync_mono[OF assms, of "{MOnSet}"] by (intro sync_settle) auto
  then show ?thesis using assms by (auto simp: mount_HandleNew_def intro!: in_step)
qed

lemma step_run_task [in_step]:
  assumes "sync K ts blob c n s {} d"
  shows "sync K ts blob c n s {} (run_task K' t d)"
proof (cases t)
  case (Goto ra dec g)
  then show ?thesis using assms
    by (auto simp: run_goto_def split: prod.split option.split intro!: sync_update[where D = "{MEq}"] sync_say sync_set sync_mono[OF assms])
next
  case (GuideDone k)
  have "sync K ts blob c n s {k} (on_prop k (fold (\<lambda>n. SetNumber n (Fin 0)) ns) d)" for ns
    by (rule sync_on_prop[OF assms]) (induction ns arbitrary: d; auto)+
  then have "sync K ts blob c n s {} (guide_done k d)" unfolding guide_done_def by (rule sync_settle) simp
  then show ?thesis using GuideDone by simp
qed

lemma step_poll_pier [in_step]: "sync K ts blob c n s D d \<Longrightarrow> sync K ts blob c n s D (poll_pier K' d)"
  by (auto simp: poll_pier_def Let_def split: option.split prod.split
      intro!: sync_settle[where D = "insert MPier D"] sync_set)

lemma step_poll_position [in_step]: "sync K ts blob c n s D d \<Longrightarrow> sync K ts blob c n s D (poll_position K' d)"
  by (auto simp: poll_position_def split: prod.split
      intro!: step_poll_pier sync_settle[where D = "insert MEq D"] sync_set)

lemma step_poll [in_step]: "sync K ts blob c n s D d \<Longrightarrow> moOptics K' = None \<Longrightarrow> sync K ts blob c n s D (poll K' d)"
  by (simp add: poll_def Let_def step_poll_position)

section \<open>Properties\<close>



end
