(* ===== verification/ConformDevices.thy ===== *)
theory ConformDevices
  imports Conform HubDevices DeviceMirror
begin

text \<open>
  The conformance check on the devices of this repository: what \<open>conform/conform.go\<close> finds, through a
  client that mirrors them, in the mount of \<open>mount/mount.go\<close> and the camera of \<open>ccd/ccd.go\<close>. The mount passes
  without a failure or a warning; the camera advertises an interface whose vectors it lacks.
\<close>

section \<open>The properties a client lists\<close>

lemma byName_Some: "distinct (map cpName qs) \<Longrightarrow> (map_of (byName qs) n = Some q) = (q \<in> set qs \<and> cpName q = n)"
proof (induction qs rule: rev_induct)
  case (snoc p qs)
  then have new: "q' \<in> set qs \<Longrightarrow> cpName q' \<noteq> cpName p" for q' by (metis distinct_append image_eqI map_append list.map(2) set_map
      disjoint_iff list.set_intros(1))
  have "map_of (byName (qs @ [p])) n = (if n = cpName p then Some p else map_of (byName qs) n)"
    by (simp add: byName_def update_conv')
  then show ?case using snoc new by auto
qed (simp add: byName_def)

lemma mirrors_name: "mirrors p q \<Longrightarrow> cpName q = pName p"
  by (simp add: mirrors_def)

lemma sees_distinct:
  assumes s: "sees c dev ps" and e: "map_order enum"
  shows "distinct (map cpName (Properties enum c dev))" and "set (Properties enum c dev) = ran (cl_Property c dev)"
proof -
  let ?dm = "cl_Property c dev"
  have P: "Properties enum c dev = enum ?dm \<or> (Properties enum c dev = [] \<and> ?dm = Map.empty)"
  proof (cases "store c dev")
    case (Some dm)
    then have "?dm = dm" by (auto simp: cl_Property_def fun_eq_iff split: option.split)
    then show ?thesis using Some by (simp add: Properties_def map_idI)
  qed (auto simp: Properties_def cl_Property_def)
  have name: "cpName q = n" if "?dm n = Some q" for n q
  proof -
    have "n \<in> pName ` set ps" using s that by (simp add: sees_def)
    then obtain p q' where "n = pName p" "?dm n = Some q'" "mirrors p q'" using s by (auto simp: sees_def)
    then show ?thesis using that mirrors_name[of p q'] by simp
  qed
  have fin: "finite (dom ?dm)"
    by (rule finite_subset[of _ "pName ` set ps"]) (use s in \<open>auto simp: sees_def\<close>)
  have order: "set (enum ?dm) = ran ?dm" "length (enum ?dm) = card (dom ?dm)"
    using e fin by (simp_all add: map_order_def)
  have "cpName ` ran ?dm = dom ?dm" using name by (force simp: ran_def dom_def image_iff)
  then have "distinct (map cpName (enum ?dm))" by (intro card_distinct) (simp add: order)
  then show "distinct (map cpName (Properties enum c dev))" "set (Properties enum c dev) = ran ?dm"
    using P order(1) by (elim disjE conjE; simp)+
qed

lemma sees_props:
  assumes s: "sees c dev ps" and e: "map_order enum" and p: "p \<in> set ps"
  shows "\<exists>q. map_of (byName (Properties enum c dev)) (pName p) = Some q \<and> mirrors p q"
proof -
  obtain q where q: "cl_Property c dev (pName p) = Some q" "mirrors p q" using s p unfolding sees_def by blast
  then have "q \<in> set (Properties enum c dev)" using sees_distinct(2)[OF s e] by (auto intro: ranI)
  moreover have "cpName q = pName p" using q(2) by (rule mirrors_name)
  ultimately show ?thesis using q(2) sees_distinct(1)[OF s e] by (auto simp: byName_Some)
qed

lemma sees_only:
  assumes s: "sees c dev ps" and e: "map_order enum" and q: "map_of (byName (Properties enum c dev)) n = Some q"
  shows "\<exists>p\<in>set ps. pName p = n \<and> mirrors p q"
proof -
  have "q \<in> ran (cl_Property c dev)" "cpName q = n"
    using q sees_distinct[OF s e] by (auto simp: byName_Some)
  then obtain m where m: "cl_Property c dev m = Some q" by (auto simp: ran_def)
  then obtain p where p: "p \<in> set ps" "m = pName p" using s unfolding sees_def by blast
  obtain p' where p': "p' \<in> set ps" "m = pName p'" "mirrors p' q"
  proof -
    show thesis using s m p that unfolding sees_def by (metis option.inject)
  qed
  have "cpName q = pName p'" using p'(3) by (rule mirrors_name)
  then show ?thesis using p' \<open>cpName q = n\<close> by auto
qed

section \<open>What the protocol admits of a server's vector\<close>

text \<open>State, permission and rule of a vector a server sends are always valid; the range of a number is
  what its text reads as.\<close>

definition ranges_ok :: "Property \<Rightarrow> bool" where
  "ranges_ok p \<longleftrightarrow> (pType p = NumberType \<longrightarrow> list_all (\<lambda>m. \<not> atof (numAttr (mMax m)) < atof (numAttr (mMin m))) (pMembers p))"

lemma member_ranges:
  "list_all2 (member_mirrors NumberType) ms cs \<Longrightarrow>
    list_all range_ok cs = list_all (\<lambda>m. \<not> atof (numAttr (mMax m)) < atof (numAttr (mMin m))) ms"
  by (induction rule: list_all2_induct) (auto simp: member_mirrors_def range_ok_def)

lemma mirrors_ok: "mirrors p q \<Longrightarrow> vector_ok q = ranges_ok p"
proof -
  assume m: "mirrors p q"
  have "State_String s \<in> {''Idle'', ''Ok'', ''Busy'', ''Alert''}" for s by (cases s) simp_all
  moreover have "Perm_String s \<in> {''ro'', ''wo'', ''rw''}" for s by (cases s) simp_all
  moreover have "SwitchRule_String s \<in> {''OneOfMany'', ''AtMostOne'', ''AnyOfMany''}" for s by (cases s) simp_all
  moreover have "(PropType_String t = ''Light'') = (t = LightType)" "(PropType_String t = ''Switch'') = (t = SwitchType)"
    "(PropType_String t = ''Number'') = (t = NumberType)" for t by (cases t; simp)+
  ultimately show ?thesis
    using m member_ranges[of "pMembers p" "cpMembers q"] by (auto simp: mirrors_def vector_ok_def ranges_ok_def)
qed

lemma sees_protocol:
  assumes s: "sees c dev ps" and e: "map_order enum"
  shows "(checkProtocol (byName (Properties enum c dev)) r = r) = list_all ranges_ok ps"
proof -
  let ?m = "byName (Properties enum c dev)"
  have "list_all vector_ok (map snd ?m) = (\<forall>n q. map_of ?m n = Some q \<longrightarrow> vector_ok q)"
    using byName_keys[of "Properties enum c dev"] by (force simp: list_all_iff)
  also have "\<dots> = list_all ranges_ok ps"
    using sees_only[OF s e] sees_props[OF s e] mirrors_ok unfolding list_all_iff by metis
  finally show ?thesis using checkProtocol_quiet[of "Properties enum c dev" r] by simp
qed

lemma ranges_shape: "shape p = shape q \<Longrightarrow> ranges_ok p = ranges_ok q"
proof -
  have "ranges_ok (shape r) = ranges_ok r" for r
    by (auto simp: ranges_ok_def shape_def fixed_member_def list_all_iff)
  then show "shape p = shape q \<Longrightarrow> ?thesis" by metis
qed

section \<open>What a contract asks of a server's vector\<close>

lemma mirrors_members: "mirrors p q \<Longrightarrow> map cmName (cpMembers q) = map mName (pMembers p)"
proof -
  assume "mirrors p q"
  then have "list_all2 (member_mirrors (pType p)) (pMembers p) (cpMembers q)" by (simp add: mirrors_def)
  then show ?thesis by (induction rule: list_all2_induct) (auto simp: member_mirrors_def)
qed

lemma none_missing: "set names \<subseteq> set (map cmName (cpMembers q)) \<Longrightarrow> missing q names = []"
  by (auto simp: missing_def cMember_of_def find_None_iff filter_empty_conv)

definition clean :: "Result \<Rightarrow> bool" where
  "clean q \<longleftrightarrow> reStatus q = Pass \<or> reStatus q = Info"

lemma clean_steps:
  "adds clean r0 r \<Longrightarrow> adds clean r0 (rp_pass check r)" "adds clean r0 r \<Longrightarrow> adds clean r0 (rp_info check detail r)"
  "adds clean r0 r \<Longrightarrow> b \<Longrightarrow> adds clean r0 (rp_want check b detail r)"
  by (auto simp: rp_defs intro!: adds_add) (simp_all add: clean_def)

definition meets :: "Property \<Rightarrow> PropType \<Rightarrow> Perm \<Rightarrow> string list \<Rightarrow> bool" where
  "meets p t perm names \<longleftrightarrow> pType p = t \<and> pPerm p = perm \<and> set names \<subseteq> set (map mName (pMembers p))"

lemma meets_shape: "shape p = shape q \<Longrightarrow> meets p t perm names = meets q t perm names"
  using shape_parts(3,4,6)[of p q] unfolding meets_def by simp

lemma requireProp_clean:
  assumes s: "sees c dev ps" and e: "map_order enum" and r: "adds clean r0 r"
    and p: "p \<in> set ps" "pName p = name" "meets p t perm names" "t \<noteq> LightType"
  shows "adds clean r0 (requireProp (byName (Properties enum c dev)) name (PropType_String t) (Perm_String perm) names r)"
proof -
  obtain q where q: "map_of (byName (Properties enum c dev)) name = Some q" "mirrors p q"
    using sees_props[OF s e p(1)] p(2) by auto
  have "missing q names = []" using mirrors_members[OF q(2)] p(3) by (intro none_missing) (simp add: meets_def)
  moreover have "cpType q = PropType_String t" "cpPerm q = Perm_String perm"
    using q(2) p(3,4) by (simp_all add: mirrors_def meets_def)
  ultimately show ?thesis using q(1) r by (auto simp: requireProp_def Let_def intro!: clean_steps)
qed

section \<open>The mount\<close>

text \<open>No operation of the mount touches the texts of its \<open>DRIVER_INFO\<close>: no setter but \<open>SetText\<close> touches texts.\<close>

definition texts :: "Property \<Rightarrow> string list" where
  "texts p = map mText (pMembers p)"

lemma texts_set_member: "(\<And>m. mText (f m) = mText m) \<Longrightarrow> texts (set_member i f p) = texts p"
  by (cases "i < length (pMembers p)") (simp_all add: texts_def set_member_def map_update list_update_same_conv list_update_beyond)

lemma texts_setters [simp]:
  "texts (SetState s p) = texts p" "texts (SetNumber n v p) = texts p" "texts (SetSwitch n b p) = texts p"
proof -
  have "texts (select_only i p) = texts p" for i
    unfolding texts_def select_only_def by (rule nth_equalityI) simp_all
  then show "texts (SetState s p) = texts p" "texts (SetNumber n v p) = texts p" "texts (SetSwitch n b p) = texts p"
    by (simp_all add: SetState_def SetNumber_def SetSwitch_def texts_set_member split: option.split)
       (simp add: texts_def)
qed

definition info :: "'m mount_dev \<Rightarrow> string list" where
  "info d = texts (mdProp d MDriverInfo)"

lemma info_on_prop: "(\<And>p. texts (f p) = texts p) \<Longrightarrow> info (on_prop k f d) = info d"
  by (simp add: info_def on_prop_def)

lemma info_basic [simp]:
  "info (on_prop k (SetState s) d) = info d" "info (on_prop k (SetNumber n v) d) = info d" "info (on_prop k (SetSwitch n b) d) = info d"
  "info (emit a d) = info d" "info (update k d) = info d" "info (say msg d) = info d" "info (settle k s d) = info d"
  "info (d\<lparr>mdMount := m\<rparr>) = info d" "info (d\<lparr>mdConnected := b\<rparr>) = info d" "info (d\<lparr>mdTasks := ts\<rparr>) = info d"
  "info (d\<lparr>mdDualAxisCap := b\<rparr>) = info d" "info (d\<lparr>mdLastOptics := lo\<rparr>) = info d"
  by (simp_all add: info_def on_prop_def emit_def update_def say_def settle_def)

lemma info_refresh [simp]:
  "info (snd (refreshOptics g d)) = info d" "info (refreshGuideRate K d) = info d" "info (setDualAxisSwitch b d) = info d"
  "info (refreshDualAxis K d) = info d" "info (clearDualAxis d) = info d" "info (dual_alert msg d) = info d"
proof -
  show [simp]: "info (setDualAxisSwitch b d) = info d" for b and d :: "'a mount_dev"
    by (simp add: setDualAxisSwitch_def info_on_prop)
  show "info (snd (refreshOptics g d)) = info d" by (simp add: refreshOptics_def info_on_prop split: prod.split)
  show "info (refreshGuideRate K d) = info d"
    by (simp add: refreshGuideRate_def Let_def info_on_prop split: option.split prod.split)
  show "info (refreshDualAxis K d) = info d" by (simp add: refreshDualAxis_def Let_def split: option.split prod.split)
  show "info (clearDualAxis d) = info d" "info (dual_alert msg d) = info d"
    by (simp_all add: clearDualAxis_def dual_alert_def Let_def)
qed

lemma info_loops [simp]:
  "info (halt_all K ms d) = info d" "info (snd (set_rates ms d)) = info d"
  "info (snd (guide_loop pulse k ms mx d)) = info d"
  "info (fold (\<lambda>m d. if On m then on_prop MOnSet (SetSwitch (nm_name m) True) d else d) ms d) = info d"
proof -
  show "info (halt_all K ms d) = info d" by (induction ms arbitrary: d) auto
  show "info (snd (set_rates ms d)) = info d" by (induction ms arbitrary: d) (auto split: option.split)
  show "info (snd (guide_loop pulse k ms mx d)) = info d"
    by (induction ms arbitrary: mx d) (auto simp: Let_def split: option.split prod.split)
  show "info (fold (\<lambda>m d. if On m then on_prop MOnSet (SetSwitch (nm_name m) True) d else d) ms d) = info d"
    by (induction ms arbitrary: d) auto
qed

lemma info_guide [simp]: "info (handleGuide pr K k ms d) = info d"
proof (cases "moPulseGuide K")
  case (Some pulse)
  obtain r d1 where g: "guide_loop pulse k ms 0 d = (r, d1)" by fastforce
  have "info d1 = info d" using info_loops(3)[of pulse k ms 0 d] by (simp add: g)
  then show ?thesis using Some g by (auto simp: handleGuide_def Let_def split: sum.split)
qed (simp add: handleGuide_def)

lemma info_rate [simp]: "info (handleRate pr ms d) = info d"
proof -
  obtain r d1 where g: "set_rates ms d = (r, d1)" by fastforce
  have "info d1 = info d" using info_loops(2)[of ms d] by (simp add: g)
  then show ?thesis using g by (simp add: handleRate_def split: option.split)
qed

lemma info_handlers [simp]:
  "info (handleConnection K ms d) = info d" "info (handleEq pr K ms d) = info d" "info (handleAbort K ms d) = info d"
  "info (handleDualAxis K ms d) = info d"
  by (simp_all add: handleConnection_def handleEq_def handleAbort_def handleDualAxis_def Let_def split: option.split sum.split prod.split)

lemma info_command: "info (mount_HandleNew pr K name ms d) = info d"
  by (simp add: mount_HandleNew_def)

lemma info_task: "info (run_task K t d) = info d"
  by (cases t) (simp_all add: run_goto_def guide_done_def info_on_prop split: prod.split option.split)

lemma info_poll: "info (poll K d) = info d"
proof -
  have p: "info (poll_position K d) = info d" for d
    by (simp add: poll_position_def poll_pier_def Let_def info_on_prop split: prod.split option.split)
  show ?thesis
  proof (cases "moOptics K")
    case (Some o1)
    obtain ch d1 where g: "refreshOptics o1 d = (ch, d1)" by fastforce
    then have "info d1 = info d" using info_refresh(1)[of o1 d] by simp
    then show ?thesis using Some g p by (simp add: poll_def Let_def)
  qed (simp add: poll_def Let_def p)
qed

lemma info_step: "mount_step pr K d d' \<Longrightarrow> info d' = info d"
  by (induction rule: mount_step.induct) (simp_all add: info_command info_task info_poll)

lemma info_running: "mount_running pr K name d \<Longrightarrow> info d = [name, ''goindi-mount'', ''1.0'', Itoa 5]"
proof (induction rule: mount_running.induct)
  case (start rate m)
  have "info (mount_New K name rate m) = texts (mount_prop name (WithGuideRate rate (Fin (1 / 2))) MDriverInfo)"
    by (simp add: mount_New_def Let_def split: option.split) (simp add: info_def)
  also have "\<dots> = [name, ''goindi-mount'', ''1.0'', Itoa (InterfaceTelescope OR InterfaceGuider)]"
    by (simp add: texts_def DriverInfoProperty_def member_defs)
  also have "InterfaceTelescope OR InterfaceGuider = 5" by code_simp
  finally show ?case .
next
  case (step d d')
  then show ?case using info_step by metis
qed

lemma mount_shape: "mount_running pr K name d \<Longrightarrow> shape (mdProp d k) = shape (mount_prop name (Fin 0) k)"
  using mount_running_ok[of pr K name d] by (simp add: mount_ok_def well_kept_def)

lemma range_consts:
  "\<not> atof (numAttr (Fin 24)) < atof (numAttr (Fin 0))" "\<not> atof (numAttr (Fin 90)) < atof (numAttr (Fin (- 90)))"
  "\<not> atof (numAttr (Fin 60000)) < atof (numAttr (Fin 0))" "\<not> atof (numAttr (Fin 1)) < atof (numAttr (Fin 0))"
  "\<not> atof (numAttr (Fin 1000000)) < atof (numAttr (Fin 0))"
  by code_simp+

lemma mount_ranges: "mount_running pr K name d \<Longrightarrow> list_all ranges_ok (mount_Properties K d)"
proof -
  assume run: "mount_running pr K name d"
  have "ranges_ok (mount_prop name (Fin 0) k)" for k
    using range_consts by (cases k) (simp_all add: ranges_ok_def standard_defs member_defs)
  then have "ranges_ok (mdProp d k)" for k using ranges_shape[OF mount_shape[OF run, of k]] by simp
  then show ?thesis by (auto simp: mount_Properties_def list_all_iff)
qed

lemma driver_interface_reads:
  assumes s: "sees c dev ps" and e: "map_order enum" and p: "p \<in> set ps" "pName p = ''DRIVER_INFO''" "pType p = TextType"
    and names: "map mName (pMembers p) = [''DRIVER_NAME'', ''DRIVER_EXEC'', ''DRIVER_VERSION'', ''DRIVER_INTERFACE'']"
    and texts: "texts p = [a, b, v, iface]" and n: "Atoi (TrimSpace (TrimSpace iface)) = Some n"
  shows "driver_interface (byName (Properties enum c dev)) r =
    (n, True, rp_info ''DRIVER_INTERFACE'' (interfaceList n) (rp_pass ''DRIVER_INFO present'' r))"
proof -
  obtain q where q: "map_of (byName (Properties enum c dev)) ''DRIVER_INFO'' = Some q" "mirrors p q"
    using sees_props[OF s e p(1)] p(2) by auto
  obtain m1 m2 m3 m4 where m: "pMembers p = [m1, m2, m3, m4]" using names by (auto simp: map_eq_Cons_conv)
  have "list_all2 (member_mirrors TextType) [m1, m2, m3, m4] (cpMembers q)" using q(2) p(3) m by (simp add: mirrors_def)
  then obtain c1 c2 c3 c4 where cs: "cpMembers q = [c1, c2, c3, c4]"
    "member_mirrors TextType m1 c1" "member_mirrors TextType m2 c2" "member_mirrors TextType m3 c3" "member_mirrors TextType m4 c4"
    by (auto simp: list_all2_Cons1)
  then have "cMember_of q ''DRIVER_INTERFACE'' = Some c4" "cmValue c4 = TrimSpace iface"
    using names texts m by (simp_all add: cMember_of_def member_mirrors_def texts_def)
  then show ?thesis using q(1) n by (simp add: driver_interface_def)
qed

lemma connection_clean:
  assumes s: "sees c dev ps" and e: "map_order enum" and r: "adds clean r0 r"
    and p: "p \<in> set ps" "shape p = shape (ConnectionProperty dev)"
  shows "adds clean r0 (check_connection (byName (Properties enum c dev)) r)"
proof -
  have f: "pName p = ''CONNECTION''" "pType p = SwitchType" "pPerm p = RW" "pRule p = OneOfMany"
    "map mName (pMembers p) = [''CONNECT'', ''DISCONNECT'']"
    using shape_parts[OF p(2)] by (simp_all add: ConnectionProperty_def member_defs)
  obtain q where q: "map_of (byName (Properties enum c dev)) ''CONNECTION'' = Some q" "mirrors p q"
    using sees_props[OF s e p(1)] f(1) by auto
  have "missing q [''CONNECT'', ''DISCONNECT''] = []"
    using mirrors_members[OF q(2)] f(5) by (intro none_missing) simp
  then show ?thesis
    using q f(2,3,4) r by (auto simp: check_connection_def mirrors_def hasAll_def intro!: clean_steps)
qed

lemma mount_interface:
  "has_if 5 ifTelescope" "has_if 5 ifGuider" "\<not> has_if 5 ifCCD" "\<not> has_if 5 ifFocuser" "\<not> has_if 5 ifFilter" "\<not> has_if 5 ifDome"
  "\<not> has_if 5 ifGPS" "\<not> has_if 5 ifWeather" "\<not> has_if 5 ifRotator"
  by code_simp+

lemma mount_contracts:
  assumes run: "mount_running pr K name d" and s: "sees c name (mount_Properties K d)" and e: "map_order enum"
    and r: "adds clean r0 r" and ro: "\<not> opMutate opts"
  shows "adds clean r0 (fst (checkContracts E name 5 (byName (Properties enum c name)) active opts r w))"
proof -
  let ?m = "byName (Properties enum c name)"
  have req: "adds clean r0 (requireProp ?m (pName (mount_prop name (Fin 0) k)) (PropType_String t) (Perm_String perm) names r)"
    if "adds clean r0 r" "k \<in> {MEq, MOnSet, MAbort, MGuideNS, MGuideWE}" "meets (mount_prop name (Fin 0) k) t perm names" "t \<noteq> LightType"
    for r k t perm names
    using that meets_shape[OF mount_shape[OF run, of k]] shape_parts(2)[OF mount_shape[OF run, of k]]
    by (intro requireProp_clean[OF s e, of _ _ "mdProp d k"]) (auto simp: mount_Properties_def mount_fields_def)
  have meets: "meets (mount_prop name (Fin 0) MEq) NumberType RW [''RA'', ''DEC'']"
    "meets (mount_prop name (Fin 0) MOnSet) SwitchType RW [''SLEW'', ''TRACK'', ''SYNC'']"
    "meets (mount_prop name (Fin 0) MAbort) SwitchType RW [''ABORT'']"
    "meets (mount_prop name (Fin 0) MGuideNS) NumberType RW [''TIMED_GUIDE_N'', ''TIMED_GUIDE_S'']"
    "meets (mount_prop name (Fin 0) MGuideWE) NumberType RW [''TIMED_GUIDE_W'', ''TIMED_GUIDE_E'']"
    by (simp_all add: meets_def standard_defs member_defs)
  have names: "pName (mount_prop name (Fin 0) MEq) = ''EQUATORIAL_EOD_COORD''" "pName (mount_prop name (Fin 0) MOnSet) = ''ON_COORD_SET''"
    "pName (mount_prop name (Fin 0) MAbort) = ''TELESCOPE_ABORT_MOTION''"
    "pName (mount_prop name (Fin 0) MGuideNS) = ''TELESCOPE_TIMED_GUIDE_NS''"
    "pName (mount_prop name (Fin 0) MGuideWE) = ''TELESCOPE_TIMED_GUIDE_WE''"
    by (simp_all add: standard_defs member_defs)
  have t: "adds clean r0 (telescope_contract ?m r)" if "adds clean r0 r" for r
    using req[OF req[OF req[OF that _ meets(1)] _ meets(2)] _ meets(3)] unfolding names telescope_contract_def by simp
  have g: "adds clean r0 (fst (guider_contract E name ?m active opts r w))" if "adds clean r0 r" for r
    using req[OF req[OF that _ meets(4)] _ meets(5)] ro unfolding names guider_contract_def by simp
  show ?thesis
    using g[OF t[OF r]] by (simp add: checkContracts_def other_contracts_def mount_interface Let_def case_prod_unfold)
qed

lemma mount_vectors_facts:
  "mount_running pr K name d \<Longrightarrow> (\<forall>p\<in>set (mount_Properties K d). pDevice p = name) \<and> distinct (map pName (mount_Properties K d))"
  using mount_owned mount_names mount_running_ok by blast

lemma ccd_Properties_names: "ccd_ok n d \<Longrightarrow> p \<in> set (ccd_Properties d) \<Longrightarrow> pName p \<in> range ccd_field_name"
proof -
  assume d: "ccd_ok n d" and "p \<in> set (ccd_Properties d)"
  then obtain k where k: "k \<in> set (ccd_fields d)" "p = the (cdProp d k)" by (auto simp: ccd_Properties_def)
  then have "cdProp d k = Some p" by (auto dest: ccd_fields_some)
  from ccd_ok_vector[OF d this] show ?thesis by (simp add: vector_of_def)
qed

section \<open>The interface bits\<close>

text \<open>The checker's bits are the server's, and its names are in their order.\<close>

lemma interface_bits_agree:
  "[ifTelescope, ifCCD, ifGuider, ifFocuser, ifFilter, ifDome, ifGPS, ifWeather, ifAO, ifDustcap, ifLightbox, ifDetector, ifRotator, ifSpectrograph, ifCorrelator, ifAux] = [InterfaceTelescope, InterfaceCCD, InterfaceGuider, InterfaceFocuser, InterfaceFilter, InterfaceDome, InterfaceGPS, InterfaceWeather, InterfaceAO, InterfaceDustcap, InterfaceLightbox, InterfaceDetector, InterfaceRotator, InterfaceSpectrograph, InterfaceCorrelator, InterfaceAux]"
  "map (\<lambda>i. push_bit i 1) [0..<length interfaceNames] = [InterfaceTelescope, InterfaceCCD, InterfaceGuider, InterfaceFocuser, InterfaceFilter, InterfaceDome, InterfaceGPS, InterfaceWeather, InterfaceAO, InterfaceDustcap, InterfaceLightbox, InterfaceDetector, InterfaceRotator, InterfaceSpectrograph, InterfaceCorrelator, InterfaceAux]"
  by code_simp+

section \<open>A client that receives nothing\<close>

lemma quiet_call: "cwTurns w = [] \<Longrightarrow> cwClient (snd (blocking blob f late w)) = cwClient w"
  by (simp add: blocking_def Let_def next_turn_def idle_turn_def feed_def split: option.split prod.split)

text \<open>An order for the maps of the witnesses: that of the keys.\<close>

definition keyed :: "(string \<rightharpoonup> cProperty) \<Rightarrow> cProperty list" where
  "keyed dm = map (\<lambda>n. the (dm n)) (sorted_list_of_set (dom dm))"

lemma keyed_order: "map_order keyed"
  by (force simp: map_order_def keyed_def ran_def)

section \<open>Properties\<close>


definition onlooker :: "Property list \<Rightarrow> world" where
  "onlooker ps = \<lparr>cwClient = fold (read_elem sample_blob) (map (\<lambda>p. projr (marshalDef p ''t'')) ps) newClient,
     cwSent = [], cwRefusals = [], cwTurns = [], cwCtx = None\<rparr>"




end
