(* ===== verification/ServerServe.thy ===== *)
theory ServerServe
  imports ServerHub
begin

text \<open>
  The read loop of a connection, \<open>handle\<close> of \<open>server/server.go\<close>, over the guard that bounds what one element
  may take. The XML decoder is a sequence of events: it reads bytes through the guard and
  completes top-level elements, other tokens, or fails.
\<close>

section \<open>The loop\<close>

text \<open>\<open>Garbled\<close> is an element that does not decode into its struct; \<open>Other\<close> a token outside elements.\<close>

datatype decoded = Bytes int | Complete xml | Garbled | Other | Ended

text \<open>What is deferred: the hub forgets the connection, closes its queue and its socket.\<close>

definition drop_conn :: "nat \<Rightarrow> 'd hub \<Rightarrow> 'd hub" where
  "drop_conn i h = h\<lparr>hConns := (hConns h)[i := removeConn (hConns h ! i)]\<rparr>"

fun handle_loop :: "env \<Rightarrow> 'd device_ops \<Rightarrow> nat \<Rightarrow> inboundGuard \<Rightarrow> decoded list \<Rightarrow> 'd hub \<Rightarrow> 'd hub" where
  "handle_loop E ops i g [] h = h"
| "handle_loop E ops i g (Bytes k # es) h =
     (case guard_Read k g of Inl e \<Rightarrow> drop_conn i h | Inr g' \<Rightarrow> handle_loop E ops i g' es h)"
| "handle_loop E ops i g (Complete x # es) h = handle_loop E ops i (guard_reset g) es (handle_elem E ops i x h)"
| "handle_loop E ops i g (Garbled # es) h = handle_loop E ops i (guard_reset g) es h"
| "handle_loop E ops i g (Other # es) h = handle_loop E ops i g es h"
| "handle_loop E ops i g (Ended # es) h = drop_conn i h"

definition handle_conn :: "env \<Rightarrow> 'd device_ops \<Rightarrow> nat \<Rightarrow> decoded list \<Rightarrow> 'd hub \<Rightarrow> 'd hub" where
  "handle_conn E ops i es h = handle_loop E ops i \<lparr>gn = 0, gmax = maxInbound\<rparr> es h"

section \<open>Elements within the limit and beyond\<close>

text \<open>An element and the sizes of the reads it takes.\<close>

definition arrives :: "int list \<times> xml \<Rightarrow> decoded list" where
  "arrives e = map Bytes (fst e) @ [Complete (snd e)]"

definition fits :: "int list \<times> xml \<Rightarrow> bool" where
  "fits e \<longleftrightarrow> list_all (\<lambda>k. 0 \<le> k) (fst e) \<and> sum_list (fst e) \<le> maxInbound"

lemma reads_through:
  assumes "list_all (\<lambda>k. 0 \<le> k) ks" and "gn g + sum_list ks \<le> gmax g"
  shows "handle_loop E ops i g (map Bytes ks @ es) h = handle_loop E ops i (g\<lparr>gn := gn g + sum_list ks\<rparr>) es h"
  using assms
proof (induction ks arbitrary: g)
  case (Cons k ks)
  have "0 \<le> sum_list ks" using Cons.prems(1) by (simp add: list_all_iff sum_list_nonneg)
  then have "guard_Read k g = Inr (g\<lparr>gn := gn g + k\<rparr>)" using Cons.prems by (simp add: guard_Read_def)
  then show ?case using Cons.IH[of "g\<lparr>gn := gn g + k\<rparr>"] Cons.prems by (simp add: add.assoc)
qed simp

lemma reads_beyond:
  assumes "list_all (\<lambda>k. 0 \<le> k) ks" and "gmax g < gn g + sum_list ks"
  shows "handle_loop E ops i g (map Bytes ks @ Bytes k # es) h = drop_conn i h"
  using assms
proof (induction ks arbitrary: g)
  case (Cons k' ks)
  then show ?case by (auto simp: guard_Read_def Cons.IH add.assoc)
qed (simp add: guard_Read_def)

lemma serves:
  assumes "list_all fits xs" and "gmax g = maxInbound" and "gn g = 0"
  shows "handle_loop E ops i g (concat (map arrives xs) @ es) h =
    handle_loop E ops i g es (fold (\<lambda>e. handle_elem E ops i (snd e)) xs h)"
  using assms
proof (induction xs arbitrary: h)
  case (Cons x xs)
  have "handle_loop E ops i g (arrives x @ rest) h = handle_loop E ops i g rest (handle_elem E ops i (snd x) h)" for rest
  proof -
    have "handle_loop E ops i g (map Bytes (fst x) @ Complete (snd x) # rest) h =
        handle_loop E ops i (g\<lparr>gn := gn g + sum_list (fst x)\<rparr>) (Complete (snd x) # rest) h"
      using Cons.prems by (intro reads_through) (simp_all add: fits_def)
    moreover have "guard_reset (g\<lparr>gn := gn g + sum_list (fst x)\<rparr>) = g" using Cons.prems(3) by (simp add: guard_reset_def)
    ultimately show ?thesis by (simp add: arrives_def)
  qed
  then show ?case using Cons by simp
qed simp

section \<open>Serving\<close>

text \<open>\<open>Serve\<close>: with the outcome of listening and those of the accept loop; the hub it leaves and how it
  returned, if it did. Closing the listener when the context ends shows in the outcomes.\<close>

definition Serve ::
  "'d device_ops \<Rightarrow> string \<Rightarrow> string option \<Rightarrow> accept list \<Rightarrow> 'd hub \<Rightarrow> 'd hub \<times> string option option" where
  "Serve ops addr failed as h =
     (case failed of
        Some e \<Rightarrow> (h, Some (Some (''indi: listen '' @ addr @ '' failed: '' @ e)))
      | None \<Rightarrow> (case acceptLoop 0 as (Serve_start ops h) of (h', delays, r) \<Rightarrow> (h', r)))"

text \<open>Accepting connections leaves the devices alone, and a hub that could not listen is as it was.\<close>

lemma acceptLoop_devices:
  "hDevices (fst (acceptLoop b as h)) = hDevices h" "hOrder (fst (acceptLoop b as h)) = hOrder h"
  "hServing (fst (acceptLoop b as h)) = hServing h" "hStarted (fst (acceptLoop b as h)) = hStarted h"
  by (induction b as h rule: acceptLoop.induct) (auto simp: Let_def split: prod.splits)

lemma hub_inv_Serves:
  assumes "hub_inv ops h" and "\<not> hServing h"
  shows "hub_inv ops (fst (Serve ops addr failed as h)) \<and> (hServing (fst (Serve ops addr failed as h)) \<longleftrightarrow> failed = None)"
proof (cases failed)
  case None
  then show ?thesis
    using hub_inv_Serve[OF assms] acceptLoop_devices[of 0 as "Serve_start ops h"]
    by (simp add: Serve_def hub_inv_def Serve_start_def case_prod_unfold)
qed (use assms in \<open>simp add: Serve_def\<close>)

section \<open>Properties\<close>

text \<open>C27: Elements within the limit are handled once each, in the order they arrive; when a client
  sends more than the limit without completing one, its connection is closed, and nothing of
  that element or after it is handled.\<close>

theorem inbound_served:
  assumes "list_all fits xs" and "list_all (\<lambda>k. 0 \<le> k) ks"
  shows "handle_conn E ops i (concat (map arrives xs) @ map Bytes ks @ (if sum_list ks \<le> maxInbound then [] else Bytes k # es)) h =
    (if sum_list ks \<le> maxInbound then id else drop_conn i) (fold (\<lambda>e. handle_elem E ops i (snd e)) xs h)"
proof -
  let ?g = "\<lparr>gn = 0, gmax = maxInbound\<rparr>" and ?h = "fold (\<lambda>e. handle_elem E ops i (snd e)) xs h"
  have "handle_loop E ops i ?g (map Bytes ks @ []) ?h = ?h" if "sum_list ks \<le> maxInbound"
    using that by (subst reads_through[OF assms(2)]) simp_all
  moreover have "handle_loop E ops i ?g (map Bytes ks @ Bytes k # es) ?h = drop_conn i ?h" if "\<not> sum_list ks \<le> maxInbound"
    using that by (intro reads_beyond[OF assms(2)]) simp
  ultimately show ?thesis unfolding handle_conn_def by (subst serves[OF assms(1)]) auto
qed

theorem inbound_served_witness:
  "handle_conn sample_env sample_ops 0 ([Bytes 100, Complete (Elem ''enableBLOB'' [] [])] @ [Bytes 900000, Bytes 900000, Bytes 1]) sample_hub =
    drop_conn 0 (handle_elem sample_env sample_ops 0 (Elem ''enableBLOB'' [] []) sample_hub)"
  using inbound_served[of "[([100], Elem ''enableBLOB'' [] [])]" "[900000, 900000]" sample_env sample_ops 0 1 "[]" sample_hub]
  by (simp add: fits_def arrives_def maxInbound_def)

end
