(* ===== verification/CcdMirror.thy ===== *)
theory CcdMirror
  imports DeviceMirror CcdExposure
begin

text \<open>
  The camera keeps its clients informed: whatever a command or a step of an exposure's goroutine
  changes in its vectors it also publishes, so that a client which saw the camera before sees it
  afterwards. The client is one that receives no BLOBs, as every client is until it asks.
\<close>

section \<open>In step with the publications\<close>

text \<open>The client that has read what the camera \<open>d\<close> has published has every vector of the camera, as
  it is now except where the vector is in \<open>D\<close>, and no other.\<close>

definition ccd_sync ::
  "string \<Rightarrow> (xml \<Rightarrow> client \<Rightarrow> client) \<Rightarrow> client \<Rightarrow> string \<Rightarrow> ccd_field set \<Rightarrow> 'c ccd_dev \<Rightarrow> bool" where
  "ccd_sync ts blob c n D d \<longleftrightarrow>
     ccd_ok n d \<and>
     (\<forall>k p. cdProp d k = Some p \<longrightarrow>
        (\<exists>q. shape q = shape p \<and> tracks q (told ts blob (cdPub d) c)) \<and>
        (k \<notin> D \<longrightarrow> tracks p (told ts blob (cdPub d) c))) \<and>
     (\<forall>m. cl_Property (told ts blob (cdPub d) c) n m \<noteq> None \<longrightarrow> (\<exists>k. cdProp d k \<noteq> None \<and> m = ccd_field_name k))"

lemma ccd_sync_ok: "ccd_sync ts blob c n D d \<Longrightarrow> ccd_ok n d"
  by (simp add: ccd_sync_def)

lemma ccd_sync_fields [simp]:
  "ccd_sync ts blob c n D (d\<lparr>cdCamera := x1\<rparr>) = ccd_sync ts blob c n D d"
  "ccd_sync ts blob c n D (d\<lparr>cdConnected := b\<rparr>) = ccd_sync ts blob c n D d"
  "ccd_sync ts blob c n D (d\<lparr>cdExposing := b\<rparr>) = ccd_sync ts blob c n D d"
  "ccd_sync ts blob c n D (d\<lparr>cdCancelExp := x2\<rparr>) = ccd_sync ts blob c n D d"
  "ccd_sync ts blob c n D (d\<lparr>cdExposeDone := x2\<rparr>) = ccd_sync ts blob c n D d"
  "ccd_sync ts blob c n D (d\<lparr>cdRuns := rs\<rparr>) = ccd_sync ts blob c n D d"
  "ccd_sync ts blob c n D (d\<lparr>cdCrashed := b\<rparr>) = ccd_sync ts blob c n D d"
  by (simp_all add: ccd_sync_def)

lemma ccd_sync_set_run [simp]: "ccd_sync ts blob c n D (set_run i f d) = ccd_sync ts blob c n D d"
  by (simp add: set_run_def)

lemma ccd_sync_mono: "ccd_sync ts blob c n D d \<Longrightarrow> D \<subseteq> D' \<Longrightarrow> ccd_sync ts blob c n D' d"
  unfolding ccd_sync_def by blast

lemma ccd_sync_clean: "ccd_sync ts blob c n {} d \<Longrightarrow> ccd_sync ts blob c n D d"
  by (erule ccd_sync_mono) simp

lemma ccd_field_names_differ: "ccd_field_name j = ccd_field_name k \<longleftrightarrow> j = k"
  by (cases j; cases k) simp_all

lemma ccd_fields_iff: "k \<in> set (ccd_fields d) \<longleftrightarrow> cdProp d k \<noteq> None"
  unfolding ccd_fields_def set_filter by (cases k) simp_all

lemma ccd_Properties_iff: "p \<in> set (ccd_Properties d) \<longleftrightarrow> (\<exists>k. cdProp d k = Some p)"
proof -
  have "set (ccd_Properties d) = (\<lambda>k. the (cdProp d k)) ` {k. cdProp d k \<noteq> None}"
    unfolding ccd_Properties_def set_map by (rule image_cong) (auto simp: ccd_fields_iff)
  then show ?thesis by (auto simp: image_iff)
qed

lemma ccd_sync_seen:
  assumes "ccd_ok n d"
  shows "ccd_sync ts blob c n {} d \<longleftrightarrow> sees (told ts blob (cdPub d) c) n (ccd_Properties d)"
proof -
  have v: "cdProp d k = Some p \<Longrightarrow> pDevice p = n \<and> pName p = ccd_field_name k" for k p
    using ccd_ok_vector[OF assms, of k p] by (simp add: vector_of_def)
  have names: "m \<in> pName ` set (ccd_Properties d) \<longleftrightarrow> (\<exists>k. cdProp d k \<noteq> None \<and> m = ccd_field_name k)" for m
    unfolding image_iff Bex_def ccd_Properties_iff using v by auto
  have shown: "(\<forall>p\<in>set (ccd_Properties d). \<exists>q. cl_Property C n (pName p) = Some q \<and> mirrors p q) \<longleftrightarrow>
      (\<forall>k p. cdProp d k = Some p \<longrightarrow> tracks p C)" for C
    unfolding Ball_def ccd_Properties_iff tracks_def using v by fastforce
  have "(\<forall>k p. cdProp d k = Some p \<longrightarrow> (\<exists>q. shape q = shape p \<and> tracks q C) \<and> (k \<notin> {} \<longrightarrow> tracks p C)) \<longleftrightarrow>
      (\<forall>k p. cdProp d k = Some p \<longrightarrow> tracks p C)" for C by blast
  then show ?thesis unfolding ccd_sync_def sees_def names shown using assms by simp
qed

section \<open>The elementary steps\<close>

lemma ccd_sync_on_field:
  assumes y: "ccd_sync ts blob c n D d" and f: "\<And>p. vector_of n k p \<Longrightarrow> vector_of n k (f p)" "\<And>p. shape (f p) = shape p"
    and D: "insert k D \<subseteq> D'"
  shows "ccd_sync ts blob c n D' (on_field k f d)"
proof -
  have ok: "ccd_ok n (on_field k f d)" using ccd_sync_ok[OF y] f(1) by (rule ccd_ok_on_field)
  have "\<exists>q. shape q = shape p \<and> tracks q (told ts blob (cdPub d) c)" "j \<notin> D' \<Longrightarrow> tracks p (told ts blob (cdPub d) c)"
    if at: "cdProp (on_field k f d) j = Some p" for j p
  proof -
    obtain p0 where p0: "cdProp d j = Some p0" "shape p = shape p0" "j \<noteq> k \<Longrightarrow> p = p0"
      using at f(2) by (auto simp: on_field_def split: if_splits)
    show "\<exists>q. shape q = shape p \<and> tracks q (told ts blob (cdPub d) c)" using y p0(1,2) unfolding ccd_sync_def by metis
    assume j: "j \<notin> D'"
    then have "j \<noteq> k" "j \<notin> D" using D by auto
    then show "tracks p (told ts blob (cdPub d) c)" using y p0(1,3) unfolding ccd_sync_def by metis
  qed
  moreover have "cdPub (on_field k f d) = cdPub d" "\<And>j. cdProp (on_field k f d) j \<noteq> None \<longleftrightarrow> cdProp d j \<noteq> None"
    by (auto simp: on_field_def)
  ultimately show ?thesis using ok y unfolding ccd_sync_def by simp
qed

text \<open>What reading one more element does to a client in step.\<close>

lemma ccd_sync_read:
  assumes y: "ccd_sync ts blob c n D d" and e: "ccd_ok n e" "\<And>j. j \<noteq> k \<Longrightarrow> cdProp e j = cdProp d j"
    and C: "told ts blob (cdPub e) c = C'"
    and others: "\<And>m. m \<noteq> ccd_field_name k \<Longrightarrow> cl_Property C' n m = cl_Property (told ts blob (cdPub d) c) n m"
    and self: "\<And>p. cdProp e k = Some p \<Longrightarrow> tracks p C'" "cl_Property C' n (ccd_field_name k) \<noteq> None \<Longrightarrow> cdProp e k \<noteq> None"
    and D: "D \<subseteq> insert k D'"
  shows "ccd_sync ts blob c n D' e"
proof -
  let ?C = "told ts blob (cdPub d) c"
  have keep: "tracks q C'" if "tracks q ?C" "shape q = shape p" "cdProp d j = Some p" "j \<noteq> k" for p q j
  proof -
    have "pDevice q = n" "pName q = ccd_field_name j"
      using shape_parts(1,2)[OF that(2)] ccd_ok_vector[OF ccd_sync_ok[OF y] that(3)] by (simp_all add: vector_of_def)
    then show ?thesis using that(1,4) others[of "ccd_field_name j"] by (simp add: tracks_def ccd_field_names_differ)
  qed
  have "(\<exists>q. shape q = shape p \<and> tracks q C') \<and> (j \<notin> D' \<longrightarrow> tracks p C')" if j: "cdProp e j = Some p" for j p
  proof (cases "j = k")
    case True
    then show ?thesis using self(1) j by blast
  next
    case False
    then have p: "cdProp d j = Some p" using e(2) j by simp
    then obtain q where "shape q = shape p" "tracks q ?C" "j \<notin> D \<longrightarrow> tracks p ?C" using y unfolding ccd_sync_def by blast
    moreover have "j \<notin> D' \<longrightarrow> j \<notin> D" using D False by blast
    ultimately show ?thesis using keep[OF _ _ p False] by blast
  qed
  moreover have "\<exists>j. cdProp e j \<noteq> None \<and> m = ccd_field_name j" if m: "cl_Property C' n m \<noteq> None" for m
  proof (cases "m = ccd_field_name k")
    case True
    then show ?thesis using self(2) m by blast
  next
    case False
    then obtain j where "cdProp d j \<noteq> None" "m = ccd_field_name j" using y m others unfolding ccd_sync_def by metis
    then show ?thesis using False e(2)[of j] by metis
  qed
  ultimately show ?thesis using e(1) unfolding ccd_sync_def C by blast
qed

lemma vector_type: "vector_of n k p \<Longrightarrow> pType p = field_type k" and vector_members: "vector_of n k p \<Longrightarrow> distinct (map mName (pMembers p))"
  by (simp_all add: vector_of_def)

lemma vector_marshalSet: "vector_of n k p \<Longrightarrow> k \<noteq> CBlob \<Longrightarrow> \<exists>x. marshalSet p ts = Inr x"
  using vector_type[of n k p] by (cases k) (auto simp: marshalSet_def snapshot_def Let_def field_type_def)

lemma vector_marshalDef: "vector_of n k p \<Longrightarrow> \<exists>x. marshalDef p ts = Inr x"
  using vector_type[of n k p] by (intro marshalDef_known) (cases k; simp add: field_type_def)

lemma ccd_sync_update:
  assumes y: "ccd_sync ts blob c n D d" and D: "D \<subseteq> insert k D'" and p: "cdProp d k = Some p" and k: "k \<noteq> CBlob"
  shows "ccd_sync ts blob c n D' (post (PUpdate p) d)"
proof -
  let ?C = "told ts blob (cdPub d) c" and ?e = "post (PUpdate p) d"
  have v: "vector_of n k p" using ccd_ok_vector[OF ccd_sync_ok[OF y] p] .
  then have np: "pDevice p = n" "pName p = ccd_field_name k" by (simp_all add: vector_of_def)
  obtain x where x: "marshalSet p ts = Inr x" using vector_marshalSet[OF v k] by blast
  note dec = marshalSet_decoded[OF x]
  obtain q where q: "shape q = shape p" "tracks q ?C" using y p unfolding ccd_sync_def by blast
  have C': "told ts blob (cdPub ?e) c = read_elem blob x ?C" by (simp add: post_def told_append x)
  show ?thesis
  proof (rule ccd_sync_read[OF y _ _ C', of k])
    show "ccd_ok n ?e" using ccd_sync_ok[OF y] vector_update_ok(1)[OF v] by (rule ccd_ok_post)
    show "cl_Property (read_elem blob x ?C) n m = cl_Property ?C n m" if "m \<noteq> ccd_field_name k" for m
      using that np by (simp add: read_elem_set[OF dec(1)] cl_Property_applySet dec(3))
    show "tracks p' (read_elem blob x ?C)" if "cdProp ?e k = Some p'" for p'
      using that p tracks_set[OF q(2) x q(1)[symmetric] vector_members[OF v]] by (simp add: post_def)
  qed (use p D in \<open>simp_all add: post_def\<close>)
qed

lemma ccd_sync_define:
  assumes y: "ccd_sync ts blob c n D d" and D: "D \<subseteq> insert k D'" and v: "vector_of n k p"
  shows "ccd_sync ts blob c n D' (post (PDefine p) (d\<lparr>cdProp := (cdProp d)(k := Some p)\<rparr>))"
proof -
  let ?C = "told ts blob (cdPub d) c" and ?e = "post (PDefine p) (d\<lparr>cdProp := (cdProp d)(k := Some p)\<rparr>)"
  have np: "pDevice p = n" "pName p = ccd_field_name k" using v by (simp_all add: vector_of_def)
  obtain x where x: "marshalDef p ts = Inr x" using vector_marshalDef[OF v] by blast
  note dec = def_mirrors[OF x]
  have C': "told ts blob (cdPub ?e) c = read_elem blob x ?C" by (simp add: post_def told_append x)
  show ?thesis
  proof (rule ccd_sync_read[OF y _ _ C', of k])
    show "ccd_ok n ?e"
      using ccd_ok_put[OF ccd_sync_ok[OF y] v] vector_update_ok(2)[OF v] by (rule ccd_ok_post)
    show "cl_Property (read_elem blob x ?C) n m = cl_Property ?C n m" if "m \<noteq> ccd_field_name k" for m
      using that np by (simp add: read_elem_defines[OF dec(1)] cl_Property_applyDef dec(2,3))
    show "tracks p' (read_elem blob x ?C)" if "cdProp ?e k = Some p'" for p'
      using that tracks_defined[OF x, of blob ?C] by (simp add: post_def)
  qed (use D in \<open>simp_all add: post_def\<close>)
qed

lemma ccd_sync_unread:
  assumes "ccd_sync ts blob c n D d" and "update_ok n a"
    and "cl_Property (told ts blob (cdPub d @ [a]) c) = cl_Property (told ts blob (cdPub d) c)"
  shows "ccd_sync ts blob c n D (post a d)"
  using assms ccd_ok_post[OF ccd_sync_ok[OF assms(1)] assms(2)]
  unfolding ccd_sync_def tracks_def by (simp add: post_def)

lemma ccd_sync_report: "ccd_sync ts blob c n D d \<Longrightarrow> ccd_sync ts blob c n D (report msg d)"
  unfolding report_def
  by (rule ccd_sync_unread) (auto simp: told_append told_messages update_ok_def ccd_sync_def ccd_ok_def)

lemma ccd_sync_blob: "ccd_sync ts blob c n D d \<Longrightarrow> ccd_sync ts blob c n D (post (PSendBLOB (cdName d) name elem format data) d)"
  by (rule ccd_sync_unread) (auto simp: told_append update_ok_def ccd_sync_def ccd_ok_def)

lemma ccd_sync_refresh:
  assumes y: "ccd_sync ts blob c n D d" and D: "D \<subseteq> insert k D'" and k: "k \<noteq> CBlob"
  shows "ccd_sync ts blob c n D' (refresh k d)"
proof (cases "cdProp d k")
  case None
  then have "cdProp d j = Some p \<Longrightarrow> j \<noteq> k" for j p by auto
  then have "ccd_sync ts blob c n D' d" using y D unfolding ccd_sync_def by blast
  then show ?thesis using None by (simp add: refresh_def)
qed (use ccd_sync_update[OF y D _ k] in \<open>simp add: refresh_def\<close>)

lemma ccd_sync_set:
  assumes "ccd_sync ts blob c n D d" and "insert k D \<subseteq> D'"
  shows "ccd_sync ts blob c n D' (on_field k (SetState st) d)" "ccd_sync ts blob c n D' (on_field k (SetNumber m v) d)"
    "ccd_sync ts blob c n D' (on_field k (SetSwitch m b) d)"
  by (rule ccd_sync_on_field[OF assms(1) _ _ assms(2)]; simp)+

lemma ccd_sync_conclude:
  assumes "ccd_sync ts blob c n D d" and "D \<subseteq> insert k D'" and "k \<noteq> CBlob"
  shows "ccd_sync ts blob c n D' (conclude k st d)"
proof -
  have "ccd_sync ts blob c n (insert k D') (on_field k (SetState st) d)"
    using assms(2) by (intro ccd_sync_set(1)[OF assms(1)]) blast
  then show ?thesis unfolding conclude_def by (rule ccd_sync_refresh) (simp_all add: assms(3))
qed

section \<open>The optional vectors\<close>

text \<open>What one half of \<open>defineCaps\<close> does: nothing, or a vector that was absent is put in place, to be
  defined, or one that is there is changed, to be updated.\<close>

definition caps_part :: "ccd_field \<Rightarrow> publication list \<Rightarrow> publication list \<Rightarrow> 'c ccd_dev \<Rightarrow> 'c ccd_dev \<Rightarrow> bool" where
  "caps_part k as bs d d1 \<longleftrightarrow>
     as = [] \<and> bs = [] \<and> d1 = d \<or>
     (\<exists>p. as = [PDefine p] \<and> bs = [] \<and> vector_of (cdName d) k p \<and> d1 = d\<lparr>cdProp := (cdProp d)(k := Some p)\<rparr>) \<or>
     (\<exists>p f. as = [] \<and> bs = [PUpdate (f p)] \<and> cdProp d k = Some p \<and> (\<forall>p. shape (f p) = shape p) \<and>
        (\<forall>n p. vector_of n k p \<longrightarrow> vector_of n k (f p)) \<and> d1 = d\<lparr>cdProp := (cdProp d)(k := Some (f p))\<rparr>)"

lemma caps_controls_part:
  assumes "caps_controls K d = (as, bs, d1)"
  shows "caps_part CControls as bs d d1"
proof (cases "caGain K")
  case None
  then show ?thesis using assms by (simp add: caps_controls_def caps_part_def)
next
  case (Some gp)
  obtain gain setg where g: "caGain K = Some (gain, setg)" using Some by (cases gp) simp
  let ?off = "map_option (\<lambda>oc. fst oc (cdCamera d)) (caOffset K)" and ?g = "gain (cdCamera d)"
  let ?f = "\<lambda>p. let p1 = SetNumber ''Gain'' (f64_of_int (fst ?g)) p
     in case ?off of None \<Rightarrow> p1 | Some v \<Rightarrow> SetNumber ''Offset'' (f64_of_int (fst v)) p1"
  show ?thesis
  proof (cases "cdProp d CControls")
    case None
    then show ?thesis using assms g by (auto simp: caps_controls_def caps_part_def Let_def intro: caps_vectors)
  next
    case (Some p)
    have "as = [] \<and> bs = [PUpdate (?f p)] \<and> d1 = d\<lparr>cdProp := (cdProp d)(CControls := Some (?f p))\<rparr>"
      using assms g Some by (simp add: caps_controls_def Let_def)
    moreover have "shape (?f q) = shape q" "vector_of n k q \<Longrightarrow> vector_of n k (?f q)" for q n k
      by (simp_all add: Let_def split: option.split)
    ultimately show ?thesis unfolding caps_part_def using Some by (intro disjI2 exI[of _ p] exI[of _ ?f]) blast
  qed
qed

lemma set_frame_shape: "shape (set_frame frm p) = shape p"
  by (simp add: set_frame_def split: prod.split)

lemma caps_frame_part:
  assumes "caps_frame K d = (as, bs, d1)"
  shows "caps_part CFrame as bs d d1"
proof (cases "caSubframe K")
  case None
  then show ?thesis using assms by (simp add: caps_frame_def caps_part_def)
next
  case (Some gp)
  obtain get put where g: "caSubframe K = Some (get, put)" using Some by (cases gp) simp
  show ?thesis
  proof (cases "cdProp d CFrame")
    case None
    then show ?thesis using assms g by (auto simp: caps_frame_def caps_part_def Let_def intro: caps_vectors)
  next
    case (Some p)
    have "as = [] \<and> bs = [PUpdate (set_frame (get (cdCamera d)) p)] \<and>
        d1 = d\<lparr>cdProp := (cdProp d)(CFrame := Some (set_frame (get (cdCamera d)) p))\<rparr>"
      using assms g Some by (simp add: caps_frame_def Let_def)
    then show ?thesis unfolding caps_part_def using Some
      by (intro disjI2 exI[of _ p] exI[of _ "set_frame (get (cdCamera d))"]) (simp add: set_frame_shape vector_of_set_frame)
  qed
qed

lemma caps_part_applied:
  assumes "caps_part k as bs d d1" and y: "ccd_sync ts blob c n D (d\<lparr>cdPub := ps\<rparr>)"
  shows "ccd_sync ts blob c n (if bs = [] then D else insert k D) (d1\<lparr>cdPub := ps @ as\<rparr>) \<and> cdPub d1 = cdPub d \<and>
    cdName d1 = n \<and> (\<forall>b\<in>set bs. \<exists>p. b = PUpdate p \<and> cdProp d1 k = Some p \<and> bs = [b]) \<and> (\<forall>j. j \<noteq> k \<longrightarrow> cdProp d1 j = cdProp d j)"
proof -
  have n: "cdName d = n" using ccd_sync_ok[OF y] by (simp add: ccd_ok_def)
  consider "as = []" "bs = []" "d1 = d"
    | p where "as = [PDefine p]" "bs = []" "vector_of n k p" "d1 = d\<lparr>cdProp := (cdProp d)(k := Some p)\<rparr>"
    | p f where "as = []" "bs = [PUpdate (f p)]" "cdProp d k = Some p" "\<And>p. shape (f p) = shape p"
      "\<And>n p. vector_of n k p \<Longrightarrow> vector_of n k (f p)" "d1 = d\<lparr>cdProp := (cdProp d)(k := Some (f p))\<rparr>"
    using assms(1) n unfolding caps_part_def by blast
  then show ?thesis
  proof cases
    case 1
    then show ?thesis using y n by simp
  next
    case (2 p)
    have "ccd_sync ts blob c n D (post (PDefine p) ((d\<lparr>cdPub := ps\<rparr>)\<lparr>cdProp := (cdProp d)(k := Some p)\<rparr>))"
      using ccd_sync_define[OF y _ 2(3), of D] by auto
    then show ?thesis using 2 n by (simp add: post_def)
  next
    case (3 p f)
    have "ccd_sync ts blob c n (insert k D) (on_field k f (d\<lparr>cdPub := ps\<rparr>))"
      using ccd_sync_on_field[OF y 3(5,4)] by blast
    moreover have "d\<lparr>cdPub := ps, cdProp := q\<rparr> = d\<lparr>cdProp := q, cdPub := ps\<rparr>" for q by simp
    ultimately show ?thesis using 3 n by (simp add: on_field_def)
  qed
qed

lemma caps_part_told:
  assumes "ccd_sync ts blob c n D (d\<lparr>cdPub := ps\<rparr>)" and "\<forall>b\<in>set bs. \<exists>p. b = PUpdate p \<and> cdProp d k = Some p \<and> bs = [b]"
    and "if bs = [] then D \<subseteq> D' else D \<subseteq> insert k D'" and "k \<noteq> CBlob"
  shows "ccd_sync ts blob c n D' (d\<lparr>cdPub := ps @ bs\<rparr>)"
proof (cases bs)
  case Nil
  then show ?thesis using assms(1,3) ccd_sync_mono by fastforce
next
  case (Cons b bs')
  then obtain p where "bs = [PUpdate p]" "cdProp d k = Some p" using assms(2) by auto
  then show ?thesis using ccd_sync_update[OF assms(1), of k D' p] assms(3,4) by (simp add: post_def)
qed

named_theorems ccd_in_step

lemma step_defineCaps [ccd_in_step]:
  assumes y: "ccd_sync ts blob c n D d"
  shows "ccd_sync ts blob c n D (defineCaps K d)"
proof -
  obtain as bs d1 where c1: "caps_controls K d = (as, bs, d1)" by (cases "caps_controls K d") auto
  obtain as' bs' d2 where c2: "caps_frame K d1 = (as', bs', d2)" by (cases "caps_frame K d1") auto
  let ?D1 = "if bs = [] then D else insert CControls D" and ?D2 = "if bs' = [] then D else insert CFrame D"
  have "ccd_sync ts blob c n D (d\<lparr>cdPub := cdPub d\<rparr>)" using y by simp
  note p1 = caps_part_applied[OF caps_controls_part[OF c1] this]
  note p2 = caps_part_applied[OF caps_frame_part[OF c2] p1[THEN conjunct1]]
  have "ccd_sync ts blob c n ?D2 (d2\<lparr>cdPub := ((cdPub d @ as) @ as') @ bs\<rparr>)"
    by (rule caps_part_told[where k = CControls, OF p2[THEN conjunct1]]) (use p1 p2 in auto)
  then have "ccd_sync ts blob c n D (d2\<lparr>cdPub := (((cdPub d @ as) @ as') @ bs) @ bs'\<rparr>)"
    by (rule caps_part_told[where k = CFrame]) (use p2 in auto)
  moreover have "cdPub d2 = cdPub d" using p1 p2 by simp
  ultimately show ?thesis by (simp add: defineCaps_def c1 c2)
qed

section \<open>Every operation publishes what it changes\<close>

lemma step_fillInfo:
  assumes "ccd_sync ts blob c n D d"
  shows "ccd_sync ts blob c n (insert CInfo D) (fillInfo K d)"
proof -
  have "ccd_sync ts blob c n (insert CInfo D) (on_field CInfo (SetNumber n1 v1 \<circ> SetNumber n2 v2 \<circ> SetNumber n3 v3 \<circ>
      SetNumber n4 v4 \<circ> SetNumber n5 v5 \<circ> SetNumber n6 v6) d)" for n1 n2 n3 n4 n5 n6 v1 v2 v3 v4 v5 v6
    by (rule ccd_sync_on_field[OF assms]) auto
  then show ?thesis by (simp add: fillInfo_def split: prod.split)
qed

lemma step_run_frame [ccd_in_step]:
  assumes "ccd_sync ts blob c n {} d"
  shows "ccd_sync ts blob c n {} (run_frame K i d)"
proof -
  have "ccd_sync ts blob c n {CExposure} (on_field CExposure (SetNumber m v)
      (clearExposing (post (PSendBLOB (cdName d) nm el fmt blb) (d\<lparr>cdCamera := x\<rparr>))))" for m v nm el fmt blb x
    using ccd_sync_blob[of ts blob c n "{}" "d\<lparr>cdCamera := x\<rparr>" nm el fmt blb] assms
    by (intro ccd_sync_set(2)[where D = "{}"]) (simp_all add: clearExposing_def)
  note sent = this
  show ?thesis
    using assms
    by (auto simp: run_frame_def finish_def split: sum.split prod.split option.split
        intro!: ccd_sync_report ccd_sync_conclude[where D = "{}"] ccd_sync_conclude[OF sent])
      (simp_all add: clearExposing_def)
qed

lemma step_run_step [ccd_in_step]: "ccd_sync ts blob c n {} d \<Longrightarrow> ccd_sync ts blob c n {} (run_step K e d)"
  by (cases e) (auto simp: run_cancelled_def finish_def run_tick_def Let_def step_run_frame split: prod.split)

lemma step_waiting [ccd_in_step]: "ccd_sync ts blob c n {} d \<Longrightarrow> ccd_sync ts blob c n {} (waiting K sched i d)"
proof -
  have "ccd_sync ts blob c n {} d \<Longrightarrow> ccd_sync ts blob c n {} (fold (run_step K) es d)" for es
    by (induction es arbitrary: d) (auto intro: step_run_step)
  then show "ccd_sync ts blob c n {} d \<Longrightarrow> ccd_sync ts blob c n {} (waiting K sched i d)" by (simp add: waiting_def)
qed

lemma step_stopExposure [ccd_in_step]:
  assumes "ccd_sync ts blob c n {} d"
  shows "ccd_sync ts blob c n {} (stopExposure K (waiting K sched) cam d)"
  using assms by (auto simp: stopExposure_def stop_begin_def Let_def split: option.split intro!: step_waiting)

lemma step_startExposure [ccd_in_step]:
  assumes "ccd_sync ts blob c n {} d"
  shows "ccd_sync ts blob c n {} (startExposure K (waiting K sched) secs d)"
  using assms step_stopExposure[OF assms, of K sched True]
  by (auto simp: startExposure_def Let_def split: prod.split option.split
      intro!: ccd_sync_report ccd_sync_conclude[where D = "{CExposure}"] ccd_sync_set(2)[where D = "{}"] intro: ccd_sync_clean)

lemma step_connection [ccd_in_step]:
  assumes "ccd_sync ts blob c n {} d"
  shows "ccd_sync ts blob c n {} (ccd_handleConnection K (waiting K sched) ms d)"
proof -
  have on: "ccd_sync ts blob c n {CConn} (on_field CConn (SetSwitch m True) (e\<lparr>cdConnected := b\<rparr>))"
    if "ccd_sync ts blob c n {} e" for e m b
    using that by (intro ccd_sync_set(3)[where D = "{}"]) simp_all
  have info: "ccd_sync ts blob c n {CConn} (refresh CInfo (fillInfo K e))" if "ccd_sync ts blob c n {CConn} e" for e
    by (rule ccd_sync_refresh[OF step_fillInfo[OF that]]) auto
  show ?thesis
    using assms unfolding ccd_handleConnection_def
    by (auto split: option.split intro!: ccd_sync_report ccd_sync_conclude[where D = "{CConn}" and k = CConn]
        ccd_sync_conclude[where D = "{CConn}" and D' = "{CConn}"] step_defineCaps info on step_stopExposure intro: ccd_sync_clean)
qed

lemma step_handleExposure [ccd_in_step]: "ccd_sync ts blob c n {} d \<Longrightarrow> ccd_sync ts blob c n {} (handleExposure pr K (waiting K sched) ms d)"
proof (induction ms arbitrary: d)
  case (Cons m ms)
  then show ?case
    by (auto split: option.split intro!: Cons.IH ccd_sync_report ccd_sync_conclude[where D = "{}"] step_startExposure)
qed simp

lemma step_abort_loop: "ccd_sync ts blob c n {} d \<Longrightarrow> ccd_sync ts blob c n {} (abort_loop K (waiting K sched) ms d)"
proof (induction ms arbitrary: d)
  case (Cons m ms)
  then show ?case by (auto intro!: Cons.IH ccd_sync_conclude[where D = "{}"] step_stopExposure)
qed simp

lemma step_binning_loop: "ccd_sync ts blob c n {CBinning} d \<Longrightarrow> ccd_sync ts blob c n {CBinning} (snd (binning_loop ms d))"
  by (induction ms arbitrary: d) (auto split: option.split intro!: ccd_sync_set(2)[where D = "{CBinning}"])

lemma step_handleBinning [ccd_in_step]:
  assumes "ccd_sync ts blob c n {} d"
  shows "ccd_sync ts blob c n {} (handleBinning pr ms d)"
proof -
  obtain r d1 where l: "binning_loop ms d = (r, d1)" by fastforce
  have "ccd_sync ts blob c n {CBinning} d1"
    using step_binning_loop[OF ccd_sync_mono[OF assms], of ms] by (simp add: l)
  then show ?thesis
    by (auto simp: handleBinning_def l split: option.split intro!: ccd_sync_report ccd_sync_conclude[where D = "{CBinning}"])
qed

lemma step_controls_loop: "ccd_sync ts blob c n D d \<Longrightarrow> ccd_sync ts blob c n D (controls_loop pr K ms d)"
proof (induction ms arbitrary: d)
  case (Cons m ms)
  then show ?case by (auto split: option.split intro!: Cons.IH ccd_sync_report)
qed simp

lemma step_handleControls [ccd_in_step]:
  assumes "ccd_sync ts blob c n {} d"
  shows "ccd_sync ts blob c n {} (handleControls pr K ms d)"
  using assms step_controls_loop[OF assms, of pr K ms]
  by (auto simp: handleControls_def Let_def
      intro!: ccd_sync_conclude[where D = "{CControls}"] ccd_sync_on_field[where D = "{}"] split: option.split)

lemma step_handleFrame [ccd_in_step]:
  assumes "ccd_sync ts blob c n {} d"
  shows "ccd_sync ts blob c n {} (handleFrame pr K ms d)"
  using assms
  by (auto simp: handleFrame_def Let_def set_frame_shape split: option.split sum.split prod.split
      intro!: ccd_sync_report ccd_sync_conclude[where D = "{CFrame}"] ccd_sync_on_field[where D = "{}"] vector_of_set_frame)

lemma step_ccd_HandleNew [ccd_in_step]:
  assumes "ccd_sync ts blob c n {} d"
  shows "ccd_sync ts blob c n {} (ccd_HandleNew pr K (waiting K sched) name ms d)"
proof -
  have "ccd_sync ts blob c n {CAbort} (on_field CAbort (SetSwitch m b) (abort_loop K (waiting K sched) ms d))" for m b
    by (rule ccd_sync_set(3)[OF step_abort_loop[OF assms]]) simp
  then show ?thesis
    using assms unfolding ccd_HandleNew_def
    by (simp add: step_connection step_handleExposure step_handleBinning step_handleControls step_handleFrame
        ccd_sync_conclude[where D = "{CAbort}"])
qed

section \<open>Properties\<close>



end
