(* ===== verification/HubMirror.thy ===== *)
theory HubMirror
  imports CcdMirror HubDevices
begin

text \<open>
  A client at a hub: what the hub sends to one connection, read by a client, shows the client every
  device as it is. The contract of \<open>DeviceContract\<close> is extended by what a device must do for that,
  to publish what it changes; inside it, the answer to \<open>getProperties\<close> shows all devices and whatever
  is handled afterwards keeps them shown. The mount and the camera meet it.
\<close>

section \<open>The elements sent to a connection\<close>

definition wire :: "xml \<Rightarrow> string" where
  "wire x = frame (xml_bytes x)"

definition no_blobs :: "conn \<Rightarrow> bool" where
  "no_blobs c \<longleftrightarrow> (\<forall>dev name. policyFor c dev name = BlobNever)"

text \<open>From one state of a connection to another it was sent the elements \<open>xs\<close>, if it is still kept.\<close>

definition receives :: "conn \<Rightarrow> xml list \<Rightarrow> conn \<Rightarrow> bool" where
  "receives c xs c' \<longleftrightarrow> policy c' = policy c \<and> (live c' \<longrightarrow> live c \<and> conn_items c' = conn_items c @ map wire xs)"

lemma receives_refl [simp]: "receives c [] c"
  by (simp add: receives_def)

lemma receives_trans: "receives c xs c' \<Longrightarrow> receives c' ys c'' \<Longrightarrow> receives c (xs @ ys) c''"
  by (auto simp: receives_def)

lemma no_blobs_policy: "policy c = policy c' \<Longrightarrow> no_blobs c = no_blobs c'"
  by (simp add: no_blobs_def policyFor_def)

lemma receives_delivers: "receives c xs (fold (deliver L) (map wire xs) c)"
  using hub_outbox.puts_open[of L "map wire xs" c] by (simp add: receives_def conn_simps)

lemma live_send: "live (send L m c) \<Longrightarrow> live c \<and> conn_items (send L m c) = conn_items c @ [m]"
  using conn_outbox.put_open[of L m c] registered_send[of L m c] by (auto simp: live_def)

lemma receives_sends: "receives c xs (fold (send L) (map wire xs) c)"
proof (induction xs arbitrary: c)
  case (Cons x xs)
  have "receives c [x] (send L (wire x) c)" using live_send[of L "wire x" c] by (simp add: receives_def conn_simps)
  from receives_trans[OF this Cons.IH] show ?case by simp
qed simp

lemma pub_for_told: "no_blobs c \<Longrightarrow> pub_for E c a = (case pub_elem (eNow E) a of Some x \<Rightarrow> [wire x] | None \<Rightarrow> [])"
  by (cases a) (auto simp: pub_for_def wants_def no_blobs_def def_kind_def wire_def Let_def split: sum.split)

lemma map_filter_simps: "List.map_filter f [] = []"
  "List.map_filter f (a # as) = (case f a of Some x \<Rightarrow> x # List.map_filter f as | None \<Rightarrow> List.map_filter f as)"
  by (simp_all add: List.map_filter_def split: option.split)

lemma messages_for_told: "no_blobs c \<Longrightarrow> messages_for E c acts = map wire (List.map_filter (pub_elem (eNow E)) acts)"
  by (induction acts) (simp_all add: messages_for_def pub_for_told map_filter_simps split: option.split)

text \<open>A list of publications, as one connection and as its client take them.\<close>

lemma publications_reach:
  assumes "i < length cs" and "no_blobs (cs ! i)"
  shows "receives (cs ! i) (List.map_filter (pub_elem (eNow E)) acts) (fold (publish E) acts cs ! i)"
  using assms by (simp add: publishes_map messages_for_told receives_delivers)

text \<open>The answer to \<open>getProperties\<close>, as definitions published to one connection.\<close>

definition asked :: "'d device_ops \<Rightarrow> string \<Rightarrow> string \<Rightarrow> 'd list \<Rightarrow> Property list" where
  "asked ops dev name ds =
     concat (map (\<lambda>d. if dev = [] \<or> dName ops d = dev then filter (\<lambda>p. name = [] \<or> pName p = name) (dProps ops d) else []) ds)"

lemma snapshot_all_asked: "snapshot_all E ops dev name c ds = messages_for E c (map PDefine (asked ops dev name ds))"
proof -
  have "concat (map (snapshot_msg E name c) ps) = concat (map (pub_for E c) (map PDefine (filter (\<lambda>p. name = [] \<or> pName p = name) ps)))" for ps
    by (induction ps) (auto simp: snapshot_msg_def)
  then show ?thesis
    by (induction ds) (auto simp: snapshot_all_def asked_def messages_for_def)
qed

lemma snapshot_reaches:
  assumes "no_blobs c"
  shows "receives c (List.map_filter (pub_elem (eNow E)) (map PDefine (asked ops dev name ds))) (snapshot_devices E ops dev name ds c)"
  unfolding snapshot_devices_sends snapshot_all_asked messages_for_told[OF assms] by (rule receives_sends)

section \<open>Reading about devices\<close>

lemma told_all: "told ts blob (as @ bs) c = told ts blob bs (told ts blob as c)"
  by (simp add: told_def List.map_filter_def)

lemma told_Cons: "told ts blob (a # as) c = told ts blob as (case pub_elem ts a of Some x \<Rightarrow> read_elem blob x c | None \<Rightarrow> c)"
  by (simp add: told_def map_filter_simps split: option.split)

text \<open>What is published about other devices changes nothing of a device.\<close>

lemma told_elsewhere:
  assumes "\<forall>a\<in>set as. pub_device a \<noteq> n"
  shows "cl_Property (told ts blob as c) n m = cl_Property c n m"
  using assms
proof (induction as arbitrary: c)
  case (Cons a as)
  have "cl_Property (read_elem blob x c) n m = cl_Property c n m" if "pub_elem ts a = Some x" for x
  proof (cases a)
    case (PDefine p)
    then have x: "marshalDef p ts = Inr x" using that by (simp split: sum.splits)
    show ?thesis using Cons.prems PDefine
      by (auto simp: read_elem_defines[OF def_mirrors(1)[OF x]] cl_Property_applyDef def_mirrors(2)[OF x])
  next
    case (PUpdate p)
    then have x: "marshalSet p ts = Inr x" using that by (simp split: sum.splits)
    show ?thesis using Cons.prems PUpdate
      by (auto simp: read_elem_set[OF marshalSet_decoded(1)[OF x]] cl_Property_applySet marshalSet_decoded(3)[OF x])
  qed (use that Cons.prems in \<open>auto simp: told_messages\<close>)
  then show ?case using Cons by (simp add: told_Cons split: option.split)
qed simp

lemma sees_cong: "(\<And>m. cl_Property c n m = cl_Property c' n m) \<Longrightarrow> sees c n ps = sees c' n ps"
  by (simp add: sees_def)

text \<open>Nor does defining a vector again.\<close>

lemma sees_redefined:
  assumes "sees c n ps" and "\<forall>p\<in>set ps. pDevice p = n" and "distinct (map pName ps)"
    and "\<forall>p\<in>set qs. pDevice p = n \<longrightarrow> p \<in> set ps"
  shows "sees (told ts blob (map PDefine qs) c) n ps"
  using assms(1,4)
proof (induction qs arbitrary: c)
  case (Cons q qs)
  have "sees (case pub_elem ts (PDefine q) of Some x \<Rightarrow> read_elem blob x c | None \<Rightarrow> c) n ps"
  proof (cases "marshalDef q ts")
    case (Inr x)
    note r = read_elem_defines[OF def_mirrors(1)[OF Inr], of blob c]
    have other: "cl_Property (read_elem blob x c) n m = cl_Property c n m" if "pDevice q \<noteq> n \<or> m \<noteq> pName q" for m
      using that by (auto simp: r cl_Property_applyDef def_mirrors(2,3)[OF Inr])
    show ?thesis
    proof (cases "pDevice q = n")
      case False
      then show ?thesis using Cons.prems(1) other sees_cong[of "read_elem blob x c" n c] by (simp add: Inr)
    next
      case True
      then have q: "q \<in> set ps" using Cons.prems(2) by simp
      have same: "p = q" if "p \<in> set ps" "pName p = pName q" for p
        using that q assms(3) by (auto simp: distinct_map inj_on_def)
      have t: "\<exists>r. cl_Property (read_elem blob x c) n (pName q) = Some r \<and> mirrors q r"
        using tracks_defined[OF Inr, of blob c] True by (simp add: tracks_def)
      have "\<exists>r. cl_Property (read_elem blob x c) n (pName p) = Some r \<and> mirrors p r" if "p \<in> set ps" for p
        using that t same[OF that] other[of "pName p"] Cons.prems(1) by (cases "pName p = pName q") (auto simp: sees_def)
      moreover have "m \<in> pName ` set ps" if "cl_Property (read_elem blob x c) n m \<noteq> None" for m
        using that q other[of m] Cons.prems(1) by (cases "m = pName q") (auto simp: sees_def)
      ultimately show ?thesis by (simp add: Inr sees_def)
    qed
  qed (use Cons.prems in simp)
  then show ?case using Cons.IH Cons.prems(2) by (simp add: told_Cons)
qed simp

section \<open>What a device owes its clients\<close>

text \<open>The table of names finds every device, so that no two have a name in common.\<close>

definition registry :: "'d device_ops \<Rightarrow> 'd hub \<Rightarrow> bool" where
  "registry ops h \<longleftrightarrow> (\<forall>k<length (hOrder h). hDevices h (dName ops (hOrder h ! k)) = Some k)"

lemma registry_names: "registry ops h \<Longrightarrow> j < length (hOrder h) \<Longrightarrow> k < length (hOrder h) \<Longrightarrow>
    dName ops (hOrder h ! j) = dName ops (hOrder h ! k) \<Longrightarrow> j = k"
  unfolding registry_def by (metis option.inject)

lemma registry_New: "registry ops New"
  by (simp add: registry_def New_def)

lemma registry_AddDevice: "registry ops h \<Longrightarrow> AddDevice E ops d h = Inr h' \<Longrightarrow> registry ops h'"
  by (auto simp: registry_def AddDevice_def Let_def nth_append less_Suc_eq split: option.splits if_splits)
    (metis option.distinct(1))+

lemma registry_put:
  "registry ops h \<Longrightarrow> dName ops d' = dName ops (hOrder h ! k) \<Longrightarrow> registry ops (h\<lparr>hOrder := (hOrder h)[k := d'], hConns := cs\<rparr>)"
proof -
  assume "registry ops h" "dName ops d' = dName ops (hOrder h ! k)"
  then show ?thesis unfolding registry_def by (cases "k < length (hOrder h)") (simp_all add: nth_list_update)
qed

lemma registry_conns [simp]: "registry ops (h\<lparr>hConns := cs\<rparr>) = registry ops h"
  by (simp add: registry_def)

text \<open>The first \<open>m\<close> devices of the hub are seen by a client.\<close>

definition shows_devices :: "'d device_ops \<Rightarrow> nat \<Rightarrow> 'd hub \<Rightarrow> client \<Rightarrow> bool" where
  "shows_devices ops m h c \<longleftrightarrow>
     m \<le> length (hOrder h) \<and> (\<forall>k<m. sees c (dName ops (hOrder h ! k)) (dProps ops (hOrder h ! k)))"

lemma shows_devices_conns [simp]: "shows_devices ops m (h\<lparr>hConns := cs\<rparr>) c = shows_devices ops m h c"
  by (simp add: shows_devices_def)

text \<open>What happens beside a client on connection \<open>i\<close> keeps the devices in its sight.\<close>

definition keeps_shown :: "'d device_ops \<Rightarrow> nat \<Rightarrow> (xml \<Rightarrow> client \<Rightarrow> client) \<Rightarrow> nat \<Rightarrow> client \<Rightarrow> 'd hub \<Rightarrow> 'd hub \<Rightarrow> bool" where
  "keeps_shown ops i blob m c h h' \<longleftrightarrow>
     length (hConns h') = length (hConns h) \<and>
     (\<exists>xs. receives (hConns h ! i) xs (hConns h' ! i) \<and> shows_devices ops m h' (fold (read_elem blob) xs c))"

locale informing_device = indi_device +
  assumes informs: "inv d \<Longrightarrow> sees c (dName ops d) (dProps ops d) \<Longrightarrow> dHandle ops d name ms = (acts, d') \<Longrightarrow>
      sees (told ts blob acts c) (dName ops d) (dProps ops d')"
    and alert_put: "inv d \<Longrightarrow> j < length (dProps ops d) \<Longrightarrow>
      dProps ops (dPut ops d j (SetState Alert (dProps ops d ! j))) = (dProps ops d)[j := SetState Alert (dProps ops d ! j)]"
    and vectors: "inv d \<Longrightarrow> p \<in> set (dProps ops d) \<Longrightarrow>
      distinct (map mName (pMembers p)) \<and> pType p \<in> {NumberType, SwitchType, TextType, BLOBType}"
begin

lemma defined: "inv d \<Longrightarrow> p \<in> set (dProps ops d) \<Longrightarrow> \<exists>x. marshalDef p ts = Inr x"
  using vectors[of d p] by (intro marshalDef_known) auto

text \<open>What device \<open>k\<close> publishes, turning into \<open>d'\<close>, keeps all devices in sight.\<close>

lemma device_told:
  assumes h: "registry ops h" and s: "shows_devices ops m h c" and k: "k < length (hOrder h)"
    and n: "dName ops d' = dName ops (hOrder h ! k)" and acts: "\<forall>a\<in>set acts. pub_device a = dName ops (hOrder h ! k)"
    and d': "k < m \<Longrightarrow> sees (told ts blob acts c) (dName ops (hOrder h ! k)) (dProps ops d')"
  shows "shows_devices ops m (h\<lparr>hOrder := (hOrder h)[k := d'], hConns := cs\<rparr>) (told ts blob acts c)"
  unfolding shows_devices_def
proof (intro conjI allI impI)
  show "m \<le> length (hOrder (h\<lparr>hOrder := (hOrder h)[k := d'], hConns := cs\<rparr>))" using s by (simp add: shows_devices_def)
  fix j assume j: "j < m"
  let ?e = "hOrder (h\<lparr>hOrder := (hOrder h)[k := d'], hConns := cs\<rparr>) ! j"
  show "sees (told ts blob acts c) (dName ops ?e) (dProps ops ?e)"
  proof (cases "j = k")
    case True
    then show ?thesis using d' j k n by simp
  next
    case False
    have "j < length (hOrder h)" using s j by (simp add: shows_devices_def)
    then have "dName ops (hOrder h ! k) \<noteq> dName ops (hOrder h ! j)" using registry_names[OF h _ k] False by metis
    then have "cl_Property (told ts blob acts c) (dName ops (hOrder h ! j)) m' = cl_Property c (dName ops (hOrder h ! j)) m'" for m'
      using acts by (intro told_elsewhere) simp
    then show ?thesis using False s j sees_cong[of "told ts blob acts c" "dName ops (hOrder h ! j)" c]
      by (simp add: shows_devices_def)
  qed
qed

text \<open>A rejected number: the alert is shown.\<close>

lemma alert_told:
  assumes d: "inv d" and s: "sees c (dName ops d) (dProps ops d)" and j: "j < length (dProps ops d)"
    and num: "pType (dProps ops d ! j) = NumberType" and p: "p = SetState Alert (dProps ops d ! j)"
  shows "sees (told ts blob [PUpdate p, PMessage (pDevice p) msg] c) (dName ops d) ((dProps ops d)[j := p])"
proof -
  let ?ps = "dProps ops d" and ?n = "dName ops d"
  have q: "?ps ! j \<in> set ?ps" using j by simp
  note own = owned[OF d q] and v = vectors[OF d q]
  have sh: "shape p = shape (?ps ! j)" by (simp add: p)
  note parts = shape_parts[OF sh]
  obtain x where x: "marshalSet p ts = Inr x" using num parts(3) by (auto simp: marshalSet_def snapshot_def)
  note dec = marshalSet_decoded[OF x]
  have known: "tracks (?ps ! j) c" using s q own by (auto simp: sees_def tracks_def)
  have t: "tracks p (read_elem blob x c)" by (rule tracks_set[OF known x sh]) (use v parts(6) in simp)
  have told: "cl_Property (told ts blob [PUpdate p, PMessage (pDevice p) msg] c) = cl_Property (read_elem blob x c)"
    by (simp add: told_Cons x told_messages)
  have seen: "cl_Property (read_elem blob x c) ?n m =
      (if m = pName p then map_option (set_property (decode_wSetVector x)) (cl_Property c ?n m) else cl_Property c ?n m)" for m
    using own parts(1) by (simp add: read_elem_set[OF dec(1)] cl_Property_applySet dec(3))
  have names: "map pName (?ps[j := p]) = map pName ?ps" using j parts(2) by (simp add: map_update list_update_same_conv)
  have "\<exists>r. cl_Property (read_elem blob x c) ?n (pName p') = Some r \<and> mirrors p' r" if "p' \<in> set (?ps[j := p])" for p'
  proof -
    obtain i where i: "i < length ?ps" "p' = (?ps[j := p]) ! i" using \<open>p' \<in> set (?ps[j := p])\<close> by (auto simp: in_set_conv_nth)
    show ?thesis
    proof (cases "i = j")
      case True
      then show ?thesis using t i own parts(1) by (simp add: tracks_def)
    next
      case False
      then have "pName (?ps ! i) \<noteq> pName (?ps ! j)" using names[unfolded] indi_device.names[OF indi_device_axioms d] i(1) j
        by (metis length_map nth_eq_iff_index_eq nth_map)
      then show ?thesis using s i False parts(2) by (simp add: seen sees_def)
    qed
  qed
  moreover have "m \<in> pName ` set (?ps[j := p])" if "cl_Property (read_elem blob x c) ?n m \<noteq> None" for m
  proof -
    have "cl_Property c ?n m \<noteq> None" using that by (simp add: seen split: if_splits)
    then have "m \<in> set (map pName ?ps)" using s by (simp add: sees_def)
    then show ?thesis unfolding names[symmetric] by simp
  qed
  ultimately show ?thesis unfolding sees_def told by blast
qed

text \<open>One element from connection \<open>j\<close>.\<close>

lemma keeps_shown_same:
  assumes "shows_devices ops m h c" and "length cs = length (hConns h)"
    and "receives (hConns h ! i) xs (cs ! i)" and "\<And>d n. cl_Property (fold (read_elem blob) xs c) d n = cl_Property c d n"
  shows "keeps_shown ops i blob m c h (h\<lparr>hConns := cs\<rparr>)"
proof -
  have "shows_devices ops m h (fold (read_elem blob) xs c)"
    using assms(1,4) sees_cong[of "fold (read_elem blob) xs c" _ c] by (simp add: shows_devices_def)
  then show ?thesis using assms(2,3) by (auto simp: keeps_shown_def)
qed

lemma keeps_shown_told:
  assumes h: "registry ops h" and s: "shows_devices ops m h c" and k: "k < length (hOrder h)"
    and i: "i < length (hConns h)" and b: "no_blobs (hConns h ! i)"
    and n: "dName ops d' = dName ops (hOrder h ! k)" and acts: "\<forall>a\<in>set acts. pub_device a = dName ops (hOrder h ! k)"
    and d': "k < m \<Longrightarrow> sees (told (eNow E) blob acts c) (dName ops (hOrder h ! k)) (dProps ops d')"
  shows "keeps_shown ops i blob m c h (h\<lparr>hOrder := (hOrder h)[k := d'], hConns := fold (publish E) acts (hConns h)\<rparr>)"
proof -
  have "receives (hConns h ! i) (List.map_filter (pub_elem (eNow E)) acts) (fold (publish E) acts (hConns h) ! i)"
    by (rule publications_reach[OF i b])
  moreover have "shows_devices ops m (h\<lparr>hOrder := (hOrder h)[k := d'], hConns := fold (publish E) acts (hConns h)\<rparr>)
      (fold (read_elem blob) (List.map_filter (pub_elem (eNow E)) acts) c)"
    unfolding told_def[symmetric] by (rule device_told[OF h s k n acts d'])
  ultimately show ?thesis by (auto simp: keeps_shown_def publishes_map)
qed

lemma asked_known:
  assumes ok: "hub_ok h" and h: "registry ops h" and k: "k < length (hOrder h)"
    and p: "p \<in> set (asked ops dev name (hOrder h))" "pDevice p = dName ops (hOrder h ! k)"
  shows "p \<in> set (dProps ops (hOrder h ! k))"
proof -
  obtain d where d: "d \<in> set (hOrder h)" "p \<in> set (dProps ops d)" using p(1) by (auto simp: asked_def split: if_splits)
  then obtain l where l: "l < length (hOrder h)" "d = hOrder h ! l" by (auto simp: in_set_conv_nth)
  have "dName ops (hOrder h ! l) = dName ops (hOrder h ! k)" using hub_ok_owned[OF ok d] p(2) l(2) by simp
  then show ?thesis using registry_names[OF h l(1) k] d(2) l(2) by blast
qed

lemma snapshot_shown:
  assumes ok: "hub_ok h" and h: "registry ops h" and s: "shows_devices ops m h c"
    and i: "i < length (hConns h)" and b: "no_blobs (hConns h ! i)"
  shows "keeps_shown ops i blob m c h (hub_snapshot E ops j dev name h)"
proof (cases "j = i")
  case True
  let ?ps = "asked ops dev name (hOrder h)"
  have "sees (told (eNow E) blob (map PDefine ?ps) c) (dName ops (hOrder h ! k)) (dProps ops (hOrder h ! k))" if "k < m" for k
  proof -
    have k: "k < length (hOrder h)" "sees c (dName ops (hOrder h ! k)) (dProps ops (hOrder h ! k))"
      using s that by (simp_all add: shows_devices_def)
    then have d: "inv (hOrder h ! k)" using ok by (simp add: hub_ok_def)
    show ?thesis
      by (rule sees_redefined[OF k(2) _ names[OF d]]) (use owned[OF d] asked_known[OF ok h k(1)] in auto)
  qed
  then have "shows_devices ops m h (told (eNow E) blob (map PDefine ?ps) c)" using s by (simp add: shows_devices_def)
  then show ?thesis
    using snapshot_reaches[OF b, of E ops dev name "hOrder h"] i True
    by (auto simp: keeps_shown_def hub_snapshot_def told_def[symmetric] intro!: exI[of _ "List.map_filter (pub_elem (eNow E)) (map PDefine ?ps)"])
next
  case False
  then show ?thesis using keeps_shown_same[OF s, of "hConns (hub_snapshot E ops j dev name h)" i "[]" blob]
    by (simp add: hub_snapshot_def)
qed

lemma judge_rejects_number: "judge pr ps elem v = Rejected j why \<Longrightarrow> pType (ps ! j) = NumberType"
  by (auto simp: judge_def Let_def split: option.splits if_splits)

lemma dispatch_shown:
  assumes ok: "hub_ok h" and h: "registry ops h" and s: "shows_devices ops m h c"
    and i: "i < length (hConns h)" and b: "no_blobs (hConns h ! i)"
  shows "keeps_shown ops i blob m c h (dispatchNew E ops j elem v h)"
proof (cases "hDevices h (xnDevice v)")
  case None
  then show ?thesis using keeps_shown_same[OF s, of "hConns h" i "[]" blob] by (simp add: dispatchNew_def device_def)
next
  case (Some k)
  then have k: "k < length (hOrder h)" using ok by (simp add: hub_ok_def)
  let ?d = "hOrder h ! k"
  have d: "inv ?d" using ok k by (simp add: hub_ok_def)
  have seen: "k < m \<Longrightarrow> sees c (dName ops ?d) (dProps ops ?d)" using s by (simp add: shows_devices_def)
  show ?thesis
  proof (cases "judge (ePrint E) (dProps ops ?d) elem v")
    case (Dropped why)
    let ?x = "xmessage (xnDevice v) (eNow E) (drop_message (ePrint E) elem v why)"
    let ?cs = "(hConns h)[j := messageTo E (xnDevice v) (drop_message (ePrint E) elem v why) (hConns h ! j)]"
    have "keeps_shown ops i blob m c h (h\<lparr>hConns := ?cs\<rparr>)"
    proof (rule keeps_shown_same[OF s])
      show "receives (hConns h ! i) (if j = i then [?x] else []) (?cs ! i)"
        using receives_sends[of "hConns h ! i" "[?x]" "eLimits E"] i by (simp add: messageTo_def wire_def)
    qed (simp_all add: told_messages)
    then show ?thesis using Some Dropped by (simp add: dispatchNew_def device_def Let_def)
  next
    case (Rejected l why)
    let ?p = "SetState Alert (dProps ops ?d ! l)"
    let ?acts = "[PUpdate ?p, PMessage (pDevice ?p) (pName ?p @ '': '' @ why)]"
    have l: "l < length (dProps ops ?d)" by (rule judge_rejects[OF Rejected])
    have dev: "pDevice ?p = dName ops ?d" using owned[OF d, of "dProps ops ?d ! l"] l by (simp add: SetState_def)
    have "keeps_shown ops i blob m c h (h\<lparr>hOrder := (hOrder h)[k := dPut ops ?d l ?p], hConns := fold (publish E) ?acts (hConns h)\<rparr>)"
    proof (rule keeps_shown_told[OF h s k i b])
      show "dName ops (dPut ops ?d l ?p) = dName ops ?d" using alert[OF d l] by simp
      show "\<forall>a\<in>set ?acts. pub_device a = dName ops ?d" using dev by simp
      show "sees (told (eNow E) blob ?acts c) (dName ops ?d) (dProps ops (dPut ops ?d l ?p))" if "k < m"
        unfolding alert_put[OF d l] by (rule alert_told[OF d seen[OF that] l judge_rejects_number[OF Rejected] refl])
    qed
    then show ?thesis using Some Rejected by (simp add: dispatchNew_def device_def rejectNumber_def Let_def)
  next
    case (Handed ms)
    obtain acts d' where a: "dHandle ops ?d (xnName v) ms = (acts, d')" by fastforce
    have "keeps_shown ops i blob m c h (h\<lparr>hOrder := (hOrder h)[k := d'], hConns := fold (publish E) acts (hConns h)\<rparr>)"
      using handle[OF d a] informs[OF d seen a] by (intro keeps_shown_told[OF h s k i b]) auto
    then show ?thesis using Some Handed a by (simp add: dispatchNew_def device_def)
  qed
qed

lemma registry_elem:
  assumes ok: "hub_ok h" and h: "registry ops h"
  shows "registry ops (handle_elem E ops j x h)"
proof -
  have put: "registry ops (h\<lparr>hOrder := (hOrder h)[k := d'], hConns := cs\<rparr>)" if "dName ops d' = dName ops (hOrder h ! k)" for k d' cs
    using h that by (rule registry_put)
  have "registry ops (dispatchNew E ops j elem v h)" for elem v
  proof (cases "hDevices h (xnDevice v)")
    case (Some k)
    then have d: "inv (hOrder h ! k)" using ok by (auto simp: hub_ok_def)
    show ?thesis
    proof (cases "judge (ePrint E) (dProps ops (hOrder h ! k)) elem v")
      case (Rejected l why)
      then show ?thesis using Some put alert[OF d judge_rejects[OF Rejected]]
        by (simp add: dispatchNew_def device_def rejectNumber_def Let_def)
    next
      case (Handed ms)
      then show ?thesis using Some put handle[OF d]
        by (simp add: dispatchNew_def device_def split: prod.split)
    qed (use Some h in \<open>simp add: dispatchNew_def device_def\<close>)
  qed (use h in \<open>simp add: dispatchNew_def device_def\<close>)
  then show ?thesis using h by (simp add: handle_elem_def Let_def hub_snapshot_def split: option.split)
qed

lemma elem_shown:
  assumes ok: "hub_ok h" and h: "registry ops h" and s: "shows_devices ops m h c"
    and i: "i < length (hConns h)" and b: "no_blobs (hConns h ! i)" and no: "j = i \<longrightarrow> elem_name x \<noteq> ''enableBLOB''"
  shows "keeps_shown ops i blob m c h (handle_elem E ops j x h)"
proof -
  have same: "keeps_shown ops i blob m c h h" using keeps_shown_same[OF s, of "hConns h" i "[]" blob] by simp
  have "keeps_shown ops i blob m c h (h\<lparr>hConns := (hConns h)[j := setPolicy dev nm pol (hConns h ! j)]\<rparr>)" if "j \<noteq> i" for dev nm pol
    using keeps_shown_same[OF s, of "(hConns h)[j := setPolicy dev nm pol (hConns h ! j)]" i "[]" blob] that by simp
  then show ?thesis
    using same no snapshot_shown[OF ok h s i b] dispatch_shown[OF ok h s i b]
    by (auto simp: handle_elem_def Let_def split: option.split)
qed

text \<open>The answer to a request for all properties shows a newcomer all devices.\<close>

lemma newcomer_shown:
  assumes ok: "hub_ok h" and h: "registry ops h" and k: "k \<le> length (hOrder h)"
  shows "(\<forall>l<k. sees (told ts blob (map PDefine (asked ops [] [] (take k (hOrder h)))) newClient) (dName ops (hOrder h ! l)) (dProps ops (hOrder h ! l))) \<and>
    (\<forall>l. k \<le> l \<and> l < length (hOrder h) \<longrightarrow>
      (\<forall>n. cl_Property (told ts blob (map PDefine (asked ops [] [] (take k (hOrder h)))) newClient) (dName ops (hOrder h ! l)) n = None))"
  using k
proof (induction k)
  case 0
  then show ?case by (simp add: asked_def cl_Property_def newClient_def)
next
  case (Suc k)
  let ?d = "hOrder h ! k" and ?c = "told ts blob (map PDefine (asked ops [] [] (take k (hOrder h)))) newClient"
  let ?c' = "told ts blob (map PDefine (dProps ops ?d)) ?c"
  have k: "k < length (hOrder h)" using Suc.prems by simp
  have d: "inv ?d" using ok k by (simp add: hub_ok_def)
  have IH: "\<And>l. l < k \<Longrightarrow> sees ?c (dName ops (hOrder h ! l)) (dProps ops (hOrder h ! l))"
    "\<And>l n. k \<le> l \<Longrightarrow> l < length (hOrder h) \<Longrightarrow> cl_Property ?c (dName ops (hOrder h ! l)) n = None"
    using Suc by simp_all
  have c': "told ts blob (map PDefine (asked ops [] [] (take (Suc k) (hOrder h)))) newClient = ?c'"
    using k by (simp add: take_Suc_conv_app_nth asked_def told_all)
  have xs: "list_all2 (\<lambda>p x. \<exists>ts. marshalDef p ts = Inr x) (dProps ops ?d) (map (\<lambda>p. projr (marshalDef p ts)) (dProps ops ?d))"
    unfolding list_all2_map2 using defined[OF d, of _ ts] by (intro list.rel_refl_strong) (metis sum.sel(2))
  have all: "List.map_filter (pub_elem ts) (map PDefine ps) = map (\<lambda>p. projr (marshalDef p ts)) ps"
    if "\<forall>p\<in>set ps. \<exists>x. marshalDef p ts = Inr x" for ps
    using that by (induction ps) (auto simp: map_filter_simps)
  have "sees ?c' (dName ops ?d) (dProps ops ?d)"
    using stranger_sees[OF xs names[OF d], of "dName ops ?d" ?c blob] owned[OF d] IH(2)[of k] k defined[OF d]
    by (simp add: told_def all)
  moreover have "cl_Property ?c' (dName ops (hOrder h ! l)) n = cl_Property ?c (dName ops (hOrder h ! l)) n"
    if "l \<noteq> k" "l < length (hOrder h)" for l n
    using registry_names[OF h that(2) k] that(1) owned[OF d] by (intro told_elsewhere) auto
  moreover from this have "sees ?c' (dName ops (hOrder h ! l)) (dProps ops (hOrder h ! l))" if "l < k" for l
    using IH(1)[OF that] that k sees_cong[of ?c' "dName ops (hOrder h ! l)" ?c] by simp
  ultimately show ?case unfolding c' using IH(2) by (auto simp: less_Suc_eq)
qed

end

section \<open>The mount and the camera\<close>

interpretation mount_shown: informing_device "mount_ops_of pr K" "\<lambda>d. mount_ok (mdName d) (mdDualAxisCap d) (d\<lparr>mdPub := []\<rparr>)"
  for pr and K :: "'m mount_ops"
proof unfold_locales
  fix d d' :: "'m mount_dev" and c name ms acts ts blob
  assume d: "mount_ok (mdName d) (mdDualAxisCap d) (d\<lparr>mdPub := []\<rparr>)"
    and s: "sees c (dName (mount_ops_of pr K) d) (dProps (mount_ops_of pr K) d)"
    and h: "dHandle (mount_ops_of pr K) d name ms = (acts, d')"
  let ?e = "mount_HandleNew pr K name ms (d\<lparr>mdPub := []\<rparr>)"
  have r: "acts = mdPub ?e" "d' = ?e\<lparr>mdPub := []\<rparr>" using h by (simp_all add: mount_ops_of_def Let_def)
  have same: "mount_Properties K (e\<lparr>mdPub := []\<rparr>) = mount_Properties K e" for e by (simp add: mount_Properties_def mount_fields_def)
  have "sync K ts blob c (mdName d) (mdDualAxisCap d) {} (d\<lparr>mdPub := []\<rparr>)"
    using sync_sees[OF _ d, of K ts blob c] s same[of d] by (simp add: mount_ops_of_def)
  then show "sees (told ts blob acts c) (dName (mount_ops_of pr K) d) (dProps (mount_ops_of pr K) d')"
    unfolding r using sync_seen[OF step_HandleNew] same by (simp add: mount_ops_of_def)
next
  fix d :: "'m mount_dev" and j
  assume "j < length (dProps (mount_ops_of pr K) d)"
  moreover have "distinct (mount_fields K d)" by (simp add: mount_fields_def)
  moreover have f: "mount_fields K (on_prop k g d) = mount_fields K d" for k g by (simp add: mount_fields_def on_prop_def)
  ultimately show "dProps (mount_ops_of pr K) (dPut (mount_ops_of pr K) d j (SetState Alert (dProps (mount_ops_of pr K) d ! j))) =
      (dProps (mount_ops_of pr K) d)[j := SetState Alert (dProps (mount_ops_of pr K) d ! j)]"
    by (simp add: mount_ops_of_def mount_Properties_def f list_eq_iff_nth_eq nth_list_update)
      (simp add: on_prop_def nth_eq_iff_index_eq)
next
  fix d :: "'m mount_dev" and p
  assume d: "mount_ok (mdName d) (mdDualAxisCap d) (d\<lparr>mdPub := []\<rparr>)" and p: "p \<in> set (dProps (mount_ops_of pr K) d)"
  then show "distinct (map mName (pMembers p)) \<and> pType p \<in> {NumberType, SwitchType, TextType, BLOBType}"
    using mount_ok_facts(2,4)[OF d] by (auto simp: mount_ops_of_def mount_Properties_def)
qed

interpretation ccd_shown: informing_device "ccd_ops_of pr K (waiting K sched)" "\<lambda>d. ccd_ok (cdName d) (d\<lparr>cdPub := []\<rparr>)"
  for pr and K :: "'c camera_ops" and sched
proof unfold_locales
  fix d d' :: "'c ccd_dev" and c name ms acts ts blob
  assume d: "ccd_ok (cdName d) (d\<lparr>cdPub := []\<rparr>)"
    and s: "sees c (dName (ccd_ops_of pr K (waiting K sched)) d) (dProps (ccd_ops_of pr K (waiting K sched)) d)"
    and h: "dHandle (ccd_ops_of pr K (waiting K sched)) d name ms = (acts, d')"
  let ?e = "ccd_HandleNew pr K (waiting K sched) name ms (d\<lparr>cdPub := []\<rparr>)"
  have r: "acts = cdPub ?e" "d' = ?e\<lparr>cdPub := []\<rparr>" using h by (simp_all add: ccd_ops_of_def Let_def)
  have same: "ccd_Properties (e\<lparr>cdPub := []\<rparr>) = ccd_Properties e" for e :: "'c ccd_dev" by (simp add: ccd_Properties_def ccd_fields_def)
  have "ccd_sync ts blob c (cdName d) {} (d\<lparr>cdPub := []\<rparr>)"
    using ccd_sync_seen[OF d, of ts blob c] s same[of d] by (simp add: ccd_ops_of_def)
  then have y: "ccd_sync ts blob c (cdName d) {} ?e" by (rule step_ccd_HandleNew)
  then show "sees (told ts blob acts c) (dName (ccd_ops_of pr K (waiting K sched)) d) (dProps (ccd_ops_of pr K (waiting K sched)) d')"
    unfolding r using ccd_sync_seen[OF ccd_sync_ok[OF y], of ts blob c] same by (simp add: ccd_ops_of_def)
next
  fix d :: "'c ccd_dev" and j
  assume j: "j < length (dProps (ccd_ops_of pr K (waiting K sched)) d)"
  let ?k = "ccd_fields d ! j" and ?p = "SetState Alert (ccd_Properties d ! j)"
  have len: "j < length (ccd_fields d)" using j by (simp add: ccd_ops_of_def ccd_Properties_def)
  have "?k \<in> set (ccd_fields d)" using len by simp
  then obtain p where p: "cdProp d ?k = Some p" by (auto dest: ccd_fields_some)
  have f: "ccd_fields (on_field ?k (\<lambda>_. ?p) d) = ccd_fields d"
    unfolding ccd_fields_def by (rule filter_cong) (auto simp: on_field_def p)
  have "distinct (ccd_fields d)" by (simp add: ccd_fields_def)
  then show "dProps (ccd_ops_of pr K (waiting K sched)) (dPut (ccd_ops_of pr K (waiting K sched)) d j
        (SetState Alert (dProps (ccd_ops_of pr K (waiting K sched)) d ! j))) =
      (dProps (ccd_ops_of pr K (waiting K sched)) d)[j := SetState Alert (dProps (ccd_ops_of pr K (waiting K sched)) d ! j)]"
    using len p f by (simp add: ccd_ops_of_def ccd_Properties_def list_eq_iff_nth_eq nth_list_update nth_eq_iff_index_eq)
      (simp add: on_field_def nth_eq_iff_index_eq)
next
  fix d :: "'c ccd_dev" and p
  assume d: "ccd_ok (cdName d) (d\<lparr>cdPub := []\<rparr>)" and p: "p \<in> set (dProps (ccd_ops_of pr K (waiting K sched)) d)"
  then obtain k where "cdProp d k = Some p" by (auto simp: ccd_ops_of_def ccd_Properties_iff)
  then have v: "vector_of (cdName d) k p" using ccd_ok_vector[OF d] by simp
  have "field_type k \<in> {NumberType, SwitchType, TextType, BLOBType}" by (cases k) (simp_all add: field_type_def)
  then show "distinct (map mName (pMembers p)) \<and> pType p \<in> {NumberType, SwitchType, TextType, BLOBType}"
    using v by (simp add: vector_of_def)
qed

locale informing_pair = left: informing_device A invA + right: informing_device B invB
  for A :: "'a device_ops" and invA and B :: "'b device_ops" and invB

sublocale informing_pair \<subseteq> device_pair A invA B invB
  by unfold_locales

sublocale informing_pair \<subseteq> both: informing_device "either_ops A B" "case_sum invA invB"
proof unfold_locales
  fix d d' c name ms acts ts blob
  assume "case_sum invA invB d" "sees c (dName (either_ops A B) d) (dProps (either_ops A B) d)"
    "dHandle (either_ops A B) d name ms = (acts, d')"
  then show "sees (told ts blob acts c) (dName (either_ops A B) d) (dProps (either_ops A B) d')"
    using left.informs right.informs by (cases d) (auto simp: either_ops_def apsnd_def map_prod_def split: prod.splits)
next
  fix d j
  assume "case_sum invA invB d" "j < length (dProps (either_ops A B) d)"
  then show "dProps (either_ops A B) (dPut (either_ops A B) d j (SetState Alert (dProps (either_ops A B) d ! j))) =
      (dProps (either_ops A B) d)[j := SetState Alert (dProps (either_ops A B) d ! j)]"
    using left.alert_put right.alert_put by (cases d) (auto simp: either_ops_def)
next
  fix d p
  assume "case_sum invA invB d" "p \<in> set (dProps (either_ops A B) d)"
  then show "distinct (map mName (pMembers p)) \<and> pType p \<in> {NumberType, SwitchType, TextType, BLOBType}"
    using left.vectors right.vectors by (cases d) (auto simp: either_ops_def)
qed

interpretation site_shown: informing_pair "mount_ops_of pr KM" "\<lambda>d. mount_ok (mdName d) (mdDualAxisCap d) (d\<lparr>mdPub := []\<rparr>)"
    "ccd_ops_of pr KC (waiting KC sched)" "\<lambda>d. ccd_ok (cdName d) (d\<lparr>cdPub := []\<rparr>)"
  for pr and KM :: "'m mount_ops" and KC :: "'c camera_ops" and sched
  by unfold_locales

lemma site_informing: "informing_device (site_ops pr KM KC sched) site_inv"
  unfolding site_ops_def site_inv_def by (rule site_shown.both.informing_device_axioms)

section \<open>A client attending a hub\<close>

text \<open>What devices do on their own; the poll of a mount without optics.\<close>

inductive mount_activity :: "'m mount_ops \<Rightarrow> 'm mount_dev \<Rightarrow> 'm mount_dev \<Rightarrow> bool" for K where
  task: "i < length (mdTasks d) \<Longrightarrow>
    mount_activity K d (run_task K (mdTasks d ! i) (d\<lparr>mdTasks := take i (mdTasks d) @ drop (Suc i) (mdTasks d)\<rparr>))"
| cancelled: "i < length (mdTasks d) \<Longrightarrow> mdTasks d ! i = GuideDone k \<Longrightarrow>
    mount_activity K d (d\<lparr>mdTasks := take i (mdTasks d) @ drop (Suc i) (mdTasks d)\<rparr>)"
| polled: "moOptics K = None \<Longrightarrow> mount_activity K d (poll K d)"
| moved: "mount_activity K d (d\<lparr>mdMount := m\<rparr>)"

inductive camera_activity :: "'c camera_ops \<Rightarrow> 'c ccd_dev \<Rightarrow> 'c ccd_dev \<Rightarrow> bool" for K where
  goroutine: "camera_activity K d (run_step K e d)"
| changed: "camera_activity K d (d\<lparr>cdCamera := c\<rparr>)"
| shut_down: "camera_activity K d (d\<lparr>cdRuns := map (\<lambda>r. r\<lparr>ruCancelled := True\<rparr>) (cdRuns d)\<rparr>)"

text \<open>From the moment the client on connection \<open>i\<close> asks for all properties: elements of every connection,
  the devices' activity, connections coming, going and being written, devices being added. The
  client itself enables no BLOBs.\<close>

inductive attended ::
  "'m mount_ops \<Rightarrow> 'c camera_ops \<Rightarrow> nat \<Rightarrow> ('m mount_dev + 'c ccd_dev) hub \<Rightarrow> ('m mount_dev + 'c ccd_dev) hub \<Rightarrow> bool"
  for KM KC i h0 where
  asks: "elem_name x = ''getProperties'' \<Longrightarrow> get_attr ''device'' x = [] \<Longrightarrow> get_attr ''name'' x = [] \<Longrightarrow>
    attended KM KC i h0 (handle_elem E (site_ops (ePrint E) KM KC sched) i x h0)"
| inbound: "attended KM KC i h0 h \<Longrightarrow> (j = i \<longrightarrow> elem_name x \<noteq> ''enableBLOB'') \<Longrightarrow>
    attended KM KC i h0 (handle_elem E (site_ops (ePrint E) KM KC sched) j x h)"
| mount_acts: "attended KM KC i h0 h \<Longrightarrow> k < length (hOrder h) \<Longrightarrow> hOrder h ! k = Inl d \<Longrightarrow>
    mount_activity KM (d\<lparr>mdPub := []\<rparr>) d' \<Longrightarrow>
    attended KM KC i h0 (h\<lparr>hOrder := (hOrder h)[k := Inl (d'\<lparr>mdPub := []\<rparr>)], hConns := fold (publish E) (mdPub d') (hConns h)\<rparr>)"
| camera_acts: "attended KM KC i h0 h \<Longrightarrow> k < length (hOrder h) \<Longrightarrow> hOrder h ! k = Inr d \<Longrightarrow>
    camera_activity KC (d\<lparr>cdPub := []\<rparr>) d' \<Longrightarrow>
    attended KM KC i h0 (h\<lparr>hOrder := (hOrder h)[k := Inr (d'\<lparr>cdPub := []\<rparr>)], hConns := fold (publish E) (cdPub d') (hConns h)\<rparr>)"
| connections: "attended KM KC i h0 h \<Longrightarrow> length (hConns h) \<le> length cs \<Longrightarrow> receives (hConns h ! i) [] (cs ! i) \<Longrightarrow>
    attended KM KC i h0 (h\<lparr>hConns := cs\<rparr>)"
| add_mount: "attended KM KC i h0 h \<Longrightarrow>
    AddDevice E (site_ops (ePrint E) KM KC sched) (Inl (mount_New KM n rate m)) h = Inr h' \<Longrightarrow> attended KM KC i h0 h'"
| add_camera: "attended KM KC i h0 h \<Longrightarrow>
    AddDevice E (site_ops (ePrint E) KM KC sched) (Inr (ccd_New KC n c)) h = Inr h' \<Longrightarrow> attended KM KC i h0 h'"

text \<open>The writer's progress, and the hub's or the writer's dropping of a connection, are of this kind.\<close>

lemma conn_steps_receive:
  assumes "conn_step L c e c'" and "e = Count \<or> e = LoopEnd \<or> (\<exists>b. e = Pop b \<or> e = WriteOk b) \<or> e \<in> {Unregister, CloseQueue, CloseSocket}"
  shows "receives c [] c'"
  using assms by (cases rule: conn_step.cases)
    (auto simp: receives_def live_def conn_open_def conn_items_def unregister_def close_queue_def close_socket_def chan_close_def
      split: if_splits)

lemma dropped_receives: "receives c [] (removeConn c)"
  by (simp add: receives_def live_def conn_open_def removeConn_def conn_defs)

lemma mount_activity_step: "mount_activity K d d' \<Longrightarrow> mount_step pr K d d'"
  by (induction rule: mount_activity.induct) (auto intro: mount_step.intros)

lemma camera_activity_step: "camera_activity K d d' \<Longrightarrow> ccd_step pr K allowed d d'"
  by (induction rule: camera_activity.induct) (auto intro: ccd_step.intros)

lemma mount_activity_sync:
  "mount_activity K d d' \<Longrightarrow> sync K ts blob c n s {} d \<Longrightarrow> sync K ts blob c n s {} d'"
  by (induction rule: mount_activity.induct) (auto intro: step_run_task step_poll)

lemma camera_activity_sync: "camera_activity K d d' \<Longrightarrow> ccd_sync ts blob c n {} d \<Longrightarrow> ccd_sync ts blob c n {} d'"
  by (induction rule: camera_activity.induct) (auto intro: step_run_step)

definition site_view :: "'m mount_ops \<Rightarrow> 'c camera_ops \<Rightarrow> nat \<Rightarrow> ('m mount_dev + 'c ccd_dev) hub \<Rightarrow> client \<Rightarrow> bool" where
  "site_view KM KC m h c \<longleftrightarrow> shows_devices (site_ops (\<lambda>r. True) KM KC (\<lambda>i. [])) m h c"

definition site_registry :: "'m mount_ops \<Rightarrow> 'c camera_ops \<Rightarrow> ('m mount_dev + 'c ccd_dev) hub \<Rightarrow> bool" where
  "site_registry KM KC h \<longleftrightarrow> registry (site_ops (\<lambda>r. True) KM KC (\<lambda>i. [])) h"

lemma site_props: "dProps (site_ops pr KM KC sched) = case_sum (mount_Properties KM) ccd_Properties"
  by (simp add: site_ops_def either_ops_def mount_ops_of_def ccd_ops_of_def)

lemma site_view_ops: "shows_devices (site_ops pr KM KC sched) m h c = site_view KM KC m h c"
  by (simp add: site_view_def shows_devices_def site_name site_props)

lemma site_registry_ops: "registry (site_ops pr KM KC sched) h = site_registry KM KC h"
  by (simp add: site_registry_def registry_def site_name)

lemma site_step_registry: "site_step E KM KC h h' \<Longrightarrow> site_ok KM KC h \<Longrightarrow> site_registry KM KC h \<Longrightarrow> site_registry KM KC h'"
proof (induction rule: site_step.induct)
  case (inbound h sched i x)
  then show ?case
    using informing_device.registry_elem[OF site_informing, of "ePrint E" KM KC sched h E i x] by (simp only: site_hub_ok site_registry_ops)
next
  case (mount_acts k h d d')
  note d = site_inv_nth[OF mount_acts(4,1), unfolded mount_acts(2)]
  from mount_acts_ok[OF d mount_acts(3)] show ?case
    using mount_acts(2,5) unfolding site_registry_def by (intro registry_put) (simp_all add: site_name)
next
  case (camera_acts k h d d')
  note d = site_inv_nth[OF camera_acts(4,1), unfolded camera_acts(2)]
  from camera_acts_ok[OF d camera_acts(3)] show ?case
    using camera_acts(2,5) unfolding site_registry_def by (intro registry_put) (simp_all add: site_name)
next
  case (connections h cs)
  then show ?case by (simp add: site_registry_def)
next
  case (add_mount sched n rate m h h')
  then show ?case using registry_AddDevice by (metis site_registry_ops)
next
  case (add_camera sched n c h h')
  then show ?case using registry_AddDevice by (metis site_registry_ops)
qed

lemma site_running_registry: "site_running E KM KC h \<Longrightarrow> site_registry KM KC h"
proof (induction rule: site_running.induct)
  case start
  show ?case unfolding site_registry_def by (rule registry_New)
next
  case (step h h')
  then show ?case using site_running_ok site_step_registry by blast
qed

text \<open>The invariant of an attended hub.\<close>

definition in_view ::
  "'m mount_ops \<Rightarrow> 'c camera_ops \<Rightarrow> nat \<Rightarrow> (xml \<Rightarrow> client \<Rightarrow> client) \<Rightarrow> ('m mount_dev + 'c ccd_dev) hub \<Rightarrow>
   ('m mount_dev + 'c ccd_dev) hub \<Rightarrow> bool" where
  "in_view KM KC i blob h0 h \<longleftrightarrow>
     site_ok KM KC h \<and> site_registry KM KC h \<and> i < length (hConns h) \<and>
     (\<exists>xs. receives (hConns h0 ! i) xs (hConns h ! i) \<and>
        site_view KM KC (length (hOrder h0)) h (fold (read_elem blob) xs newClient))"

lemma in_view_asks:
  assumes ok: "site_ok KM KC h" "site_registry KM KC h" and i: "i < length (hConns h)" "no_blobs (hConns h ! i)"
    and x: "elem_name x = ''getProperties''" "get_attr ''device'' x = []" "get_attr ''name'' x = []"
  shows "in_view KM KC i blob h (handle_elem E (site_ops (ePrint E) KM KC sched) i x h)"
proof -
  let ?O = "site_ops (ePrint E) KM KC sched"
  let ?xs = "List.map_filter (pub_elem (eNow E)) (map PDefine (asked ?O [] [] (hOrder h)))"
  have h: "handle_elem E ?O i x h = hub_snapshot E ?O i [] [] h" using x by (simp add: handle_elem_def decode_get_def)
  have "\<forall>l<length (hOrder h). sees (told (eNow E) blob (map PDefine (asked ?O [] [] (hOrder h))) newClient)
      (dName ?O (hOrder h ! l)) (dProps ?O (hOrder h ! l))"
    using informing_device.newcomer_shown[OF site_informing, of "ePrint E" KM KC sched h "length (hOrder h)" "eNow E" blob] ok
    by (simp only: site_hub_ok site_registry_ops take_all_iff order.refl take_all simp_thms) blast
  then have "shows_devices ?O (length (hOrder h)) (hub_snapshot E ?O i [] [] h) (fold (read_elem blob) ?xs newClient)"
    by (simp add: shows_devices_def hub_snapshot_def told_def)
  moreover have "receives (hConns h ! i) ?xs (hConns (hub_snapshot E ?O i [] [] h) ! i)"
    using snapshot_reaches[OF i(2), of E ?O "[]" "[]" "hOrder h"] i(1) by (simp add: hub_snapshot_def)
  moreover have "site_ok KM KC (hub_snapshot E ?O i [] [] h)" "site_registry KM KC (hub_snapshot E ?O i [] [] h)"
    using site_ok_elem[OF ok(1), of E "ePrint E" sched i x] ok(2) by (simp_all add: h) (simp add: hub_snapshot_def site_registry_def)
  ultimately show ?thesis
    unfolding in_view_def h site_view_ops using i(1) by (auto simp: hub_snapshot_def)
qed

lemma in_view_keeps:
  assumes v: "in_view KM KC i blob h0 h" and b: "no_blobs (hConns h0 ! i)" and ok: "site_ok KM KC h'" "site_registry KM KC h'"
    and k: "\<And>c m. i < length (hConns h) \<Longrightarrow> no_blobs (hConns h ! i) \<Longrightarrow> site_view KM KC m h c \<Longrightarrow>
      keeps_shown (site_ops pr KM KC sched) i blob m c h h'"
  shows "in_view KM KC i blob h0 h'"
proof -
  let ?m = "length (hOrder h0)"
  obtain xs where i: "i < length (hConns h)" and xs: "receives (hConns h0 ! i) xs (hConns h ! i)"
    "site_view KM KC ?m h (fold (read_elem blob) xs newClient)" using v by (auto simp: in_view_def)
  have "policy (hConns h ! i) = policy (hConns h0 ! i)" using xs(1) by (simp add: receives_def)
  then have "no_blobs (hConns h ! i)" using b no_blobs_policy[of "hConns h ! i" "hConns h0 ! i"] by simp
  from k[OF i this xs(2)] obtain ys where "length (hConns h') = length (hConns h)" "receives (hConns h ! i) ys (hConns h' ! i)"
    "site_view KM KC ?m h' (fold (read_elem blob) (xs @ ys) newClient)"
    by (auto simp: keeps_shown_def site_view_ops)
  then show ?thesis using ok i receives_trans[OF xs(1)] by (auto simp: in_view_def simp del: fold_append)
qed

lemma keeps_shown_AddDevice:
  assumes "AddDevice E ops d h = Inr h'" and "shows_devices ops m h c"
  shows "keeps_shown ops i blob m c h h'"
proof -
  have h': "hOrder h' = hOrder h @ [d]" "hConns h' = hConns h"
    using assms(1) by (auto simp: AddDevice_def Let_def split: option.splits if_splits)
  then have "shows_devices ops m h' c" using assms(2) by (simp add: shows_devices_def nth_append)
  then show ?thesis unfolding keeps_shown_def h' by (intro conjI exI[of _ "[]"]) simp_all
qed

lemma in_view_add:
  assumes v: "in_view KM KC i blob h0 h" and b: "no_blobs (hConns h0 ! i)" and d: "site_inv d"
    and a: "AddDevice E (site_ops (ePrint E) KM KC sched) d h = Inr h'"
  shows "in_view KM KC i blob h0 h'"
proof (rule in_view_keeps[OF v b])
  show "site_ok KM KC h'" using v site_ok_add[OF _ d a] by (simp add: in_view_def)
  show "site_registry KM KC h'" using v registry_AddDevice[OF _ a] by (simp add: in_view_def site_registry_ops)
  show "keeps_shown (site_ops (ePrint E) KM KC sched) i blob m c h h'" if "site_view KM KC m h c" for c m
    using keeps_shown_AddDevice[OF a] that by (simp add: site_view_ops)
qed

text \<open>A device's own activity, for either kind of device.\<close>

lemma in_view_acts:
  assumes v: "in_view KM KC i blob h0 h" and b: "no_blobs (hConns h0 ! i)" and k: "k < length (hOrder h)"
    and d': "site_inv d'" "case_sum mdName cdName d' = case_sum mdName cdName (hOrder h ! k)"
    and acts: "\<forall>a\<in>set acts. pub_device a = case_sum mdName cdName (hOrder h ! k)"
    and told: "\<And>c. sees c (case_sum mdName cdName (hOrder h ! k)) (case_sum (mount_Properties KM) ccd_Properties (hOrder h ! k)) \<Longrightarrow>
      sees (told (eNow E) blob acts c) (case_sum mdName cdName (hOrder h ! k)) (case_sum (mount_Properties KM) ccd_Properties d')"
  shows "in_view KM KC i blob h0 (h\<lparr>hOrder := (hOrder h)[k := d'], hConns := fold (publish E) acts (hConns h)\<rparr>)"
proof (rule in_view_keeps[OF v b])
  let ?h' = "h\<lparr>hOrder := (hOrder h)[k := d'], hConns := fold (publish E) acts (hConns h)\<rparr>"
  have ok: "site_ok KM KC h" "site_registry KM KC h" using v by (simp_all add: in_view_def)
  show "site_ok KM KC ?h'" by (rule site_ok_put[OF ok(1) k d'])
  show "site_registry KM KC ?h'" using ok(2) d'(2) unfolding site_registry_def by (intro registry_put) (simp_all add: site_name)
  let ?O = "site_ops (ePrint E) KM KC (\<lambda>i. [])"
  show "keeps_shown ?O i blob m c h ?h'"
    if i: "i < length (hConns h)" "no_blobs (hConns h ! i)" and s: "site_view KM KC m h c" for c m
  proof (rule informing_device.keeps_shown_told[OF site_informing _ _ k i])
    show "registry ?O h" "shows_devices ?O m h c" using ok(2) s by (simp_all add: site_registry_ops site_view_ops)
    then show "sees (told (eNow E) blob acts c) (dName ?O (hOrder h ! k)) (dProps ?O d')" if "k < m"
      using told that by (simp add: shows_devices_def site_name site_props)
  qed (use d' acts in \<open>simp_all add: site_name\<close>)
qed

lemma in_view_mount:
  assumes v: "in_view KM KC i blob h0 h" and b: "no_blobs (hConns h0 ! i)" and k: "k < length (hOrder h)"
    and d: "hOrder h ! k = Inl d" and a: "mount_activity KM (d\<lparr>mdPub := []\<rparr>) d'"
  shows "in_view KM KC i blob h0 (h\<lparr>hOrder := (hOrder h)[k := Inl (d'\<lparr>mdPub := []\<rparr>)], hConns := fold (publish E) (mdPub d') (hConns h)\<rparr>)"
proof (rule in_view_acts[OF v b k])
  have inv: "site_inv (Inl d :: 'a mount_dev + 'b ccd_dev)" using v site_inv_nth[of KM KC h k] k d by (simp add: in_view_def)
  then have ok: "mount_ok (mdName d) (mdDualAxisCap d) (d\<lparr>mdPub := []\<rparr>)" by (simp add: site_inv_def)
  have ok': "mount_ok (mdName d) (mdDualAxisCap d) d'" by (rule mount_step_ok[OF mount_activity_step[OF a, of "\<lambda>r. True"] ok])
  note acts_ok = mount_acts_ok[OF inv mount_activity_step[OF a, of "\<lambda>r. True"]]
  show "site_inv (Inl (d'\<lparr>mdPub := []\<rparr>) :: 'a mount_dev + 'b ccd_dev)" using acts_ok by simp
  show "case_sum mdName cdName (Inl (d'\<lparr>mdPub := []\<rparr>)) = case_sum mdName cdName (hOrder h ! k)" using acts_ok d by simp
  show "\<forall>a\<in>set (mdPub d'). pub_device a = case_sum mdName cdName (hOrder h ! k)" using ok' d by (auto simp: mount_ok_def pub_ok_def)
  have same: "mount_Properties KM (e\<lparr>mdPub := []\<rparr>) = mount_Properties KM e" for e by (simp add: mount_Properties_def mount_fields_def)
  show "sees (told (eNow E) blob (mdPub d') c) (case_sum mdName cdName (hOrder h ! k))
      (case_sum (mount_Properties KM) ccd_Properties (Inl (d'\<lparr>mdPub := []\<rparr>)))"
    if "sees c (case_sum mdName cdName (hOrder h ! k)) (case_sum (mount_Properties KM) ccd_Properties (hOrder h ! k))" for c
  proof -
    have "sync KM (eNow E) blob c (mdName d) (mdDualAxisCap d) {} (d\<lparr>mdPub := []\<rparr>)"
      using that sync_sees[OF _ ok, of KM "eNow E" blob c] same d by simp
    from sync_seen[OF mount_activity_sync[OF a this]] show ?thesis using same d by simp
  qed
qed

lemma in_view_camera:
  assumes v: "in_view KM KC i blob h0 h" and b: "no_blobs (hConns h0 ! i)" and k: "k < length (hOrder h)"
    and d: "hOrder h ! k = Inr d" and a: "camera_activity KC (d\<lparr>cdPub := []\<rparr>) d'"
  shows "in_view KM KC i blob h0 (h\<lparr>hOrder := (hOrder h)[k := Inr (d'\<lparr>cdPub := []\<rparr>)], hConns := fold (publish E) (cdPub d') (hConns h)\<rparr>)"
proof (rule in_view_acts[OF v b k])
  have inv: "site_inv (Inr d :: 'a mount_dev + 'b ccd_dev)" using v site_inv_nth[of KM KC h k] k d by (simp add: in_view_def)
  then have ok: "ccd_ok (cdName d) (d\<lparr>cdPub := []\<rparr>)" by (simp add: site_inv_def)
  have ok': "ccd_ok (cdName d) d'"
    by (rule ccd_step_ok[OF camera_activity_step[OF a, of "\<lambda>r. True" "\<lambda>s. True"] ok])
  note acts_ok = camera_acts_ok[OF inv camera_activity_step[OF a, of "\<lambda>r. True" "\<lambda>s. True"]]
  show "site_inv (Inr (d'\<lparr>cdPub := []\<rparr>) :: 'a mount_dev + 'b ccd_dev)" using acts_ok by simp
  show "case_sum mdName cdName (Inr (d'\<lparr>cdPub := []\<rparr>)) = case_sum mdName cdName (hOrder h ! k)" using acts_ok d by simp
  show "\<forall>a\<in>set (cdPub d'). pub_device a = case_sum mdName cdName (hOrder h ! k)" using ok' d by (auto simp: ccd_ok_def update_ok_def)
  have same: "ccd_Properties (e\<lparr>cdPub := []\<rparr>) = ccd_Properties e" for e :: "'b ccd_dev" by (simp add: ccd_Properties_def ccd_fields_def)
  show "sees (told (eNow E) blob (cdPub d') c) (case_sum mdName cdName (hOrder h ! k))
      (case_sum (mount_Properties KM) ccd_Properties (Inr (d'\<lparr>cdPub := []\<rparr>)))"
    if "sees c (case_sum mdName cdName (hOrder h ! k)) (case_sum (mount_Properties KM) ccd_Properties (hOrder h ! k))" for c
  proof -
    have "ccd_sync (eNow E) blob c (cdName d) {} (d\<lparr>cdPub := []\<rparr>)"
      using that ccd_sync_seen[OF ok, of "eNow E" blob c] same[of d] d by simp
    then have y: "ccd_sync (eNow E) blob c (cdName d) {} d'" by (rule camera_activity_sync[OF a])
    then show ?thesis using ccd_sync_seen[OF ccd_sync_ok[OF y], of "eNow E" blob c] same[of d'] d by simp
  qed
qed

lemma attended_in_view:
  assumes "attended KM KC i h0 h" and "site_ok KM KC h0" and "site_registry KM KC h0" and "i < length (hConns h0)"
    and b: "no_blobs (hConns h0 ! i)"
  shows "in_view KM KC i blob h0 h"
  using assms(1)
proof (induction rule: attended.induct)
  case (asks x E sched)
  show ?case by (rule in_view_asks[OF assms(2-5) asks])
next
  case (inbound h j x E sched)
  let ?O = "site_ops (ePrint E) KM KC sched"
  have ok: "site_ok KM KC h" "site_registry KM KC h" using inbound.IH by (simp_all add: in_view_def)
  show ?case
  proof (rule in_view_keeps[OF inbound.IH b])
    show "site_ok KM KC (handle_elem E ?O j x h)" by (rule site_ok_elem[OF ok(1)])
    show "site_registry KM KC (handle_elem E ?O j x h)"
      using informing_device.registry_elem[OF site_informing, of "ePrint E" KM KC sched h E j x] ok by (simp only: site_hub_ok site_registry_ops)
    show "keeps_shown ?O i blob m c h (handle_elem E ?O j x h)"
      if "i < length (hConns h)" "no_blobs (hConns h ! i)" "site_view KM KC m h c" for c m
      using informing_device.elem_shown[OF site_informing, of "ePrint E" KM KC sched h m c i j x blob E] that ok inbound.hyps(2)
      by (simp only: site_hub_ok site_registry_ops site_view_ops simp_thms)
  qed
next
  case (mount_acts h k d d' E)
  show ?case by (rule in_view_mount[OF mount_acts.IH b mount_acts.hyps(2-4)])
next
  case (camera_acts h k d d' E)
  show ?case by (rule in_view_camera[OF camera_acts.IH b camera_acts.hyps(2-4)])
next
  case (connections h cs)
  then have "site_ok KM KC (h\<lparr>hConns := cs\<rparr>)" "site_registry KM KC (h\<lparr>hConns := cs\<rparr>)"
    using indi_device.hub_ok_conns[OF site_device, of "\<lambda>r. True" KM KC "\<lambda>i. []" h cs]
    by (simp_all add: in_view_def site_hub_ok) (simp add: site_registry_def)
  moreover have "receives (hConns h0 ! i) xs (cs ! i)" if "receives (hConns h0 ! i) xs (hConns h ! i)" for xs
    using receives_trans[OF that connections.hyps(3)] by simp
  ultimately show ?case using connections.IH connections.hyps(2) by (auto simp: in_view_def site_view_def)
next
  case (add_mount h E sched n rate m h')
  show ?case by (rule in_view_add[OF add_mount.IH b new_devices_ok(1) add_mount.hyps(2)])
next
  case (add_camera h E sched n c h')
  show ?case by (rule in_view_add[OF add_camera.IH b new_devices_ok(2) add_camera.hyps(2)])
qed

section \<open>Properties\<close>


text \<open>For the witness: a hub with a camera and one connection, with room for the answer, and a client
  that asks.\<close>

lemma sends_fit:
  "live c \<Longrightarrow> length (queue c) + length ms \<le> outQueueMsgs L \<Longrightarrow> qbytes c + int (length (concat ms)) \<le> outQueueBytes L \<Longrightarrow>
    live (fold (send L) ms c)"
proof (induction ms arbitrary: c)
  case (Cons m ms)
  then have "send L m c = (chan_send m c)\<lparr>qbytes := qbytes c + int (length m)\<rparr>"
    by (auto simp: send_cases live_def conn_open_def)
  then have "live (send L m c)" "queue (send L m c) = queue c @ [m]" "qbytes (send L m c) = qbytes c + int (length m)"
    using Cons.prems(1) by (auto simp: live_def conn_open_def chan_send_def)
  then show ?case using Cons.prems(2,3) by (simp add: Cons.IH)
qed simp

definition sample_site :: "((direction \<times> int) list mount_dev + nat ccd_dev) hub" where
  "sample_site = New\<lparr>hDevices := [''CCD'' \<mapsto> 0], hOrder := [Inr (ccd_New sample_camera ''CCD'' 0)], hConns := [newConn ''a'']\<rparr>"

definition sample_answer :: "string list" where
  "sample_answer = map wire (List.map_filter (pub_elem ''T'') (map PDefine (ccd_Properties (ccd_New sample_camera ''CCD'' 0))))"

definition roomy_env :: env where
  "roomy_env = sample_env\<lparr>eLimits := \<lparr>outQueueMsgs = 64, outQueueBytes = int (length (concat sample_answer))\<rparr>\<rparr>"

lemma sample_site_runs: "site_running sample_env sample_mount sample_camera sample_site"
proof -
  let ?O = "site_ops (\<lambda>r. True) sample_mount sample_camera (\<lambda>i. [])"
  have n: "dName ?O (Inr (ccd_New sample_camera ''CCD'' 0)) = ''CCD''" unfolding site_name by code_simp
  have a: "AddDevice sample_env ?O (Inr (ccd_New sample_camera ''CCD'' 0)) New = Inr (sample_site\<lparr>hConns := []\<rparr>)"
    by (simp add: AddDevice_def n sample_site_def New_def)
  have pr: "ePrint sample_env = (\<lambda>r. True)" by (simp add: sample_env_def)
  have "site_running sample_env sample_mount sample_camera ((sample_site\<lparr>hConns := []\<rparr>)\<lparr>hConns := [newConn ''a'']\<rparr>)"
    by (rule site_running.step[OF site_running.step[OF site_running.start
        site_step.add_camera[where E = sample_env and sched = "\<lambda>i. []", unfolded pr, OF a]] site_step.connections])
  then show ?thesis by (simp add: sample_site_def New_def)
qed

lemma live_newConn: "live (newConn a)" "no_blobs (newConn a)"
  by (simp_all add: live_def conn_open_def newConn_def no_blobs_def policyFor_def)


end
