(* ===== verification/ClientInflate.thy ===== *)
theory ClientInflate
  imports ClientBlob
begin

text \<open>
  The counter of \<open>client/blob.go\<close> that inflates a copy of a compressed payload while it arrives: a pipe
  into a goroutine that reads a zlib stream and counts. The zlib reader is a parameter; the pipe
  is the library's: a write hands its bytes to the reader and returns when they are taken, or
  fails when the reading end is closed. Its result is shown to be the inflated length of the
  whole payload, which is what the argument \<open>inflate\<close> of \<open>ClientBlob\<close> stands for.
\<close>

section \<open>The zlib reader\<close>

text \<open>What the reader has come to once it has read these bytes, or None while it wants more; and what it
  comes to when the stream ends there: the count and the error of \<open>io.Copy\<close>, with 0 and its error
  where \<open>NewReader\<close> fails, and the error of \<open>Close\<close>.\<close>

type_synonym drained = "int \<times> string option \<times> string option"
type_synonym outcome = "int \<times> string option"

record zlib =
  zOver :: "byte list \<Rightarrow> drained option"
  zEnd :: "byte list \<Rightarrow> drained"

text \<open>Documented of \<open>compress/zlib\<close>: a reader that has returned the end of the stream or an error has
  read no further, so that what follows does not matter.\<close>

definition reads_once :: "zlib \<Rightarrow> bool" where
  "reads_once Z \<longleftrightarrow> (\<forall>bs cs r. zOver Z bs = Some r \<longrightarrow> zOver Z (bs @ cs) = Some r)"

definition drain :: "zlib \<Rightarrow> byte list \<Rightarrow> drained" where
  "drain Z bs = (case zOver Z bs of Some r \<Rightarrow> r | None \<Rightarrow> zEnd Z bs)"

text \<open>The goroutine keeps the error of \<open>Close\<close> where there is no other.\<close>

definition settled :: "drained \<Rightarrow> outcome" where
  "settled r = (case r of (n, err, cerr) \<Rightarrow> (n, if err = None then cerr else err))"

definition inflates :: "zlib \<Rightarrow> byte list \<Rightarrow> outcome" where
  "inflates Z bs = settled (drain Z bs)"

text \<open>The argument of \<open>readOneBlob\<close>; and \<open>inflatedLen\<close> of \<open>conform/conform.go\<close>, for a payload in memory.\<close>

definition inflated :: "zlib \<Rightarrow> byte list \<Rightarrow> int option" where
  "inflated Z bs = (case inflates Z bs of (n, None) \<Rightarrow> Some n | (n, Some e) \<Rightarrow> None)"

definition inflatedLen :: "zlib \<Rightarrow> byte list \<Rightarrow> string + int" where
  "inflatedLen Z bs = (case drain Z bs of (n, None, cerr) \<Rightarrow> Inr n | (n, Some e, cerr) \<Rightarrow> Inl e)"

section \<open>The counter\<close>

text \<open>\<open>icFed\<close> is what the goroutine has read, \<open>icDone\<close> its count and error once the channel \<open>done\<close> is
  closed, \<open>icClosed\<close> whether the writing end is closed.\<close>

record inflateCounter =
  icBroken :: bool
  icFed :: "byte list"
  icDone :: "outcome option"
  icClosed :: bool

definition newInflateCounter :: inflateCounter where
  "newInflateCounter = \<lparr>icBroken = False, icFed = [], icDone = None, icClosed = False\<rparr>"

text \<open>A write to the pipe; the goroutine reads through a buffer of 4096 bytes. The flag says whether the
  write returned no error: the reading end, closed once the goroutine is through, fails it.\<close>

definition reader_takes :: "zlib \<Rightarrow> byte list \<Rightarrow> inflateCounter \<Rightarrow> inflateCounter" where
  "reader_takes Z p ic = ic\<lparr>icFed := icFed ic @ p, icDone := map_option settled (zOver Z (icFed ic @ p))\<rparr>"

function pipe_write :: "zlib \<Rightarrow> byte list \<Rightarrow> inflateCounter \<Rightarrow> bool \<times> inflateCounter" where
  "pipe_write Z p ic =
     (if icClosed ic \<or> icDone ic \<noteq> None then (False, ic)
      else let ic' = reader_takes Z (take 4096 p) ic
           in if length p \<le> 4096 then (True, ic') else pipe_write Z (drop 4096 p) ic')"
  by pat_completeness auto
termination by (relation "measure (\<lambda>(Z, p, ic). length p)") auto

declare pipe_write.simps [simp del]

definition ic_Write :: "zlib \<Rightarrow> byte list \<Rightarrow> inflateCounter \<Rightarrow> inflateCounter" where
  "ic_Write Z p ic =
     (if icBroken ic then ic
      else case pipe_write Z p ic of (ok, ic') \<Rightarrow> if ok then ic' else ic'\<lparr>icBroken := True\<rparr>)"

text \<open>Closing the writing end lets a waiting reader see the end of the stream; then the goroutine is
  waited for.\<close>

definition ic_stop :: "zlib \<Rightarrow> inflateCounter \<Rightarrow> inflateCounter" where
  "ic_stop Z ic = ic\<lparr>icClosed := True, icDone := (case icDone ic of Some r \<Rightarrow> Some r | None \<Rightarrow> Some (settled (zEnd Z (icFed ic))))\<rparr>"

definition ic_result :: "zlib \<Rightarrow> inflateCounter \<Rightarrow> outcome \<times> inflateCounter" where
  "ic_result Z ic = (let ic' = ic_stop Z ic in (the (icDone ic'), ic'))"

section \<open>What it counts\<close>

text \<open>The counter against the bytes written so far: it has read them, or a part that decided it.\<close>

definition counts :: "zlib \<Rightarrow> byte list \<Rightarrow> inflateCounter \<Rightarrow> bool" where
  "counts Z bs ic \<longleftrightarrow>
     \<not> icClosed ic \<and> (\<exists>rest. bs = icFed ic @ rest \<and> (icDone ic = None \<longrightarrow> rest = [] \<and> \<not> icBroken ic)) \<and>
     icDone ic = map_option settled (zOver Z (icFed ic))"

lemma counts_more: "counts Z bs ic \<Longrightarrow> icDone ic \<noteq> None \<Longrightarrow> counts Z (bs @ p) ic"
  by (auto simp: counts_def)

lemma pipe_write_counts:
  "counts Z bs ic \<Longrightarrow> counts Z (bs @ p) (snd (pipe_write Z p ic)) \<and>
    (\<not> fst (pipe_write Z p ic) \<longrightarrow> icDone (snd (pipe_write Z p ic)) \<noteq> None)"
proof (induction Z p ic arbitrary: bs rule: pipe_write.induct)
  case (1 Z p ic)
  let ?ic = "reader_takes Z (take 4096 p) ic"
  show ?case
  proof (cases "icClosed ic \<or> icDone ic \<noteq> None")
    case True
    moreover have "\<not> icClosed ic" using "1.prems" unfolding counts_def by blast
    ultimately have "icDone ic \<noteq> None" by blast
    then show ?thesis using counts_more[OF "1.prems"] by (simp add: pipe_write.simps[of Z p ic])
  next
    case False
    then have running: "icDone ic = None" by blast
    then have bs: "bs = icFed ic" using "1.prems" unfolding counts_def by force
    have c: "counts Z (bs @ take 4096 p) ?ic"
      using "1.prems" running bs unfolding counts_def by (simp add: reader_takes_def)
    show ?thesis
    proof (cases "length p \<le> 4096")
      case True
      then show ?thesis using c False by (simp add: pipe_write.simps[of Z p ic])
    next
      case long: False
      from "1.IH"[OF False refl long c] show ?thesis
        using False long by (simp add: pipe_write.simps[of Z p ic] Let_def)
    qed
  qed
qed

lemma ic_Write_counts: "counts Z bs ic \<Longrightarrow> counts Z (bs @ p) (ic_Write Z p ic)"
proof -
  assume c: "counts Z bs ic"
  note w = pipe_write_counts[OF c, of p]
  show ?thesis
  proof (cases "icBroken ic")
    case True
    then have "icDone ic \<noteq> None" using c by (metis counts_def)
    then show ?thesis using True counts_more[OF c] by (simp add: ic_Write_def)
  next
    case False
    obtain ok ic' where p: "pipe_write Z p ic = (ok, ic')" by fastforce
    have "counts Z (bs @ p) (ic'\<lparr>icBroken := True\<rparr>)" if "icDone ic' \<noteq> None"
      using w that by (simp add: counts_def p)
    then show ?thesis using w False by (simp add: ic_Write_def p)
  qed
qed

lemma ic_Writes_count: "counts Z bs ic \<Longrightarrow> counts Z (bs @ concat ps) (fold (ic_Write Z) ps ic)"
proof (induction ps arbitrary: bs ic)
  case (Cons p ps)
  from Cons.IH[OF ic_Write_counts[OF Cons.prems, of p]] show ?case by simp
qed simp

lemma counts_result:
  assumes "reads_once Z" and c: "counts Z bs ic"
  shows "fst (ic_result Z ic) = inflates Z bs"
proof -
  obtain rest where r: "bs = icFed ic @ rest" "icDone ic = None \<longrightarrow> rest = []" "icDone ic = map_option settled (zOver Z (icFed ic))"
    by (rule c[unfolded counts_def, THEN conjunct2, THEN conjE]) auto
  show ?thesis
  proof (cases "zOver Z (icFed ic)")
    case None
    then show ?thesis using r by (simp add: ic_result_def ic_stop_def inflates_def drain_def)
  next
    case (Some x)
    then have "zOver Z bs = Some x" using assms(1) r(1) unfolding reads_once_def by blast
    then show ?thesis using Some r(3) by (simp add: ic_result_def ic_stop_def inflates_def drain_def)
  qed
qed

section \<open>Properties\<close>

text \<open>C9: However a payload arrives in pieces, and however early the zlib stream ends or breaks, the
  counter's writes return, its result is what the whole payload inflates to, and stopping it
  again, before or after the result, changes nothing.\<close>

theorem inflate_counted:
  assumes "reads_once Z" and "zOver Z [] = None"
  shows "ic_result Z (fold (ic_Write Z) ps newInflateCounter) =
      (inflates Z (concat ps), ic_stop Z (fold (ic_Write Z) ps newInflateCounter)) \<and>
    ic_stop Z (ic_stop Z ic) = ic_stop Z ic \<and> fst (ic_result Z (ic_stop Z ic)) = fst (ic_result Z ic)"
proof -
  have "counts Z [] newInflateCounter" using assms(2) by (simp add: counts_def newInflateCounter_def)
  then have "counts Z (concat ps) (fold (ic_Write Z) ps newInflateCounter)"
    using ic_Writes_count[of Z "[]" newInflateCounter ps] by simp
  from counts_result[OF assms(1) this] show ?thesis
    by (simp add: ic_result_def ic_stop_def split: option.split)
qed

text \<open>For the witness: a reader of streams that end at the first zero and stand for a byte each before
  it.\<close>

definition sample_zlib :: zlib where
  "sample_zlib =
     \<lparr>zOver = (\<lambda>bs. if 0 \<in> set bs then Some (int (length (takeWhile (\<lambda>b. b \<noteq> 0) bs)), None, None) else None),
      zEnd = (\<lambda>bs. (int (length bs), Some ''unexpected EOF'', Some ''unexpected EOF''))\<rparr>"

theorem inflate_counted_witness:
  "fst (ic_result sample_zlib (fold (ic_Write sample_zlib) [[1, 2], [3, 0, 9], [8]] newInflateCounter)) = (3, None)"
proof -
  have "reads_once sample_zlib"
    by (auto simp: reads_once_def sample_zlib_def takeWhile_append1 split: if_splits)
  moreover have "zOver sample_zlib [] = None" by (simp add: sample_zlib_def)
  ultimately show ?thesis
    using inflate_counted[of sample_zlib "[[1, 2], [3, 0, 9], [8]]" newInflateCounter]
    by (simp add: inflates_def drain_def settled_def sample_zlib_def)
qed

end
