(* ===== verification/Indiconform.thy ===== *)
theory Indiconform
  imports Conform
begin

text \<open>
  The command \<open>cmd/indiconform/main.go\<close> over the checker, and \<open>Dial\<close> of \<open>client/client.go\<close>. The flags are parsed by
  the library; the outcome of dialling is an argument, and so is the caller's world, in which the
  run's timeout shows as the end of a turn or of the context. The constants of \<open>client/trackrate.go\<close>
  are here too.
\<close>

section \<open>Dialling\<close>

definition Dial :: "string \<Rightarrow> string option \<Rightarrow> string + client" where
  "Dial addr failed =
     (case failed of Some e \<Rightarrow> Inl (''indi client: dial '' @ addr @ '': '' @ e) | None \<Rightarrow> Inr newClient)"

section \<open>The command\<close>

record flags =
  flAddr :: string
  flDevice :: string
  flMutate :: bool

definition default_flags :: flags where
  "default_flags = \<lparr>flAddr = ''localhost:7624'', flDevice = [], flMutate = False\<rparr>"

text \<open>\<open>%-4s\<close>.\<close>

definition padded :: "nat \<Rightarrow> string \<Rightarrow> string" where
  "padded n s = s @ replicate (n - length s) (CHR '' '')"

definition em_dash :: string where
  "em_dash = [CHR 0xE2, CHR 0x80, CHR 0x94]"

definition result_line :: "Result \<Rightarrow> string" where
  "result_line q =
     (let st = ''['' @ padded 4 (Status_String (reStatus q)) @ ''] '';
          line = (if reDevice q \<noteq> [] then st @ reDevice q @ '': '' @ reCheck q else st @ reCheck q)
      in (if reDetail q \<noteq> [] then line @ '' '' @ em_dash @ '' '' @ reDetail q else line) @ [CHR 0x0A])"

definition summary_line :: "Result list \<Rightarrow> string" where
  "summary_line rs =
     (case Summarize rs of (pass, fail, warn, info) \<Rightarrow>
        [CHR 0x0A] @ Itoa (int (length rs)) @ '' checks: '' @ Itoa (int pass) @ '' pass, '' @ Itoa (int fail) @ '' fail, '' @
        Itoa (int warn) @ '' warn, '' @ Itoa (int info) @ '' info'' @ [CHR 0x0A])"

text \<open>What the command prints, its exit status, and the world it leaves.\<close>

record outcome_of_main =
  omOut :: "string list"
  omErr :: "string list"
  omExit :: int
  omWorld :: world

definition main :: "conform_env \<Rightarrow> flags \<Rightarrow> string option \<Rightarrow> world \<Rightarrow> outcome_of_main" where
  "main E fl failed w =
     (case Dial (flAddr fl) failed of
        Inl e \<Rightarrow> \<lparr>omOut = [], omErr = [''indiconform: '' @ e @ [CHR 0x0A]], omExit = 2, omWorld = w\<rparr>
      | Inr c \<Rightarrow>
          (case Run E \<lparr>opDevice = flDevice fl, opMutate = flMutate fl\<rparr> (w\<lparr>cwClient := c\<rparr>) of
             (results, w') \<Rightarrow>
               (case Summarize results of (pass, fail, warn, info) \<Rightarrow>
                  \<lparr>omOut = map result_line results @ [summary_line results], omErr = [],
                   omExit = (if fail > 0 then 1 else 0), omWorld = w'\<rparr>)))"

section \<open>Track rates\<close>

text \<open>Untyped constants of Go are exact.\<close>

definition StellarDaySec :: rat where "StellarDaySec = 86164098903691 / 1000000000"
definition SolarDaySec :: rat where "SolarDaySec = 86400"
definition TrackRateSidereal :: rat where "TrackRateSidereal = (360 * 3600) / StellarDaySec"
definition TrackRateSolar :: rat where "TrackRateSolar = (360 * 3600) / SolarDaySec"
definition TrackRateLunar :: rat where "TrackRateLunar = 14511415 / 1000000"

text \<open>The moon falls behind the sun, and the sun behind the stars: the sun by a turn a year.\<close>

lemma track_rates: "TrackRateLunar < TrackRateSolar" "TrackRateSolar = 15" "TrackRateSolar < TrackRateSidereal"
  "TrackRateSidereal - TrackRateSolar = TrackRateSolar * (SolarDaySec / StellarDaySec - 1)"
  by (simp_all add: TrackRateLunar_def TrackRateSolar_def TrackRateSidereal_def StellarDaySec_def SolarDaySec_def)

section \<open>Exit status\<close>

lemma count_status_pos: "0 < count_status st rs \<longleftrightarrow> (\<exists>q\<in>set rs. reStatus q = st)"
  by (auto simp: count_status_def filter_empty_conv)

lemma main_dialled:
  assumes "w0 = w\<lparr>cwClient := newClient\<rparr>" and "opts = \<lparr>opDevice = flDevice fl, opMutate = flMutate fl\<rparr>"
  shows "main E fl None w =
    \<lparr>omOut = map result_line (fst (Run E opts w0)) @ [summary_line (fst (Run E opts w0))], omErr = [],
     omExit = (if \<exists>q\<in>set (fst (Run E opts w0)). reStatus q = Fail then 1 else 0), omWorld = snd (Run E opts w0)\<rparr>"
  unfolding assms main_def Dial_def
  by (simp add: case_prod_unfold Summarize_counts flip: count_status_pos)

lemma Run_undiscovered:
  assumes "discover E opts (snd (GetProperties [] [] w)) = (False, w2)"
  shows "\<exists>q\<in>set (fst (Run E opts w)). reStatus q = Fail"
  using assms by (simp add: Run_def Let_def rp_fail_def rp_add_def split: option.split)

lemma Run_devices_verdict:
  assumes "discover E opts (snd (GetProperties [] [] w)) = (True, w2)"
    and "\<forall>q\<in>set (fst (Run E opts w)). reStatus q \<noteq> Fail"
    and "dev \<in> set (Devices (cwClient (conform_settle E w2)))" and "opDevice opts = [] \<or> opDevice opts = dev"
  shows "\<exists>q\<in>set (fst (Run E opts w)). reDevice q = dev \<and> reCheck q \<in> {''CONNECTION present'', ''CONNECTION is switch rw''}"
  using run_devices_verdict[OF assms(3,4)] assms(1,2) last_in_set
  by (fastforce simp: Run_def Let_def case_prod_unfold verdict_on_def aborted_def)

section \<open>Properties\<close>

text \<open>C25: The exit status is to be trusted: with 0 the server was reached, a device was discovered, every
  discovered device that was to be checked has a verdict on its connection, no result is a
  failure, and each result is a line of the output with the counts after them; without \<open>-mutate\<close>
  nothing but the request for the properties was sent.\<close>

theorem exit_zero:
  assumes "omExit (main E fl failed w) = 0"
    and "opts = \<lparr>opDevice = flDevice fl, opMutate = flMutate fl\<rparr>" and "w0 = w\<lparr>cwClient := newClient\<rparr>"
    and "rs = fst (Run E opts w0)"
  shows "failed = None \<and>
    (\<exists>w2. discover E opts (snd (GetProperties [] [] w0)) = (True, w2) \<and>
       (\<forall>dev\<in>set (Devices (cwClient (conform_settle E w2))). flDevice fl \<in> {[], dev} \<longrightarrow>
          (\<exists>q\<in>set rs. reDevice q = dev \<and> reCheck q \<in> {''CONNECTION present'', ''CONNECTION is switch rw''}))) \<and>
    (\<forall>q\<in>set rs. reStatus q \<noteq> Fail) \<and>
    omOut (main E fl failed w) = map result_line rs @ [summary_line rs] \<and>
    (\<not> flMutate fl \<longrightarrow> cwSent (omWorld (main E fl failed w)) = cwSent (snd (GetProperties [] [] w0)))"
proof -
  have f: "failed = None" using assms(1) by (cases failed) (simp_all add: main_def Dial_def)
  note m = main_dialled[OF assms(3,2), of E]
  have none: "\<forall>q\<in>set (fst (Run E opts w0)). reStatus q \<noteq> Fail"
    using assms(1) by (auto simp: f m split: if_splits)
  obtain ok w2 where d: "discover E opts (snd (GetProperties [] [] w0)) = (ok, w2)" by fastforce
  then have ok: "discover E opts (snd (GetProperties [] [] w0)) = (True, w2)"
    using none Run_undiscovered[of E opts w0 w2] by (cases ok) auto
  have "\<not> flMutate fl \<Longrightarrow> cwSent (snd (Run E opts w0)) = cwSent (snd (GetProperties [] [] w0))"
    using run_readonly[of opts E w0] assms(2) by simp
  then show ?thesis
    using Run_devices_verdict[OF ok none] ok none assms(2,4) by (auto simp: f m)
qed

text \<open>For the witness: a device that is defined when asked for and offers a connection.\<close>

definition found_world :: world where
  "found_world =
     \<lparr>cwClient = newClient, cwSent = [], cwRefusals = [],
      cwTurns = [idle_turn\<lparr>tuChunks := [[Element (sample_switches ''defSwitchVector'' ''defSwitch'' ''Off'' ''On'')]]\<rparr>],
      cwCtx = None\<rparr>"

theorem exit_zero_witness:
  "\<exists>q\<in>set (fst (Run silent_env \<lparr>opDevice = [], opMutate = False\<rparr> found_world)).
     reDevice q = ''D'' \<and> reCheck q \<in> {''CONNECTION present'', ''CONNECTION is switch rw''}"
proof -
  let ?O = "\<lparr>opDevice = [], opMutate = False\<rparr>"
  have e: "omExit (main silent_env default_flags None found_world) = 0" by code_simp
  let ?d = "discover silent_env ?O (snd (GetProperties [] [] found_world))"
  have dev: "''D'' \<in> set (Devices (cwClient (conform_settle silent_env (snd ?d))))" by code_simp
  have w: "found_world\<lparr>cwClient := newClient\<rparr> = found_world" by (simp add: found_world_def)
  show ?thesis
    using exit_zero[OF e refl refl refl] dev by (auto simp: default_flags_def w)
qed

end
