(* ===== verification/WireNumbers.thy ===== *)
theory WireNumbers
  imports CcdFits ClientStore HubDevices
begin

text \<open>
  Numbers on the wire. Both sides print a float with six decimals (\<open>numVal\<close> of
  \<open>server/xml.go\<close>, \<open>SetNumber\<close> of \<open>client/client.go\<close>) and read one with \<open>ParseNumber\<close>: what
  arrives is the value on a grid of millionths, and a value that has crossed once crosses
  unchanged. With it, a client's request is followed from the call to the device's task.
\<close>

section \<open>Rounding to the nearest float\<close>

lemma round_rat_error:
  assumes "1 / 1000000 \<le> \<bar>x\<bar>"
  shows "\<bar>round_rat x - x\<bar> \<le> \<bar>x\<bar> / 2 ^ 53"
proof -
  let ?u = "(2 :: rat) powi ulp_exp x"
  have pos: "0 < \<bar>x\<bar>" using assms by linarith
  have "(2 :: rat) powi (- 21) \<le> 1 / 1000000" by (simp add: power_int_def power_one_over)
  also have "\<dots> \<le> \<bar>x\<bar>" by (rule assms)
  also have "\<bar>x\<bar> < 2 powi (ilog2 \<bar>x\<bar> + 1)" by (rule ilog2_bounds(2)[OF pos])
  finally have "- 21 < ilog2 \<bar>x\<bar> + 1" by (rule powi_less_cancel)
  then have e: "ulp_exp x = ilog2 \<bar>x\<bar> - 52" by (simp add: ulp_exp_def)
  have "?u = 2 powi ilog2 \<bar>x\<bar> / 2 ^ 52" by (simp add: e power_int_diff)
  also have "\<dots> \<le> \<bar>x\<bar> / 2 ^ 52" using ilog2_bounds(1)[OF pos] by (rule divide_right_mono) simp
  finally have u: "?u \<le> \<bar>x\<bar> / 2 ^ 52" .
  have "round_rat x - x = (of_int (round_even (x / ?u)) - x / ?u) * ?u"
    using pos by (simp add: round_rat_def Let_def left_diff_distrib)
  then have "\<bar>round_rat x - x\<bar> \<le> 1 / 2 * ?u"
    using round_even_bounds[of "x / ?u"] by (simp add: abs_mult mult_right_mono)
  also have "\<dots> \<le> 1 / 2 * (\<bar>x\<bar> / 2 ^ 52)" using u by (rule mult_left_mono) simp
  finally show ?thesis by simp
qed

section \<open>Reading what was printed\<close>

text \<open>Digits are scanned one after the other, before and after the point.\<close>

lemma digits_int_shift: "digits_int a s = Some n \<Longrightarrow> digits_int b s = Some (n + (b - a) * 10 ^ length s)"
proof (induction a s arbitrary: b rule: digits_int.induct)
  case (2 a c s)
  then have d: "is_digit c" "digits_int (10 * a + digit_val c) s = Some n" by (auto split: if_splits)
  show ?case using "2.IH"[OF d(1) d(2), of "10 * b + digit_val c"] d(1) by (simp add: algebra_simps)
qed simp

lemma is_digit_plain: "is_digit c \<Longrightarrow> c \<noteq> CHR ''_'' \<and> c \<noteq> CHR ''.'' \<and> hex_val c = digit_val c"
  by (auto simp: is_digit_def hex_val_def)

lemma scan_mant_digits:
  "digits_int (mval m) s = Some n \<Longrightarrow>
     scan_mant False m (s @ t) = scan_mant False
       (m\<lparr>saw_digits := saw_digits m \<or> s \<noteq> [], mval := n,
          frac := (if saw_dot m then frac m + int (length s) else frac m)\<rparr>) t"
proof (induction s arbitrary: m)
  case (Cons c s)
  then have d: "is_digit c" "digits_int (10 * mval m + digit_val c) s = Some n" by (auto split: if_splits)
  let ?m = "m\<lparr>saw_digits := True, mval := 10 * mval m + digit_val c,
    frac := (if saw_dot m then frac m + 1 else frac m)\<rparr>"
  have "scan_mant False m ((c # s) @ t) = scan_mant False ?m (s @ t)"
    using is_digit_plain[OF d(1)] d(1) by simp
  also have "\<dots> = scan_mant False
       (?m\<lparr>saw_digits := True, mval := n,
          frac := (if saw_dot m then frac ?m + int (length s) else frac ?m)\<rparr>) t"
    using Cons.IH[of ?m] d(2) by simp
  finally show ?case by (simp add: algebra_simps)
next
  case Nil
  then show ?case by (cases m) simp
qed

lemma scan_mant_all:
  "digits_int (mval m) s = Some n \<Longrightarrow>
     scan_mant False m s = m\<lparr>saw_digits := saw_digits m \<or> s \<noteq> [], mval := n,
          frac := (if saw_dot m then frac m + int (length s) else frac m), unread := []\<rparr>"
  using scan_mant_digits[of m s n "[]"] by simp

lemma underscores_plain: "p \<noteq> PUnder \<Longrightarrow> CHR ''_'' \<notin> set s \<Longrightarrow> underscores_ok hex p s"
  by (induction hex p s rule: underscores_ok.induct) auto

text \<open>The six decimals.\<close>

lemma digits_int_zeros: "digits_int 0 (replicate z CHR ''0'' @ s) = digits_int 0 s"
proof -
  have "is_digit CHR ''0''" "digit_val CHR ''0'' = 0" by (simp_all add: is_digit_def digit_val_def)
  then show ?thesis by (induction z) auto
qed

lemma pad_digits_6:
  assumes "0 \<le> k" "k < 1000000"
  shows "length (pad_digits 6 k) = 6" and "digits_int 0 (pad_digits 6 k) = Some k"
    and "\<forall>c\<in>set (pad_digits 6 k). is_digit c"
proof -
  have "length (digits_of k) \<le> 6" using assms by (intro length_digits_of) auto
  then show "length (pad_digits 6 k) = 6" by (simp add: pad_digits_def Let_def)
  show "digits_int 0 (pad_digits 6 k) = Some k"
    using assms by (simp add: pad_digits_def Let_def digits_int_zeros digits_int_digits_of)
  show "\<forall>c\<in>set (pad_digits 6 k). is_digit c"
    using digits_of_digits[OF assms(1)] by (auto simp: pad_digits_def Let_def is_digit_def)
qed

definition fixed6 :: "int \<Rightarrow> string" where
  "fixed6 n = digits_of (n div 1000000) @ ''.'' @ pad_digits 6 (n mod 1000000)"

lemma fixed6_chars: "0 \<le> n \<Longrightarrow> c \<in> set (fixed6 n) \<Longrightarrow> is_digit c \<or> c = CHR ''.''"
  using digits_of_digits[of "n div 1000000"] pad_digits_6(3)[of "n mod 1000000"]
  by (auto simp: fixed6_def pos_imp_zdiv_nonneg_iff)

lemma fixed6_lower:
  assumes "0 \<le> n" "c \<in> set (fixed6 n)"
  shows "lower_char c \<notin> {CHR ''b'', CHR ''o'', CHR ''x''}" and "c \<noteq> CHR ''_''"
proof -
  have "is_digit c \<Longrightarrow> lower_char c = c" by (rule lower_digit)
  moreover have "lower_char CHR ''.'' = CHR ''.''" by code_simp
  moreover have "\<not> is_digit CHR ''b''" "\<not> is_digit CHR ''o''" "\<not> is_digit CHR ''x''" "\<not> is_digit CHR ''_''"
    by (simp_all add: is_digit_def)
  ultimately show "lower_char c \<notin> {CHR ''b'', CHR ''o'', CHR ''x''}" and "c \<noteq> CHR ''_''"
    using fixed6_chars[OF assms] by auto
qed

lemma fixed6_ends:
  assumes "0 \<le> n"
  obtains c s where "fixed6 n = c # s" "is_digit c" "is_digit (last (fixed6 n))"
proof -
  let ?d = "digits_of (n div 1000000)" and ?p = "pad_digits 6 (n mod 1000000)"
  have d: "\<forall>c\<in>set ?d. is_digit c" using assms by (intro digits_of_digits) (simp add: pos_imp_zdiv_nonneg_iff)
  have p: "?p \<noteq> []" "\<forall>c\<in>set ?p. is_digit c"
    using pad_digits_6[of "n mod 1000000"] by (auto simp del: length_0_conv simp flip: length_0_conv)
  obtain c s where c: "?d = c # s" by (cases ?d) auto
  show thesis
  proof (rule that)
    show "fixed6 n = c # s @ ''.'' @ ?p" by (simp add: fixed6_def c)
    show "is_digit c" using d c by simp
    show "is_digit (last (fixed6 n))" using p by (simp add: fixed6_def)
  qed
qed

lemma read_fixed6:
  assumes "0 \<le> n"
  shows "read_unsigned (fixed6 n) = Some (of_int n / 1000000)"
proof -
  let ?q = "n div 1000000" and ?k = "n mod 1000000"
  let ?m = "\<lparr>saw_dot = False, saw_digits = False, mval = 0, frac = 0, unread = []\<rparr>"
  have q: "0 \<le> ?q" using assms by (simp add: pos_imp_zdiv_nonneg_iff)
  have k: "0 \<le> ?k" "?k < 1000000" by simp_all
  have hex: "(length (fixed6 n) > 2 \<and> hd (fixed6 n) = CHR ''0'' \<and> lower_char (fixed6 n ! 1) = CHR ''x'') = False"
    using fixed6_lower[OF assms, of "fixed6 n ! 1"] by auto
  have "digits_int ?q (pad_digits 6 ?k) = Some (?k + ?q * 10 ^ 6)"
    using digits_int_shift[OF pad_digits_6(2)[OF k], of ?q] pad_digits_6(1)[OF k] by simp
  then have "digits_int ?q (pad_digits 6 ?k) = Some n" by (simp add: mult.commute)
  then have s: "scan_mant False ?m (fixed6 n) =
      ?m\<lparr>saw_dot := True, saw_digits := True, mval := n, frac := 6, unread := []\<rparr>"
    using scan_mant_digits[of ?m "digits_of ?q" ?q] digits_int_digits_of[OF q] pad_digits_6(1)[OF k]
    by (simp add: fixed6_def scan_mant_all)
  have "of_int n * (10 :: rat) powi (- 6) = of_int n / 1000000" by (simp add: power_int_minus field_simps)
  then show ?thesis unfolding read_unsigned_def Let_def hex by (simp add: s read_exp_def)
qed

lemma ParseFloat_fixed6:
  assumes "0 \<le> n" and fin: "f64_of_rat (of_int n / 1000000) \<noteq> PosInf"
  shows "ParseFloat (fixed6 n) = Some (f64_of_rat (of_int n / 1000000))"
    and "ParseFloat (CHR ''-'' # fixed6 n) = Some (- f64_of_rat (of_int n / 1000000))"
proof -
  obtain c s where c: "fixed6 n = c # s" "is_digit c" by (rule fixed6_ends[OF assms(1)])
  have p: "underscores_ok False POther (c # s)"
    using fixed6_lower(2)[OF assms(1)] by (intro underscores_plain) (auto simp flip: c(1))
  have "lower_char ((c # s) ! 1) \<notin> {CHR ''b'', CHR ''o'', CHR ''x''}" if "length (c # s) \<ge> 2"
    using fixed6_lower(1)[OF assms(1), of "(c # s) ! 1"] nth_mem[of 1 "c # s"] that
    by (simp only: c(1)) simp
  then have u: "underscoreOK (c # s)"
    using p is_digit_not_sign[OF c(2)] by (auto simp: underscoreOK_def Let_def simp del: underscores_ok.simps)
  have "ParseFloat (c # s) = Some (f64_of_rat (of_int n / 1000000))"
    using read_fixed6[OF assms(1)] fin u is_digit_not_sign[OF c(2)]
    by (simp add: ParseFloat_def read_special_digit[OF c(2)] c(1))
  then show "ParseFloat (fixed6 n) = Some (f64_of_rat (of_int n / 1000000))"
    and "ParseFloat (CHR ''-'' # fixed6 n) = Some (- f64_of_rat (of_int n / 1000000))"
    by (simp_all add: c(1) ParseFloat_minus[OF c(2)])
qed

section \<open>What arrives\<close>

text \<open>The number of millionths a float is printed as, and the float that is read back; a float that
  is not finite arrives as it is.\<close>

definition millionths :: "float64 \<Rightarrow> int" where
  "millionths v = round_even (\<bar>fval v\<bar> * 1000000)"

definition on_wire :: "float64 \<Rightarrow> float64" where
  "on_wire v =
     (if \<not> is_fin v then v
      else let a = f64_of_rat (of_int (millionths v) / 1000000) in if sign_bit v then - a else a)"

text \<open>The range in which the grid of millionths is coarser than the floats.\<close>

definition wire_range :: "float64 \<Rightarrow> bool" where
  "wire_range v \<longleftrightarrow> \<bar>fval v\<bar> \<le> 2 ^ 31"

lemma millionths_bounds:
  assumes "wire_range v"
  shows "0 \<le> millionths v" "millionths v \<le> 2 ^ 31 * 1000000"
    "\<bar>of_int (millionths v) / 1000000 - \<bar>fval v\<bar>\<bar> \<le> 1 / 2000000"
proof -
  let ?x = "\<bar>fval v\<bar> * 1000000"
  have b: "\<bar>of_int (millionths v) - ?x\<bar> \<le> 1 / 2" unfolding millionths_def by (rule round_even_bounds)
  have "(-1 :: rat) < of_int (millionths v)" using b abs_ge_zero[of "fval v"] by linarith
  then show "0 \<le> millionths v" by simp
  have "(of_int (millionths v) :: rat) < of_int (2 ^ 31 * 1000000 + 1)"
    using b assms abs_ge_self[of "of_int (millionths v) - ?x"] unfolding wire_range_def by (simp only: of_int_add of_int_mult) simp
  then have "millionths v < 2 ^ 31 * 1000000 + 1" by (simp only: of_int_less_iff)
  then show "millionths v \<le> 2 ^ 31 * 1000000" by simp
  show "\<bar>of_int (millionths v) / 1000000 - \<bar>fval v\<bar>\<bar> \<le> 1 / 2000000" using b by (simp add: field_simps abs_le_iff)
qed

text \<open>The float nearest to a number of millionths is closer to it than to any other.\<close>

lemma grid_float:
  assumes "0 \<le> k" "k \<le> 2 ^ 31 * 1000000"
  obtains r where "f64_of_rat (of_int k / 1000000) = Fin r" "0 \<le> r" "r = 0 \<longleftrightarrow> k = 0"
    "\<bar>r - of_int k / 1000000\<bar> \<le> 1 / 4000000" "round_even (r * 1000000) = k"
proof (cases "k = 0")
  case True
  then show thesis using that[of 0] round_even_of_int[of 0] by simp
next
  case False
  let ?x = "of_int k / 1000000 :: rat"
  define r where "r = round_rat ?x"
  have one: "(1 :: rat) \<le> of_int k" using assms(1) False by simp
  have "(of_int k :: rat) \<le> of_int (2 ^ 31 * 1000000)" using assms(2) by (simp only: of_int_le_iff)
  then have top: "(of_int k :: rat) \<le> 2147483648000000" by (simp only: of_int_mult of_int_power) simp
  have "\<bar>r - ?x\<bar> \<le> \<bar>?x\<bar> / 2 ^ 53" unfolding r_def using one by (intro round_rat_error) simp
  then have err: "\<bar>r - ?x\<bar> \<le> 1 / 4000000" using one top by simp
  then have e: "r \<le> ?x + 1 / 4000000" "?x \<le> r + 1 / 4000000" by linarith+
  have r: "0 < r" "r < 4294967296" and near: "\<bar>r * 1000000 - of_int k\<bar> < 1 / 2"
    using e one top by linarith+
  have "(2 :: rat) ^ 32 \<le> 2 ^ 1024" by (rule power_increasing) auto
  then have big: "(4294967296 :: rat) \<le> 2 ^ 1024" by simp
  have "\<not> 2 ^ 1024 \<le> r" "\<not> r \<le> - (2 ^ 1024)" using r big by linarith+
  then have f: "f64_of_rat ?x = Fin r" using r(1) by (simp add: f64_of_rat_def r_def)
  have "\<bar>of_int (round_even (r * 1000000)) - r * 1000000\<bar> \<le> 1 / 2" by (rule round_even_bounds)
  then have "\<bar>(of_int (round_even (r * 1000000) - k) :: rat)\<bar> < 1" using near by (simp only: of_int_diff)
  then have "round_even (r * 1000000) = k" by linarith
  with f r(1) err False show thesis by (intro that[of r]) auto
qed

lemma on_wire_fin:
  assumes "is_fin v" "wire_range v"
  obtains r where "f64_of_rat (of_int (millionths v) / 1000000) = Fin r"
    "on_wire v = (if sign_bit v then - Fin r else Fin r)" "0 \<le> r"
    "\<bar>r - \<bar>fval v\<bar>\<bar> \<le> 1 / 1000000" "round_even (r * 1000000) = millionths v"
proof -
  note m = millionths_bounds[OF assms(2)]
  obtain r where r: "f64_of_rat (of_int (millionths v) / 1000000) = Fin r" "0 \<le> r" "r = 0 \<longleftrightarrow> millionths v = 0"
    "\<bar>r - of_int (millionths v) / 1000000\<bar> \<le> 1 / 4000000" "round_even (r * 1000000) = millionths v"
    using grid_float[OF m(1,2)] .
  show thesis
  proof (rule that[OF r(1) _ r(2) _ r(5)])
    show "on_wire v = (if sign_bit v then - Fin r else Fin r)" using assms(1) by (simp add: on_wire_def Let_def r(1))
    show "\<bar>r - \<bar>fval v\<bar>\<bar> \<le> 1 / 1000000" using r(4) m(3) by linarith
  qed
qed

lemma fval_sign: "is_fin v \<Longrightarrow> fval v = (if sign_bit v then - \<bar>fval v\<bar> else \<bar>fval v\<bar>)"
  by (cases v) auto

lemma on_wire_again:
  assumes "wire_range v"
  shows "on_wire (on_wire v) = on_wire v" and "is_fin (on_wire v) = is_fin v"
    and "\<bar>fval (on_wire v) - fval v\<bar> \<le> 1 / 1000000"
proof -
  have "on_wire (on_wire v) = on_wire v \<and> is_fin (on_wire v) = is_fin v \<and> \<bar>fval (on_wire v) - fval v\<bar> \<le> 1 / 1000000"
  proof (cases "is_fin v")
    case True
    obtain r where r: "f64_of_rat (of_int (millionths v) / 1000000) = Fin r"
      "on_wire v = (if sign_bit v then - Fin r else Fin r)" "0 \<le> r"
      "\<bar>r - \<bar>fval v\<bar>\<bar> \<le> 1 / 1000000" "round_even (r * 1000000) = millionths v"
      using on_wire_fin[OF True assms] .
    have w: "is_fin (on_wire v)" "sign_bit (on_wire v) = sign_bit v" "\<bar>fval (on_wire v)\<bar> = r"
      "fval (on_wire v) = (if sign_bit v then - r else r)"
      using r(2,3) by (auto simp: not_less split: if_splits)
    then have "millionths (on_wire v) = millionths v" by (simp add: millionths_def[of "on_wire v"] r(5))
    then have "on_wire (on_wire v) = (if sign_bit v then - Fin r else Fin r)"
      unfolding on_wire_def[of "on_wire v"] by (simp only: w(1,2) r(1) Let_def not_True_eq_False if_False)
    then have "on_wire (on_wire v) = on_wire v" by (simp only: r(2))
    moreover have "\<bar>fval (on_wire v) - fval v\<bar> \<le> 1 / 1000000"
      using fval_sign[OF True] w(4) r(4) by (cases "sign_bit v"; simp only: if_True if_False; linarith)
    ultimately show ?thesis using w(1) True by simp
  qed (simp add: on_wire_def)
  then show "on_wire (on_wire v) = on_wire v" and "is_fin (on_wire v) = is_fin v"
    and "\<bar>fval (on_wire v) - fval v\<bar> \<le> 1 / 1000000" by blast+
qed

text \<open>Rounding does not leave a range with whole bounds.\<close>

lemma on_wire_bounds:
  assumes "is_fin v" "\<bar>fval v\<bar> \<le> of_int m" "m \<le> 2 ^ 31"
  shows "is_fin (on_wire v)" "\<bar>fval (on_wire v)\<bar> \<le> of_int m" "0 \<le> fval v \<Longrightarrow> 0 \<le> fval (on_wire v)"
proof -
  have "(of_int m :: rat) \<le> of_int (2 ^ 31)" using assms(3) by (simp only: of_int_le_iff)
  then have w: "wire_range v" using assms(2) unfolding wire_range_def of_int_power by simp
  note k = millionths_bounds[OF w]
  obtain r where r: "f64_of_rat (of_int (millionths v) / 1000000) = Fin r"
    "on_wire v = (if sign_bit v then - Fin r else Fin r)" "0 \<le> r"
    using on_wire_fin[OF assms(1) w] .
  obtain r' where "f64_of_rat (of_int (millionths v) / 1000000) = Fin r'"
    and e: "\<bar>r' - of_int (millionths v) / 1000000\<bar> \<le> 1 / 4000000"
    using grid_float[OF k(1,2)] .
  then have "r' = r" using r(1) by simp
  then have near: "r \<le> of_int (millionths v) / 1000000 + 1 / 4000000" using e by linarith
  have le: "r \<le> of_int m"
  proof (cases "millionths v = m * 1000000")
    case True
    then have x: "of_int (millionths v) / 1000000 = (of_int m :: rat)" by simp
    have "\<bar>m\<bar> < 2 ^ 53" using k(1) True assms(3) by simp
    then have "f64_of_rat (of_int m) = Fin (of_int m)" by (rule f64_of_rat_int)
    then show ?thesis using r(1) unfolding x by simp
  next
    case False
    have "(of_int (millionths v) :: rat) < of_int m * 1000000 + 1" using k(3) assms(2) by linarith
    then have "(of_int (millionths v) :: rat) < of_int (m * 1000000 + 1)" by simp
    then have "millionths v < m * 1000000 + 1" by (simp only: of_int_less_iff)
    then have "millionths v + 1 \<le> m * 1000000" using False by linarith
    then have "(of_int (millionths v + 1) :: rat) \<le> of_int (m * 1000000)" by (simp only: of_int_le_iff)
    then have "of_int (millionths v) + 1 \<le> (of_int m :: rat) * 1000000" by simp
    then show ?thesis using near by linarith
  qed
  have f: "is_fin (- Fin r)" "fval (- Fin r) = - r" by simp_all
  have "sign_bit v \<Longrightarrow> 0 \<le> fval v \<Longrightarrow> v = NegZero" using assms(1) by (cases v) simp_all
  moreover have "on_wire NegZero = NegZero" by code_simp
  ultimately have nn: "sign_bit v \<Longrightarrow> 0 \<le> fval v \<Longrightarrow> fval (on_wire v) = 0" by force
  show "is_fin (on_wire v)" using f(1) by (cases "sign_bit v") (simp_all only: r(2) if_True if_False is_fin.simps(1))
  show "\<bar>fval (on_wire v)\<bar> \<le> of_int m" using le r(3) by (cases "sign_bit v") (simp_all only: r(2) f(2) if_True if_False fval.simps(1) abs_minus_cancel abs_of_nonneg)
  show "0 \<le> fval v \<Longrightarrow> 0 \<le> fval (on_wire v)"
    using nn r(3) by (cases "sign_bit v") (simp_all add: r(2) del: uminus_float64.simps)
qed

lemma ParseFloat_numVal:
  assumes "wire_range v"
  shows "ParseFloat (TrimSpace (numVal v)) = Some (on_wire v)"
proof (cases "is_fin v")
  case True
  let ?n = "millionths v"
  have n: "0 \<le> ?n" by (rule millionths_bounds(1)[OF assms])
  obtain c s where c: "fixed6 ?n = c # s" "is_digit c" "is_digit (last (fixed6 ?n))" using fixed6_ends[OF n] .
  have val: "numVal v = float_sign v @ fixed6 ?n"
    using True by (cases v) (simp_all add: numVal_def FormatFixed6_def fixed6_def millionths_def Let_def)
  have "graph_char CHR ''-''" by code_simp
  then have "TrimSpace (numVal v) = numVal v"
    using c is_digit_graph by (intro TrimSpace_graph) (auto simp: val float_sign_def)
  moreover have fin: "f64_of_rat (of_int ?n / 1000000) \<noteq> PosInf"
    by (rule on_wire_fin[OF True assms]) simp
  ultimately show ?thesis
    using ParseFloat_fixed6[OF n fin] True by (simp add: val float_sign_def on_wire_def Let_def)
next
  case False
  have "ParseFloat (TrimSpace (numVal NaN)) = Some NaN" "ParseFloat (TrimSpace (numVal PosInf)) = Some PosInf"
    "ParseFloat (TrimSpace (numVal NegInf)) = Some NegInf"
    by code_simp+
  with False show ?thesis by (cases v) (simp_all add: on_wire_def)
qed

text \<open>C29: A number a device publishes and a number a client sends, up to two thousand million in
  size, is read back by the other side as the nearest float to its millionths: within a millionth,
  its sign kept, infinities and NaN as they are, and a number that crossed once crosses unchanged.\<close>

theorem number_crosses:
  assumes "wire_range v"
  shows "ParseNumber (numVal v) = Some (on_wire v) \<and> atof (TrimSpace (numVal v)) = on_wire v \<and>
    is_fin (on_wire v) = is_fin v \<and> \<bar>fval (on_wire v) - fval v\<bar> \<le> 1 / 1000000 \<and>
    on_wire (on_wire v) = on_wire v"
proof -
  have "ParseNumber (numVal v) = Some (on_wire v)" "ParseNumber (TrimSpace (numVal v)) = Some (on_wire v)"
    using ParseFloat_numVal[OF assms] by (simp_all add: ParseNumber_def)
  then show ?thesis using on_wire_again[OF assms] by (simp add: atof_def ParseNumber_client)
qed

theorem number_crosses_witness:
  "ParseNumber (numVal (Fin (- 355 / 113))) = Some (on_wire (Fin (- 355 / 113)))"
  using number_crosses[of "Fin (- 355 / 113)"] by (simp add: wire_range_def)

section \<open>A request, from the call to the device\<close>

definition sent :: "(string \<times> string) list \<Rightarrow> NewMember list" where
  "sent vals = map (\<lambda>(n, v). \<lparr>nm_name = n, nm_value = v\<rparr>) vals"

definition sent_vector :: "string \<Rightarrow> string \<Rightarrow> string \<Rightarrow> (string \<times> string) list \<Rightarrow> xnewVector" where
  "sent_vector child dev name vals =
     (let ms = map (\<lambda>(n, v). \<lparr>xoName = n, xoValue = v\<rparr>) vals
      in \<lparr>xnDevice = dev, xnName = name, xnNumbers = (if child = ''oneNumber'' then ms else []),
          xnSwitches = (if child = ''oneSwitch'' then ms else []), xnTexts = (if child = ''oneText'' then ms else [])\<rparr>)"

lemma decode_sent:
  assumes "child \<in> {''oneNumber'', ''oneSwitch'', ''oneText''}"
  shows "decode_new (wNewVector elem child dev name vals) = sent_vector child dev name vals"
proof -
  have "map decode_one (filter (is_elem k) (map (\<lambda>(n, v). Elem child (attr ''name'' n) [CharData v]) vals)) =
      (if child = k then map (\<lambda>(n, v). \<lparr>xoName = n, xoValue = v\<rparr>) vals else [])" for k
    by (induction vals) (auto simp: decode_one_def get_text_def)
  then show ?thesis
    using assms by (auto simp: decode_new_def wNewVector_def sent_vector_def get_children_def get_attr_Elem attr_def Let_def)
qed

lemma request_arrives:
  "handle_elem E ops i (cl_SetNumber dev name nums) h =
     dispatchNew E ops i ''newNumberVector'' (sent_vector ''oneNumber'' dev name (map (\<lambda>(n, v). (n, numVal v)) nums)) h"
  "handle_elem E ops i (cl_SetSwitch dev name sws) h =
     dispatchNew E ops i ''newSwitchVector'' (sent_vector ''oneSwitch'' dev name (map (\<lambda>(n, on). (n, onoff on)) sws)) h"
  "handle_elem E ops i (cl_SetText dev name txts) h =
     dispatchNew E ops i ''newTextVector'' (sent_vector ''oneText'' dev name txts) h"
proof -
  have n: "elem_name (wNewVector elem child dev name vals) = elem" for elem child vals by (simp add: wNewVector_def)
  show "handle_elem E ops i (cl_SetNumber dev name nums) h =
     dispatchNew E ops i ''newNumberVector'' (sent_vector ''oneNumber'' dev name (map (\<lambda>(n, v). (n, numVal v)) nums)) h"
    "handle_elem E ops i (cl_SetSwitch dev name sws) h =
     dispatchNew E ops i ''newSwitchVector'' (sent_vector ''oneSwitch'' dev name (map (\<lambda>(n, on). (n, onoff on)) sws)) h"
    "handle_elem E ops i (cl_SetText dev name txts) h =
     dispatchNew E ops i ''newTextVector'' (sent_vector ''oneText'' dev name txts) h"
    unfolding handle_elem_def cl_SetNumber_def cl_SetSwitch_def cl_SetText_def n numVal_def[symmetric]
    by (simp_all add: decode_sent)
qed

text \<open>What the hub demands of a vector depends on the fixed part of the property only.\<close>

lemma limits_shape:
  assumes "shape p = shape q"
  shows "map_option fixed_member (member_limits (pMembers p) n) = map_option fixed_member (member_limits (pMembers q) n)"
proof -
  have name: "mName (fixed_member m) = mName m" for m by (simp add: fixed_member_def)
  have "map_option fixed_member (member_limits ms n) = member_limits (map fixed_member ms) n" for ms
    by (simp add: member_limits_def name o_def flip: map_of_map rev_map)
       (simp add: map_of_map[symmetric, THEN fun_cong, unfolded o_def] rev_map name o_def)
  moreover have "pMembers (shape r) = map fixed_member (pMembers r)" for r by (simp add: shape_def)
  then have "map fixed_member (pMembers p) = map fixed_member (pMembers q)" using assms by metis
  ultimately show ?thesis by simp
qed

lemma admissible_shape:
  assumes "shape p = shape q"
  shows "writable p elem = writable q elem" "numbers_ok p v = numbers_ok q v" "switches_ok p v = switches_ok q v"
proof -
  have "in_bounds (fixed_member m) x = in_bounds m x" for m x by (simp add: in_bounds_def fixed_member_def)
  then have "number_ok lims n = number_ok (map_option fixed_member \<circ> lims) n" for lims n
    by (auto simp: number_ok_def split: option.split)
  moreover have "map_option fixed_member \<circ> member_limits (pMembers p) = map_option fixed_member \<circ> member_limits (pMembers q)"
    using limits_shape[OF assms] by (intro ext) simp
  ultimately have "number_ok (member_limits (pMembers p)) n = number_ok (member_limits (pMembers q)) n" for n
    by metis
  then show "writable p elem = writable q elem" "numbers_ok p v = numbers_ok q v" "switches_ok p v = switches_ok q v"
    using shape_parts[OF assms] by (simp_all add: writable_def numbers_ok_def switches_ok_def)
qed

section \<open>A goto\<close>

definition goto_request :: "float64 \<Rightarrow> float64 \<Rightarrow> (string \<times> float64) list \<Rightarrow> bool" where
  "goto_request ra dec kvs \<longleftrightarrow> kvs = [(''RA'', ra), (''DEC'', dec)] \<or> kvs = [(''DEC'', dec), (''RA'', ra)]"

definition on_sky :: "float64 \<Rightarrow> float64 \<Rightarrow> bool" where
  "on_sky ra dec \<longleftrightarrow> \<not> ra < Fin 0 \<and> \<not> Fin 24 < ra \<and> \<not> dec < Fin (- 90) \<and> \<not> Fin 90 < dec"

lemma asked_on_sky:
  assumes "is_fin ra" "is_fin dec" "0 \<le> fval ra" "fval ra \<le> 24" "\<bar>fval dec\<bar> \<le> 90"
  shows "on_sky (on_wire ra) (on_wire dec)"
proof -
  have "is_fin (on_wire ra)" "\<bar>fval (on_wire ra)\<bar> \<le> 24" "0 \<le> fval (on_wire ra)"
    using on_wire_bounds[of ra 24] assms by simp_all
  moreover have "is_fin (on_wire dec)" "\<bar>fval (on_wire dec)\<bar> \<le> 90"
    using on_wire_bounds[of dec 90] assms by simp_all
  ultimately show ?thesis by (auto simp: on_sky_def less_float64_def)
qed

definition goto_vector :: "string \<Rightarrow> (string \<times> float64) list \<Rightarrow> xnewVector" where
  "goto_vector dev kvs = sent_vector ''oneNumber'' dev ''EQUATORIAL_EOD_COORD'' (map (\<lambda>(n, v). (n, numVal v)) kvs)"

text \<open>What the hub calls on a device that is a mount.\<close>

lemma site_mount:
  "dProps (site_ops pr KM KC sched) (Inl d) = mount_Properties KM d"
  "dPut (site_ops pr KM KC sched) (Inl d) j p = Inl (on_prop (mount_fields KM d ! j) (\<lambda>_. p) d)"
  "dHandle (site_ops pr KM KC sched) (Inl d) name ms =
     (mdPub (mount_HandleNew pr KM name ms (d\<lparr>mdPub := []\<rparr>)),
      Inl ((mount_HandleNew pr KM name ms (d\<lparr>mdPub := []\<rparr>))\<lparr>mdPub := []\<rparr>))"
  by (simp_all add: site_ops_def either_ops_def mount_ops_of_def Let_def)

lemma goto_admissible:
  assumes "mount_ok n s d" "wire_range ra" "wire_range dec" "goto_request ra dec kvs"
  shows "find_prop ''EQUATORIAL_EOD_COORD'' (mount_Properties K d) = Some 2"
    "mount_Properties K d ! 2 = mdProp d MEq"
    "writable (mdProp d MEq) ''newNumberVector''" "switches_ok (mdProp d MEq) (goto_vector dev kvs)"
    "numbers_ok (mdProp d MEq) (goto_vector dev kvs) = on_sky (on_wire ra) (on_wire dec)"
proof -
  have sh: "shape (mdProp d k) = shape (mount_prop n (Fin 0) k)" for k
    using assms(1) by (simp add: mount_ok_def well_kept_def)
  have "pName (mdProp d MConn) = ''CONNECTION''" "pName (mdProp d MDriverInfo) = ''DRIVER_INFO''"
    "pName (mdProp d MEq) = ''EQUATORIAL_EOD_COORD''"
    using shape_parts(2)[OF sh] by (simp_all add: standard_defs member_defs)
  then show "find_prop ''EQUATORIAL_EOD_COORD'' (mount_Properties K d) = Some 2" "mount_Properties K d ! 2 = mdProp d MEq"
    by (simp_all add: mount_Properties_def mount_fields_def)
  note eq = admissible_shape[OF sh[of MEq]]
  show "writable (mdProp d MEq) ''newNumberVector''" "switches_ok (mdProp d MEq) (goto_vector dev kvs)"
    unfolding eq by (simp_all add: writable_def switches_ok_def newVecType_def standard_defs member_defs)
  have r: "ParseNumber (numVal ra) = Some (on_wire ra)" "ParseNumber (numVal dec) = Some (on_wire dec)"
    using ParseFloat_numVal assms(2,3) by (simp_all add: ParseNumber_def)
  show "numbers_ok (mdProp d MEq) (goto_vector dev kvs) = on_sky (on_wire ra) (on_wire dec)"
    using assms(4) unfolding eq
    by (auto simp: numbers_ok_def goto_request_def goto_vector_def sent_vector_def number_ok_def r member_limits_def
        in_bounds_def on_sky_def standard_defs member_defs)
qed


definition sample_mount_site :: "((direction \<times> int) list mount_dev + nat ccd_dev) hub" where
  "sample_mount_site = New\<lparr>hDevices := [''Mount'' \<mapsto> 0], hOrder := [Inl (mount_New sample_mount ''Mount'' (Fin 1) [])]\<rparr>"

lemma sample_mount_site_runs: "site_running sample_env sample_mount sample_camera sample_mount_site"
proof -
  let ?O = "site_ops (ePrint sample_env) sample_mount sample_camera (\<lambda>i. [])"
  have n: "dName ?O (Inl (mount_New sample_mount ''Mount'' (Fin 1) [])) = ''Mount''" unfolding site_name by code_simp
  have "AddDevice sample_env ?O (Inl (mount_New sample_mount ''Mount'' (Fin 1) [])) New = Inr sample_mount_site"
    by (simp add: AddDevice_def n sample_mount_site_def New_def)
  then show ?thesis by (rule site_running.step[OF site_running.start site_step.add_mount])
qed


end
