(* ===== verification/Spec2Isabelle.thy ===== *)
theory Spec2Isabelle
  imports BlobPath ConformDevices ServerServe HubMirror ClientInflate Indiconform WireNumbers
begin

text \<open>
  goindi is an INDI (Instrument Neutral Distributed Interface) client and server in Go, with
  adapters for a mount and a camera and a conformance checker. This development translates its
  code and proves what it promises.

  The program. A server (\<open>src/server\<close>) hosts devices. A device owns property vectors
  (numbers, switches, texts, lights, BLOBs), handles requests to change them and pushes changes
  through a publisher; the hub marshals each change once and appends it to the bounded
  outbound queue of every connected client that wants it, and validates what clients send
  before a device sees it. \<open>src/mount\<close> and \<open>src/ccd\<close> are devices over a mount driver and a camera. A
  client (\<open>src/client\<close>) reads the server's XML stream into a store of properties and a ring of
  messages, lets callers wait for a property to change, and streams BLOB payloads through an
  incremental base64 decoder into a sink, such as a buffer or a FITS decoder. The checker
  (\<open>src/conform\<close>) is a program over the client.

  The language and its library.
  \<^item> \<open>Prelude\<close>: collections of simplification rules, bytes, generic lemmas.
  \<^item> \<open>GoFloat\<close>, \<open>GoStrings\<close>, \<open>GoStrconv\<close>, \<open>GoXml\<close>, \<open>GoBase64\<close>: what the repository uses of the
    language and its standard library. A \<open>float64\<close> is exact: a rational that is representable,
    an infinity, NaN or negative zero, each operation rounding once. A string is a list of
    bytes. An XML element is a tree; splitting a byte stream into elements is the library's.

  The server.
  \<^item> \<open>Number\<close> (\<open>server/number.go\<close>, \<open>client/parse.go\<close>): sexagesimal numbers; both parsers are
    shown equal to one reference reading.
  \<^item> \<open>ServerProperty\<close> (\<open>server/property.go\<close>): vectors and their setters. The locale of cells
    states what a setter and a getter owe each other; the interpretation is on numbers.
    \<open>SetSwitch\<close> refines an operation on the set of On members and keeps the switch rule.
  \<^item> \<open>ServerStandard\<close> (\<open>server/standard.go\<close>): the standard vectors, and the part of a vector, its
    shape, that no setter changes.
  \<^item> \<open>ServerXml\<close> (\<open>server/xml.go\<close>): marshalling and the hand-built BLOB message.
  \<^item> \<open>ServerConn\<close> (\<open>conn\<close>, \<open>writeLoop\<close>, \<open>removeConn\<close>, \<open>inboundGuard\<close> of \<open>server/server.go\<close>): one
    connection as a step relation over enqueuing, writing and dropping in any interleaving.
    The invariant gives that the channel is never misused, that the byte budget counts what
    is queued, and that the peer is written the accepted messages in order; the writer can
    always drain. The locale \<open>outbox\<close> is the contract the hub relies on.
  \<^item> \<open>ServerHub\<close> (\<open>server/device.go\<close> and the rest of \<open>server/server.go\<close>): registration, the
    accept loop, publishing, snapshots, validation and dispatch of inbound vectors. Each
    client's stream is a refinement of the publications its policy admits.
  \<^item> \<open>ServerServe\<close> (\<open>handle\<close>, \<open>Serve\<close>): the read loop of a connection over the guard; elements within the
    limit are handled in order and an oversized one ends the connection. Serving, given the
    outcome of listening.
  \<^item> \<open>DeviceContract\<close>: what the hub may rely on of a device, as a locale, and a hub that keeps the
    contract of its devices; \<open>HubDevices\<close>: a hub of mounts and cameras.

  The devices.
  \<^item> \<open>MountDevice\<close> (\<open>mount/mount.go\<close>): the handlers, the goroutines of gotos and pulses as tasks of the
    state, the poll; an invariant for all interleavings, and the contract of \<open>DeviceContract\<close>.
  \<^item> \<open>CcdFits\<close> (\<open>encodeFITS\<close>), \<open>CcdDevice\<close> (\<open>ccd/ccd.go\<close>, \<open>ccd/properties.go\<close>, \<open>ccd/caps.go\<close>), \<open>CcdExposure\<close>: the
    camera, whose exposures are goroutines that a stop cancels and waits for, for two seconds
    at most. With waits long enough there is one exposure at most and an abort ends it;
    when a wait times out the old goroutine orphans the new exposure.

  The client.
  \<^item> \<open>ClientStore\<close> (\<open>client/client.go\<close>, \<open>client/xml.go\<close>): the store and the ring, what each inbound
    element does to them, the read loop, the outbound elements. The locale \<open>bounded_log\<close> is
    the contract of a ring that keeps its last entries.
  \<^item> \<open>ClientBlob\<close> (\<open>client/blob.go\<close>): the base64 decoder, sinks, and the token loop of a BLOB
    vector. The locale \<open>byte_sink\<close> is what a sink owes the decoder; inside it a payload is shown
    delivered whole however it is cut into chunks and broken by white space.
  \<^item> \<open>ClientInflate\<close> (\<open>inflateCounter\<close> of \<open>client/blob.go\<close>): the counter that inflates a payload while it
    arrives, through a pipe; it gives what the whole payload inflates to, whatever the pieces.
  \<^item> \<open>ClientWait\<close> (\<open>WaitRevCtx\<close>): a waiter beside the read loop as a step relation; no wakeup is
    lost. The locale \<open>notifier\<close> is the contract of the channel that is closed and replaced.
  \<^item> \<open>ClientCalls\<close> (all waits and acknowledged commands of \<open>client/client.go\<close>): a call as a function of
    what arrives while it blocks; it refines the waiter.
  \<^item> \<open>ClientFits\<close> (\<open>client/fits.go\<close>), \<open>ClientFitsStream\<close>, \<open>ClientFitsSink\<close> (\<open>client/fitsstream.go\<close>): decoding a
    FITS image from a payload in memory, and as it arrives, with the same result.

  Across components.
  \<^item> \<open>BlobPath\<close>: a frame of the camera, encoded, sent and streamed into the client's FITS sink.
  \<^item> \<open>ClientMirror\<close>: a client that reads what a server announces of a vector mirrors it.
  \<^item> \<open>DeviceMirror\<close>, \<open>CcdMirror\<close>: the mount and the camera publish all they change, so that their clients keep
    seeing them.
  \<^item> \<open>HubMirror\<close>: the contract of a device that informs its clients, as a locale that extends that of
    \<open>DeviceContract\<close> and that both devices meet; with it, a client of a hub that asked for all properties
    sees every device as it is once it has read what it was sent.
  \<^item> \<open>WireNumbers\<close>: what becomes of a number printed by one side and read by the other, and a request for a
    goto followed from the client's call to the mount's task.
  \<^item> \<open>Conform\<close> (\<open>conform/conform.go\<close>): the checks as functions of a report and the client's world. Without
    \<open>Mutate\<close> nothing is changed, a device is left as it was found, no device is skipped.
  \<^item> \<open>ConformDevices\<close>: the mount passes the check; the camera lacks what it advertises.
  \<^item> \<open>Indiconform\<close> (\<open>cmd/indiconform/main.go\<close>, \<open>Dial\<close>): the command over the checker, what it prints and what its
    exit status says; and the constants of \<open>client/trackrate.go\<close>.

  State. Each Go struct is a record with its fields; a pointer to a device, a property or a
  connection is its position in a list. A method that runs under its object's mutex is one
  step. Goroutines that meet in a channel or a condition (the queue and its writer, the
  waiter and the read loop, an exposure and its stop) are step relations with arbitrary
  interleaving. Errors are the left values of a sum, or None where the source returns
  \<open>false\<close>; a panic is a value.

  Time. No clock is modelled. A wait is given what happens while it lasts: the events of the
  schedule of \<open>CcdExposure\<close>, the chunks of the turn of \<open>ClientCalls\<close>, each finite, after which the wait's
  deadline or context ends it. So every wait returns, as the code's do, and the theorems hold
  for every length of it.

  Bounds and parameters. An \<open>int\<close> is a mathematical integer where the source keeps it
  in range and wraps at 64 bits where it may not (\<open>ClientFits\<close>, \<open>ClientFitsStream\<close>, \<open>CcdFits\<close>). Every loop
  is structural or has a measure, so no fuel is used. Parameters: the operations of the
  LX200 driver behind the mount (a third-party package) and of a camera, with their optional
  interfaces, of which nothing is assumed; which runes \<open>%q\<close> prints as they are; the length a
  zlib stream inflates to; the time stamp; the order of a Go map; the allocator's limit (2 to
  the 48 bytes, as the runtime has on 64-bit targets). Multiplication and addition are not
  fused, converting NaN to \<open>uint16\<close> gives 0, and a float that does not fit an \<open>int\<close> gives the
  least one, as on amd64; the language allows other results for these.

  Not modelled. What dialling and listening do (their outcomes are arguments), the bytes of the
  client's requests, deadlines of sockets, logging and tracing (I/O); the zlib format itself; the
  parsing of flags. That a parsed stream has the elements that were written is taken from the XML
  library, for characters XML admits. \<open>DeviceMirror\<close> and \<open>HubMirror\<close> leave out the poll of a mount with optics, which
  writes a focal length again that compares equal, so that a zero may change its sign unannounced,
  and clients that take BLOBs. A device that is added while the hub serves is not announced by the
  code: a client sees it when it asks again.
\<close>

end
